(* ===== verification/Prelude.thy ===== *)
theory Prelude
  imports Main "HOL-Library.Word"
begin

text \<open>
  Shared vocabulary of the development: machine integers, the result type of C code that
  may fail, bounds-checked array access, and the facts about them that every component
  uses.

  A C function of the driver is a HOL function that returns \<open>fault + 'a\<close>: \<open>Inr\<close> the
  value (and the new state) of a call that returns, \<open>Inl\<close> the reason why the call does
  not return normally.  Error codes such as \<open>-EINVAL\<close> are ordinary values.
\<close>

unbundle bit_operations_syntax

type_synonym u8 = "8 word"
type_synonym u16 = "16 word"
type_synonym u32 = "32 word"
type_synonym u64 = "64 word"

section \<open>Words and numbers\<close>

lemma unat_of_nat_small: "n < 2 ^ LENGTH('a) \<Longrightarrow> unat (of_nat n :: 'a::len word) = n"
  by (simp add: unsigned_of_nat take_bit_nat_eq_self)

lemma unat_u32_less: "unat (n :: u32) < 4294967296"
  using unsigned_less [of n, where ?'a = nat] by simp

lemma unat_u16_less: "unat (n :: u16) < 65536"
  using unsigned_less [of n, where ?'a = nat] by simp

lemma ucast_u32_eq_iff [simp]: "(ucast (x :: u32) :: u64) = ucast y \<longleftrightarrow> x = y"
proof
  assume eq: "(ucast x :: u64) = ucast y"
  show "x = y"
  proof (rule bit_word_eqI)
    fix n :: nat assume n: "n < LENGTH(32)"
    have "bit z n = bit (ucast z :: u64) n" for z :: u32 using n by (simp add: bit_simps)
    then show "bit x n = bit y n" by (simp add: eq)
  qed
qed simp

lemma unat_of_nat_u32 [simp]: "n < 2 ^ 32 \<Longrightarrow> unat (of_nat n :: u32) = n"
  by (rule unat_of_nat_small) simp

lemma unat_of_nat_u16 [simp]: "n < 2 ^ 16 \<Longrightarrow> unat (of_nat n :: u16) = n"
  by (rule unat_of_nat_small) simp

section \<open>Lemma collections\<close>

named_theorems res_simps \<open>evaluation of results and of bounds-checked accesses\<close>
named_theorems c_consts \<open>values of the macros of the headers\<close>
named_theorems frame_simps \<open>what an operation leaves unchanged\<close>

section \<open>Faults\<close>

text \<open>
  \<open>NullDeref\<close>: a NULL pointer is dereferenced.  \<open>BadAccess\<close>: a pointer to memory that is
  not (or no longer) mapped is dereferenced or freed.  \<open>OutOfBounds\<close>: an array is accessed
  outside its bounds.  \<open>DivByZero\<close>: integer division by 0.  \<open>Hang\<close>: a loop never ends.
  \<open>Exited\<close>: the process ended in \<open>rte_exit\<close>.
\<close>

datatype fault = NullDeref | BadAccess | OutOfBounds | DivByZero | Hang | Exited

definition andThen :: "fault + 'a \<Rightarrow> ('a \<Rightarrow> fault + 'b) \<Rightarrow> fault + 'b" where
  "andThen m f = (case m of Inl e \<Rightarrow> Inl e | Inr x \<Rightarrow> f x)"

lemma andThen_Inr [simp, res_simps]: "andThen (Inr x) f = f x"
  by (simp add: andThen_def)

lemma andThen_Inl [simp, res_simps]: "andThen (Inl e) f = Inl e"
  by (simp add: andThen_def)

lemma andThen_eq_Inr: "andThen m f = Inr y \<longleftrightarrow> (\<exists>x. m = Inr x \<and> f x = Inr y)"
  by (cases m) auto

lemma andThen_eq_Inl: "andThen m f = Inl e \<longleftrightarrow> m = Inl e \<or> (\<exists>x. m = Inr x \<and> f x = Inl e)"
  by (cases m) auto

lemma andThen_assoc: "andThen (andThen m f) g = andThen m (\<lambda>x. andThen (f x) g)"
  by (cases m) auto

lemma andThen_InrE:
  assumes "andThen m f = Inr y"
  obtains x where "m = Inr x" and "f x = Inr y"
  using assms by (auto simp: andThen_eq_Inr)

section \<open>Memory and arrays\<close>

text \<open>A pointer is a 64-bit address; NULL is 0.  \<open>deref m p\<close> loads the object at \<open>p\<close>.\<close>

definition deref :: "(u64 \<rightharpoonup> 'a) \<Rightarrow> u64 \<Rightarrow> fault + 'a" where
  "deref m p = (if p = 0 then Inl NullDeref
                else case m p of None \<Rightarrow> Inl BadAccess | Some x \<Rightarrow> Inr x)"

lemma deref_Some [simp, res_simps]: "p \<noteq> 0 \<Longrightarrow> m p = Some x \<Longrightarrow> deref m p = Inr x"
  by (simp add: deref_def)

lemma deref_eq_Inr: "deref m p = Inr x \<longleftrightarrow> p \<noteq> 0 \<and> m p = Some x"
  by (auto simp: deref_def split: option.splits)

lemma deref_eq_Inl_cases: "deref m p = Inl e \<Longrightarrow> e = NullDeref \<or> e = BadAccess"
  by (auto simp: deref_def split: option.splits if_splits)

definition load_idx :: "'a list \<Rightarrow> nat \<Rightarrow> fault + 'a" where
  "load_idx xs i = (if i < length xs then Inr (xs ! i) else Inl OutOfBounds)"

definition store_idx :: "'a list \<Rightarrow> nat \<Rightarrow> 'a \<Rightarrow> fault + 'a list" where
  "store_idx xs i x = (if i < length xs then Inr (xs[i := x]) else Inl OutOfBounds)"

lemma load_idx_Inr [simp, res_simps]: "i < length xs \<Longrightarrow> load_idx xs i = Inr (xs ! i)"
  by (simp add: load_idx_def)

lemma store_idx_Inr [simp, res_simps]: "i < length xs \<Longrightarrow> store_idx xs i x = Inr (xs[i := x])"
  by (simp add: store_idx_def)

lemma load_idx_eq_Inr: "load_idx xs i = Inr x \<longleftrightarrow> i < length xs \<and> x = xs ! i"
  by (auto simp: load_idx_def)

lemma load_idx_eq_Inl: "load_idx xs i = Inl e \<longleftrightarrow> length xs \<le> i \<and> e = OutOfBounds"
  by (auto simp: load_idx_def)

lemma store_idx_eq_Inr: "store_idx xs i x = Inr ys \<longleftrightarrow> i < length xs \<and> ys = xs[i := x]"
  by (auto simp: store_idx_def)

text \<open>An array indexed by a signed \<open>int\<close>.\<close>

definition load_int :: "'a list \<Rightarrow> int \<Rightarrow> fault + 'a" where
  "load_int xs i = (if i < 0 then Inl OutOfBounds else load_idx xs (nat i))"

definition store_int :: "'a list \<Rightarrow> int \<Rightarrow> 'a \<Rightarrow> fault + 'a list" where
  "store_int xs i x = (if i < 0 then Inl OutOfBounds else store_idx xs (nat i) x)"

lemma load_int_Inr [simp, res_simps]:
  "0 \<le> i \<Longrightarrow> i < int (length xs) \<Longrightarrow> load_int xs i = Inr (xs ! nat i)"
  by (simp add: load_int_def load_idx_def nat_less_iff)

lemma store_int_Inr [simp, res_simps]:
  "0 \<le> i \<Longrightarrow> i < int (length xs) \<Longrightarrow> store_int xs i x = Inr (xs[nat i := x])"
  by (simp add: store_int_def store_idx_def nat_less_iff)

lemma load_int_eq_Inr: "load_int xs i = Inr x \<longleftrightarrow> 0 \<le> i \<and> i < int (length xs) \<and> x = xs ! nat i"
  by (auto simp: load_int_def load_idx_def nat_less_iff)

section \<open>Counting loops\<close>

text \<open>\<open>for (i = a; i < a + n; i++) body\<close>, left at the first fault.\<close>

fun for_loop :: "nat \<Rightarrow> nat \<Rightarrow> (nat \<Rightarrow> 's \<Rightarrow> fault + 's) \<Rightarrow> 's \<Rightarrow> fault + 's" where
  "for_loop a 0 body s = Inr s"
| "for_loop a (Suc n) body s = andThen (body a s) (for_loop (Suc a) n body)"

lemma for_loop_invariant:
  assumes "P a s" and "for_loop a n body s = Inr t"
    and "\<And>i s t. a \<le> i \<Longrightarrow> i < a + n \<Longrightarrow> P i s \<Longrightarrow> body i s = Inr t \<Longrightarrow> P (Suc i) t"
  shows "P (a + n) t"
  using assms
proof (induction n arbitrary: a s)
  case 0
  then show ?case by simp
next
  case (Suc n)
  from Suc.prems(2) obtain u where u: "body a s = Inr u" and rest: "for_loop (Suc a) n body u = Inr t"
    by (auto simp: andThen_eq_Inr)
  from Suc.prems(1,3) u have "P (Suc a) u" by simp
  then have "P (Suc a + n) t" using rest Suc.prems(3) by (rule Suc.IH) simp_all
  then show ?case by simp
qed

text \<open>A loop that rewrites the cells of an array one by one.\<close>

definition modify_idx :: "nat \<Rightarrow> ('a \<Rightarrow> 'a) \<Rightarrow> 'a list \<Rightarrow> fault + 'a list" where
  "modify_idx i f xs = andThen (load_idx xs i) (\<lambda>x. store_idx xs i (f x))"

lemma modify_idx_Inr [simp, res_simps]:
  "i < length xs \<Longrightarrow> modify_idx i f xs = Inr (xs[i := f (xs ! i)])"
  by (simp add: modify_idx_def)

lemma modify_idx_eq_Inr:
  "modify_idx i f xs = Inr ys \<longleftrightarrow> i < length xs \<and> ys = xs[i := f (xs ! i)]"
  by (auto simp: modify_idx_def andThen_eq_Inr load_idx_eq_Inr store_idx_eq_Inr)

definition map_range :: "nat \<Rightarrow> nat \<Rightarrow> (nat \<Rightarrow> 'a \<Rightarrow> 'a) \<Rightarrow> 'a list \<Rightarrow> 'a list" where
  "map_range a b f xs = map (\<lambda>i. if a \<le> i \<and> i < b then f i (xs ! i) else xs ! i) [0..<length xs]"

lemma length_map_range [simp]: "length (map_range a b f xs) = length xs"
  by (simp add: map_range_def)

lemma nth_map_range [simp]:
  "i < length xs \<Longrightarrow> map_range a b f xs ! i = (if a \<le> i \<and> i < b then f i (xs ! i) else xs ! i)"
  by (simp add: map_range_def)

lemma map_range_empty [simp]: "map_range a a f xs = xs"
  by (rule nth_equalityI) auto

lemma map_range_step:
  "a < b \<Longrightarrow> a < length xs \<Longrightarrow> map_range (Suc a) b f (xs[a := f a (xs ! a)]) = map_range a b f xs"
  by (rule nth_equalityI) (auto simp: nth_list_update)

lemma for_loop_modify:
  "a + n \<le> length xs \<Longrightarrow>
   for_loop a n (\<lambda>i. modify_idx i (f i)) xs = Inr (map_range a (a + n) f xs)"
proof (induction n arbitrary: a xs)
  case 0
  then show ?case by simp
next
  case (Suc n)
  then have "for_loop (Suc a) n (\<lambda>i. modify_idx i (f i)) (xs[a := f a (xs ! a)])
      = Inr (map_range (Suc a) (Suc a + n) f (xs[a := f a (xs ! a)]))"
    by simp
  with Suc.prems show ?case by (simp add: map_range_step)
qed

lemma for_loop_modify_oob:
  "length xs < a + n \<Longrightarrow> a \<le> length xs \<Longrightarrow>
   for_loop a n (\<lambda>i. modify_idx i (f i)) xs = Inl OutOfBounds"
proof (induction n arbitrary: a xs)
  case 0
  then show ?case by simp
next
  case (Suc n)
  then show ?case
    by (cases "a < length xs") (simp_all add: modify_idx_def load_idx_def)
qed

section \<open>Loops that end in their middle\<close>

text \<open>
  \<open>do_until body stop k s\<close>: run the body, leave the loop if \<open>stop\<close> holds in round \<open>k\<close> after
  it, otherwise go on; \<open>None\<close> when the loop never ends.  \<open>repeat_body\<close> is the state after a
  number of rounds.
\<close>

partial_function (option) do_until :: "('s \<Rightarrow> fault + 's) \<Rightarrow> (nat \<Rightarrow> 's \<Rightarrow> bool) \<Rightarrow> nat \<Rightarrow> 's
    \<Rightarrow> (fault + 's) option" where
  "do_until body stop k s =
     (case body s of
        Inl e \<Rightarrow> Some (Inl e)
      | Inr t \<Rightarrow> if stop k t then Some (Inr t) else do_until body stop (Suc k) t)"

primrec repeat_body :: "('s \<Rightarrow> fault + 's) \<Rightarrow> nat \<Rightarrow> 's \<Rightarrow> fault + 's" where
  "repeat_body body 0 s = Inr s"
| "repeat_body body (Suc n) s = andThen (body s) (repeat_body body n)"

lemma repeat_body_Suc: "repeat_body body (Suc n) s = andThen (repeat_body body n s) body"
proof (induction n arbitrary: s)
  case 0
  show ?case by (cases "body s") simp_all
next
  case (Suc n)
  then show ?case by (cases "body s") simp_all
qed

text \<open>The loop is still going after \<open>n\<close> rounds, in the state \<open>t\<close>.\<close>

definition runs_on :: "('s \<Rightarrow> fault + 's) \<Rightarrow> (nat \<Rightarrow> 's \<Rightarrow> bool) \<Rightarrow> nat \<Rightarrow> 's \<Rightarrow> nat \<Rightarrow> 's \<Rightarrow> bool" where
  "runs_on body stop k s n t \<longleftrightarrow> repeat_body body n s = Inr t \<and>
     (\<forall>j < n. \<forall>u. repeat_body body (Suc j) s = Inr u \<longrightarrow> \<not> stop (k + j) u)"

lemma do_until_step:
  "runs_on body stop k s n t \<Longrightarrow> do_until body stop k s = do_until body stop (k + n) t"
proof (induction n arbitrary: k s)
  case 0
  then show ?case by (simp add: runs_on_def)
next
  case (Suc n)
  from Suc.prems obtain u where u: "body s = Inr u" "repeat_body body n u = Inr t"
    by (auto simp: runs_on_def andThen_eq_Inr)
  have st: "\<not> stop (k + j) v" if "j < Suc n" "repeat_body body (Suc j) s = Inr v" for j v
    using Suc.prems that by (simp add: runs_on_def)
  have "\<not> stop (Suc k + j) v" if "j < n" "repeat_body body (Suc j) u = Inr v" for j v
    using st [of "Suc j" v] that u(1) by simp
  then have "runs_on body stop (Suc k) u n t" using u(2) by (simp add: runs_on_def)
  from Suc.IH [OF this] st [of 0 u] u(1) show ?case by (subst do_until.simps) simp
qed

lemma do_until_stops:
  assumes "runs_on body stop k s n t" and "body t = Inr u" and "stop (k + n) u"
  shows "do_until body stop k s = Some (Inr u)"
  using do_until_step [OF assms(1)] assms(2,3) by (simp add: do_until.simps)

lemma do_until_fault:
  assumes "runs_on body stop k s n t" and "body t = Inl e"
  shows "do_until body stop k s = Some (Inl e)"
  using do_until_step [OF assms(1)] assms(2) by (simp add: do_until.simps)

lemma do_until_SomeD:
  assumes "do_until body stop k s = Some y"
  shows "\<exists>n t. runs_on body stop k s n t \<and>
    (\<exists>u. y = Inr u \<and> body t = Inr u \<and> stop (k + n) u \<or> (\<exists>e. y = Inl e \<and> body t = Inl e))"
proof (rule do_until.raw_induct [where P = "\<lambda>body stop k s y. \<exists>n t. runs_on body stop k s n t \<and>
    (\<exists>u. y = Inr u \<and> body t = Inr u \<and> stop (k + n) u \<or> (\<exists>e. y = Inl e \<and> body t = Inl e))", OF _ assms])
  fix f :: "('s \<Rightarrow> fault + 's) \<Rightarrow> (nat \<Rightarrow> 's \<Rightarrow> bool) \<Rightarrow> nat \<Rightarrow> 's \<Rightarrow> (fault + 's) option" and body stop k s y
  assume IH: "\<And>body stop k s y. f body stop k s = Some y \<Longrightarrow> \<exists>n t. runs_on body stop k s n t \<and>
      (\<exists>u. y = Inr u \<and> body t = Inr u \<and> stop (k + n) u \<or> (\<exists>e. y = Inl e \<and> body t = Inl e))"
    and eq: "(case body s of Inl e \<Rightarrow> Some (Inl e)
      | Inr t \<Rightarrow> if stop k t then Some (Inr t) else f body stop (Suc k) t) = Some y"
  have start: "runs_on body stop k s 0 s" by (simp add: runs_on_def)
  show "\<exists>n t. runs_on body stop k s n t \<and>
      (\<exists>u. y = Inr u \<and> body t = Inr u \<and> stop (k + n) u \<or> (\<exists>e. y = Inl e \<and> body t = Inl e))"
  proof (cases "body s")
    case (Inl e)
    with eq start show ?thesis by auto
  next
    case (Inr u)
    show ?thesis
    proof (cases "stop k u")
      case True
      with Inr eq have "y = Inr u" by simp
      with Inr True start show ?thesis by (metis add.right_neutral)
    next
      case False
      with Inr eq have "f body stop (Suc k) u = Some y" by simp
      from IH [OF this] obtain n t where n: "runs_on body stop (Suc k) u n t"
        "\<exists>v. y = Inr v \<and> body t = Inr v \<and> stop (Suc k + n) v \<or> (\<exists>e. y = Inl e \<and> body t = Inl e)" by blast
      have "\<not> stop (k + j) v" if "j < Suc n" "repeat_body body (Suc j) s = Inr v" for j v
        using that n(1) False Inr by (cases j) (auto simp: runs_on_def)
      then have "runs_on body stop k s (Suc n) t" using n(1) Inr by (simp add: runs_on_def)
      with n(2) show ?thesis by (metis add_Suc_shift)
    qed
  qed
qed

lemma do_until_forever:
  assumes "\<And>n. \<exists>t. repeat_body body (Suc n) s = Inr t \<and> \<not> stop (k + n) t"
  shows "do_until body stop k s = None"
proof (rule ccontr)
  assume "do_until body stop k s \<noteq> None"
  then obtain y where "do_until body stop k s = Some y" by blast
  from do_until_SomeD [OF this] obtain n t where n: "repeat_body body n s = Inr t"
    "(\<exists>u. y = Inr u \<and> body t = Inr u \<and> stop (k + n) u) \<or> (\<exists>e. y = Inl e \<and> body t = Inl e)"
    by (auto simp: runs_on_def)
  from assms [of n] obtain u where "repeat_body body (Suc n) s = Inr u" "\<not> stop (k + n) u" by blast
  with n show False by (auto simp: repeat_body_Suc simp del: repeat_body.simps)
qed

section \<open>64-bit addresses as two 32-bit halves\<close>

text \<open>
  The hardware takes 64-bit addresses as two 32-bit words; the driver splits them with
  \<open>(uint32_t)(a & 0xFFFFFFFF)\<close> and \<open>(uint32_t)(a >> 32)\<close>.
\<close>

definition addr_lo :: "u64 \<Rightarrow> u32" where
  "addr_lo a = ucast (a AND 0xFFFFFFFF)"

definition addr_hi :: "u64 \<Rightarrow> u32" where
  "addr_hi a = ucast (drop_bit 32 a)"

definition addr_join :: "u32 \<Rightarrow> u32 \<Rightarrow> u64" where
  "addr_join hi lo = push_bit 32 (ucast hi) OR ucast lo"

lemma mask32_u64: "(0xFFFFFFFF :: u64) = mask 32"
  by (simp add: mask_eq_exp_minus_1)

lemma addr_join_split [simp]: "addr_join (addr_hi a) (addr_lo a) = a"
  unfolding addr_join_def addr_hi_def addr_lo_def mask32_u64
  by (rule bit_word_eqI) (auto simp: bit_simps)

lemma addr_lo_join [simp]: "addr_lo (addr_join hi lo) = lo"
  unfolding addr_join_def addr_lo_def mask32_u64
  by (rule bit_word_eqI) (auto simp: bit_simps)

lemma addr_hi_join [simp]: "addr_hi (addr_join hi lo) = hi"
  unfolding addr_join_def addr_hi_def
  by (rule bit_word_eqI) (auto simp: bit_simps dest: bit_imp_le_length)

lemma addr_lo_0 [simp]: "addr_lo 0 = 0" and addr_hi_0 [simp]: "addr_hi 0 = 0"
  by (simp_all add: addr_lo_def addr_hi_def)

end
