(* ===== verification/Xdma_Types.thy ===== *)
theory Xdma_Types
  imports Prelude
begin

text \<open>
  The data of the driver: the constants and structures of \<open>xdma.h\<close>, the register map of
  \<open>xdma_regs.h\<close>, the parts of the DPDK structures the driver reads and writes, and the
  state the C functions act on.

  Structure fields that no code of the driver reads or writes are left out.  Memory is
  typed: one map from addresses to objects per object type, so that an alias of a pointer
  is the same address, while a structure assignment (\<open>engine_h2c[i] = *engine\<close>) is a copy.
\<close>

section \<open>Constants\<close>

definition XDMA_BAR_NUM :: nat where [c_consts]: "XDMA_BAR_NUM = 6"
definition XDMA_CHANNEL_NUM_MAX :: nat where [c_consts]: "XDMA_CHANNEL_NUM_MAX = 4"
definition XDMA_MIN_RXBUFF_SIZE :: u32 where [c_consts]: "XDMA_MIN_RXBUFF_SIZE = 256"
definition DEFAULT_CONFIG_BAR :: int where [c_consts]: "DEFAULT_CONFIG_BAR = 1"
definition BAR_ID_INVALID :: int where [c_consts]: "BAR_ID_INVALID = - 1"

definition XDMA_DESC_NXT_ADJ_MASK :: u32 where [c_consts]: "XDMA_DESC_NXT_ADJ_MASK = 0x3F00"
definition XDMA_DESC_STOPPED :: u32 where [c_consts]: "XDMA_DESC_STOPPED = 0x1"
definition XDMA_DESC_COMPLETED :: u32 where [c_consts]: "XDMA_DESC_COMPLETED = 0x2"
definition XDMA_DESC_EOP :: u32 where [c_consts]: "XDMA_DESC_EOP = 0x10"

definition XDMA_POLL_MODE_WB_SIZE :: u64 where [c_consts]: "XDMA_POLL_MODE_WB_SIZE = 32"
definition XDMA_DESC_SIZE :: u64 where [c_consts]: "XDMA_DESC_SIZE = 64"
definition XDMA_DESC_MAX :: u32 where [c_consts]: "XDMA_DESC_MAX = 32"
definition XDMA_ENGINE_MAGIC_NUMBER :: u32 where [c_consts]: "XDMA_ENGINE_MAGIC_NUMBER = 0x1df34c32"
definition MAX_EXRTA_ADJ :: u32 where [c_consts]: "MAX_EXRTA_ADJ = 32"
definition RX_COMMPLETED :: u32 where [c_consts]: "RX_COMMPLETED = 1"

text \<open>\<open>sizeof\<close> of the structures that live in DMA memory (fields of four bytes each).\<close>

definition sizeof_xdma_desc :: nat where [c_consts]: "sizeof_xdma_desc = 8 * 4"
definition sizeof_xdma_poll_wb :: nat where [c_consts]: "sizeof_xdma_poll_wb = 4"
definition sizeof_xdma_c2h_stream_wb :: nat where [c_consts]: "sizeof_xdma_c2h_stream_wb = 2 * 4"

section \<open>Register map\<close>

definition H2C_CHANNEL_CTRL :: u32 where [c_consts]: "H2C_CHANNEL_CTRL = 0x0004"
definition CTRL_RUN_STOP :: u32 where [c_consts]: "CTRL_RUN_STOP = 0x1"
definition CTRL_IE_DESC_STOPPED :: u32 where [c_consts]: "CTRL_IE_DESC_STOPPED = push_bit 1 0x1"
definition CTRL_IE_DESC_COMPLETED :: u32 where [c_consts]: "CTRL_IE_DESC_COMPLETED = push_bit 2 0x1"
definition CTRL_IE_DESC_ALIGN_MISMATCH :: u32 where
  [c_consts]: "CTRL_IE_DESC_ALIGN_MISMATCH = push_bit 3 0x1"
definition CTRL_IE_MAGIC_STOPPED :: u32 where [c_consts]: "CTRL_IE_MAGIC_STOPPED = push_bit 4 0x1"
definition CTRL_IE_INVALID_LENGTH :: u32 where [c_consts]: "CTRL_IE_INVALID_LENGTH = push_bit 5 0x1"
definition CTRL_IE_IDLE_STOPPED :: u32 where [c_consts]: "CTRL_IE_IDLE_STOPPED = push_bit 6 0x1"
definition CTRL_IE_READ_ERROR :: u32 where [c_consts]: "CTRL_IE_READ_ERROR = push_bit 9 0x1F"
definition CTRL_IE_WRITE_ERROR :: u32 where [c_consts]: "CTRL_IE_WRITE_ERROR = push_bit 14 0x1F"
definition CTRL_IE_DESC_ERROR :: u32 where [c_consts]: "CTRL_IE_DESC_ERROR = push_bit 19 0x1F"
definition CTRL_NON_INCR_ADDR :: u32 where [c_consts]: "CTRL_NON_INCR_ADDR = push_bit 25 0x1"
definition CTRL_POLL_MODE_WB :: u32 where [c_consts]: "CTRL_POLL_MODE_WB = push_bit 26 0x1"
definition CTRL_STM_MODE_WB :: u32 where [c_consts]: "CTRL_STM_MODE_WB = push_bit 27 0x1"

definition H2C_POLL_MODE_LO_WB_ADDR :: u32 where [c_consts]: "H2C_POLL_MODE_LO_WB_ADDR = 0x0088"
definition H2C_POLL_MODE_HI_WB_ADDR :: u32 where [c_consts]: "H2C_POLL_MODE_HI_WB_ADDR = 0x008c"
definition H2C_INTERRUPT_ENABLE_MASK :: u32 where [c_consts]: "H2C_INTERRUPT_ENABLE_MASK = 0x0090"
definition C2H_CHANNEL_CTRL :: u32 where [c_consts]: "C2H_CHANNEL_CTRL = 0x1004"
definition C2H_POLL_MODE_LO_WB_ADDR :: u32 where [c_consts]: "C2H_POLL_MODE_LO_WB_ADDR = 0x1088"
definition C2H_POLL_MODE_HI_WB_ADDR :: u32 where [c_consts]: "C2H_POLL_MODE_HI_WB_ADDR = 0x108c"
definition C2H_INTERRUPT_ENABLE_MASK :: u32 where [c_consts]: "C2H_INTERRUPT_ENABLE_MASK = 0x1090"
definition IRQ_USER_INTERRUPT_ENABLE_MASK :: u32 where [c_consts]: "IRQ_USER_INTERRUPT_ENABLE_MASK = 0x2004"
definition IRQ_CHANNEL_INTERRUPT_ENABLE_MASK :: u32 where
  [c_consts]: "IRQ_CHANNEL_INTERRUPT_ENABLE_MASK = 0x2010"
definition IRQ_USER_INTERRUPT_ENABLE_MASK_W1S :: u32 where
  [c_consts]: "IRQ_USER_INTERRUPT_ENABLE_MASK_W1S = 0x2008"
definition IRQ_USER_INTERRUPT_ENABLE_MASK_W1C :: u32 where
  [c_consts]: "IRQ_USER_INTERRUPT_ENABLE_MASK_W1C = 0x200C"
definition IRQ_CHANNEL_INTERRUPT_ENABLE_MASK_W1S :: u32 where
  [c_consts]: "IRQ_CHANNEL_INTERRUPT_ENABLE_MASK_W1S = 0x2014"
definition IRQ_CHANNEL_INTERRUPT_ENABLE_MASK_W1C :: u32 where
  [c_consts]: "IRQ_CHANNEL_INTERRUPT_ENABLE_MASK_W1C = 0x2018"
definition H2C_SGDMA_DESC_LO_ADDR :: u32 where [c_consts]: "H2C_SGDMA_DESC_LO_ADDR = 0x4080"
definition H2C_SGDMA_DESC_HI_ADDR :: u32 where [c_consts]: "H2C_SGDMA_DESC_HI_ADDR = 0x4084"
definition H2C_SGDMA_DESC_ADJ :: u32 where [c_consts]: "H2C_SGDMA_DESC_ADJ = 0x4088"
definition C2H_SGDMA_DESC_LO_ADDR :: u32 where [c_consts]: "C2H_SGDMA_DESC_LO_ADDR = 0x5080"
definition C2H_SGDMA_DESC_HI_ADDR :: u32 where [c_consts]: "C2H_SGDMA_DESC_HI_ADDR = 0x5084"
definition C2H_SGDMA_DESC_ADJ :: u32 where [c_consts]: "C2H_SGDMA_DESC_ADJ = 0x5088"

section \<open>Structures\<close>

datatype dma_data_direction = C2H | H2C | UNKNOWN

record xdma_desc =
  control :: u32
  len :: u32
  src_addr_lo :: u32
  src_addr_hi :: u32
  dst_addr_lo :: u32
  dst_addr_hi :: u32
  next_lo :: u32
  next_hi :: u32

text \<open>
  Bit-fields keep their width: \<open>channel\<close> has two bits, so a larger channel number is
  truncated.  The one-bit flag \<open>running\<close> is a truth value.  \<open>desc_used\<close> is an \<open>int\<close>; the
  model keeps its 32 bits.  \<open>mz\<close> stands for the memzone by its address.
\<close>

record xdma_engine =
  magic :: u32
  xdev :: u64
  dir :: dma_data_direction
  channel :: "2 word"
  streaming :: "1 word"
  running :: bool
  max_extra_adj :: u32
  desc_max :: u32
  status :: u32
  poll_mode_addr_virt :: u64
  desc_ring :: u64
  desc_used :: u32
  sw_ring :: u64
  port_id :: u32
  virt2phy_offset :: u64
  mz :: u64

text \<open>A structure that \<open>rte_zmalloc\<close> returns.\<close>

definition zero_engine :: xdma_engine where
  "zero_engine = \<lparr>magic = 0, xdev = 0, dir = C2H, channel = 0, streaming = 0, running = False,
     max_extra_adj = 0, desc_max = 0, status = 0, poll_mode_addr_virt = 0, desc_ring = 0,
     desc_used = 0, sw_ring = 0, port_id = 0, virt2phy_offset = 0, mz = 0\<rparr>"

text \<open>
  The table of function pointers \<open>struct xdma_hw_access\<close>.  A function pointer is the
  name of the function it points to; \<open>None\<close> is NULL, what a zeroed table holds.
\<close>

datatype dev_fn = Fn_xdma_dev_start | Fn_xdma_dev_stop | Fn_xdma_dev_close
datatype tx_start_fn = Fn_xdma_tx_engine_start
datatype rx_start_fn = Fn_xdma_rx_engine_start
datatype engine_stop_fn = Fn_xdma_tx_engine_stop | Fn_xdma_rx_engine_stop
datatype engine_setup_fn = Fn_xdma_tx_engine_setup | Fn_xdma_rx_engine_setup
datatype user_bar_fn = Fn_xdma_get_user_bar

record xdma_hw_access =
  hw_dev_start :: "dev_fn option"
  hw_dev_stop :: "dev_fn option"
  hw_dev_close :: "dev_fn option"
  hw_tx_engine_start :: "tx_start_fn option"
  hw_rx_engine_start :: "rx_start_fn option"
  hw_tx_engine_stop :: "engine_stop_fn option"
  hw_rx_engine_stop :: "engine_stop_fn option"
  hw_tx_engine_setup :: "engine_setup_fn option"
  hw_rx_engine_setup :: "engine_setup_fn option"
  hw_get_user_bar :: "user_bar_fn option"

definition zero_hw_access :: xdma_hw_access where
  "zero_hw_access = \<lparr>hw_dev_start = None, hw_dev_stop = None, hw_dev_close = None,
     hw_tx_engine_start = None, hw_rx_engine_start = None, hw_tx_engine_stop = None,
     hw_rx_engine_stop = None, hw_tx_engine_setup = None, hw_rx_engine_setup = None,
     hw_get_user_bar = None\<rparr>"

text \<open>BAR indices are C \<open>int\<close>s, which the code compares but does not compute with.\<close>

record xdma_dev =
  bar :: "u64 list"
  user_bar_idx :: int
  config_bar_idx :: int
  bypass_bar_idx :: int
  c2h_channel_max :: nat
  h2c_channel_max :: nat
  engine_h2c :: "xdma_engine list"
  engine_c2h :: "xdma_engine list"
  hw_access :: u64
  trigger_mode :: u8
  dev_configured :: bool

text \<open>The fields of \<open>struct rte_mbuf\<close> the driver uses.\<close>

record rte_mbuf =
  buf_addr :: u64
  buf_iova :: u64
  data_off :: u16
  nb_segs :: u16
  mb_next :: u64
  pkt_len :: u32
  data_len :: u16
  packet_type :: u32
  ol_flags :: u64
  mb_port :: u16
  vlan_tci :: u16
  hash_rss :: u32

text \<open>
  \<open>struct rte_eth_dev\<close>, its shared \<open>data\<close> and the PCI device behind it (\<open>None\<close> is a
  NULL pointer).  The queue arrays hold the engine pointers; \<open>rx_pkt_burst\<close> and
  \<open>tx_pkt_burst\<close> record which function is installed; the driver copies the other three
  function pointers without calling them.
\<close>

datatype burst_fn = Fn_xdma_recv_pkts | Fn_xdma_xmit_pkts

text \<open>
  The table \<open>struct eth_dev_ops\<close> through which DPDK calls a driver: the entries the driver
  fills, and \<open>dev_reset\<close>, which it leaves out.  An entry is the name of a function.
\<close>

datatype eth_op_fn = Op_xdma_dev_configure | Op_xdma_dev_infos_get | Op_xdma_dev_start
  | Op_xdma_dev_stop | Op_xdma_dev_close | Op_xdma_dev_link_update | Op_xdma_rx_engine_setup
  | Op_xdma_tx_engine_setup | Op_xdma_rx_engine_start | Op_xdma_rx_engine_stop
  | Op_xdma_tx_engine_start | Op_xdma_tx_engine_stop

record eth_dev_ops =
  op_dev_configure :: "eth_op_fn option"
  op_dev_infos_get :: "eth_op_fn option"
  op_dev_start :: "eth_op_fn option"
  op_dev_stop :: "eth_op_fn option"
  op_dev_close :: "eth_op_fn option"
  op_dev_reset :: "eth_op_fn option"
  op_link_update :: "eth_op_fn option"
  op_rx_queue_setup :: "eth_op_fn option"
  op_tx_queue_setup :: "eth_op_fn option"
  op_rx_queue_start :: "eth_op_fn option"
  op_rx_queue_stop :: "eth_op_fn option"
  op_tx_queue_start :: "eth_op_fn option"
  op_tx_queue_stop :: "eth_op_fn option"

record rte_eth_link =
  link_speed :: u32
  link_duplex :: bool
  link_status :: bool

record rte_eth_dev_data =
  dev_private :: u64
  mac_addrs :: u64
  data_port_id :: u16
  rx_queues :: "u64 list option"
  tx_queues :: "u64 list option"
  nb_rx_queues :: u16
  nb_tx_queues :: u16
  dev_started :: bool
  dev_link :: rte_eth_link

record mem_resource =
  phys_addr :: u64
  res_len :: u64
  res_addr :: u64

record rte_eth_dev =
  data :: "rte_eth_dev_data option"
  device :: "mem_resource list option"
  dev_ops :: "eth_dev_ops option"
  rx_pkt_burst :: "burst_fn option"
  tx_pkt_burst :: "burst_fn option"
  rx_queue_count :: u64
  rx_descriptor_status :: u64
  tx_descriptor_status :: u64

section \<open>State\<close>

text \<open>
  \<open>blocks\<close> is the set of live heap blocks and memzones with their sizes, \<open>zones\<close> the
  live memzones by name, \<open>allocs\<close> the number of allocation calls made so far, and \<open>mmio\<close> the sequence of 32-bit writes to
  device memory, oldest first.
\<close>

record world =
  engines :: "u64 \<rightharpoonup> xdma_engine"
  xdevs :: "u64 \<rightharpoonup> xdma_dev"
  hw_tables :: "u64 \<rightharpoonup> xdma_hw_access"
  eth_devs :: "u64 \<rightharpoonup> rte_eth_dev"
  rings :: "u64 \<rightharpoonup> xdma_desc list"
  words :: "u64 \<rightharpoonup> u32"
  mbufs :: "u64 \<rightharpoonup> rte_mbuf"
  macs :: "u64 \<rightharpoonup> u8 list"
  blocks :: "u64 \<rightharpoonup> nat"
  zones :: "(string \<times> u64) list"
  allocs :: nat
  mmio :: "(u64 \<times> u32) list"

definition empty_world :: world where
  "empty_world = \<lparr>engines = Map.empty, xdevs = Map.empty, hw_tables = Map.empty,
     eth_devs = Map.empty, rings = Map.empty, words = Map.empty, mbufs = Map.empty,
     macs = Map.empty, blocks = Map.empty, zones = [], allocs = 0, mmio = []\<rparr>"

text \<open>
  What the driver takes from DPDK and the platform: \<open>alloc n\<close> is the address the \<open>n\<close>th
  allocation returns (0 for NULL), \<open>virt2phy\<close> is \<open>rte_mem_virt2phy\<close>, and
  \<open>junk_desc\<close>/\<open>junk_word\<close> are what uninitialised memzone memory holds.
\<close>

record env =
  alloc :: "nat \<Rightarrow> u64"
  virt2phy :: "u64 \<Rightarrow> u64"
  junk_desc :: "u64 \<Rightarrow> nat \<Rightarrow> xdma_desc"
  junk_word :: "u64 \<Rightarrow> u32"

text \<open>
  Allocation and release, as DPDK documents them.  \<open>rte_alloc\<close> stands for \<open>rte_zmalloc\<close>
  and \<open>rte_zmalloc_socket\<close>: a new block or NULL.  \<open>rte_free\<close> ignores NULL and must be given
  a live block; the objects in it are gone afterwards.  A memzone has a name; reserving a name that is taken returns NULL.
\<close>

definition rte_alloc :: "env \<Rightarrow> nat \<Rightarrow> world \<Rightarrow> u64 \<times> world" where
  "rte_alloc ev n w =
     (let p = alloc ev (allocs w) in
      (p, w\<lparr>allocs := Suc (allocs w),
            blocks := (if p = 0 then blocks w else (blocks w)(p \<mapsto> n))\<rparr>))"

definition drop_block :: "u64 \<Rightarrow> nat \<Rightarrow> world \<Rightarrow> world" where
  "drop_block p n w = w\<lparr>blocks := (blocks w)(p := None), engines := (engines w)(p := None),
     hw_tables := (hw_tables w)(p := None), macs := (macs w)(p := None), rings := (rings w)(p := None),
     words := (\<lambda>a. if unat (a - p) < n then None else words w a)\<rparr>"

definition rte_free :: "u64 \<Rightarrow> world \<Rightarrow> fault + world" where
  "rte_free p w =
     (if p = 0 then Inr w
      else case blocks w p of None \<Rightarrow> Inl BadAccess | Some n \<Rightarrow> Inr (drop_block p n w))"

definition rte_memzone_reserve :: "env \<Rightarrow> string \<Rightarrow> nat \<Rightarrow> world \<Rightarrow> u64 \<times> world" where
  "rte_memzone_reserve ev nm n w =
     (if map_of (zones w) nm \<noteq> None then (0, w\<lparr>allocs := Suc (allocs w)\<rparr>)
      else let (p, w) = rte_alloc ev n w in
        (p, if p = 0 then w else w\<lparr>zones := (nm, p) # zones w\<rparr>))"

definition rte_memzone_free :: "u64 \<Rightarrow> world \<Rightarrow> fault + world" where
  "rte_memzone_free p w =
     andThen (rte_free p w) (\<lambda>w. Inr (w\<lparr>zones := filter (\<lambda>z. snd z \<noteq> p) (zones w)\<rparr>))"

text \<open>Stores to a word in memory.\<close>

definition store_word :: "u64 \<Rightarrow> u32 \<Rightarrow> world \<Rightarrow> fault + world" where
  "store_word a v w =
     andThen (deref (words w) a) (\<lambda>_. Inr (w\<lparr>words := (words w)(a \<mapsto> v)\<rparr>))"

definition desc_addr :: "u64 \<Rightarrow> nat \<Rightarrow> u64" where
  "desc_addr base i = base + of_nat (sizeof_xdma_desc * i)"

end
