(* ===== verification/Platform.thy ===== *)
theory Platform
  imports Xdma_Types
begin

text \<open>
  Device memory access, \<open>xdma_platform.c\<close>: the 32-bit register accesses through the
  configuration and the user BAR, and the loader that copies a file into a BAR.

  A store is appended to \<open>mmio\<close>.  A load asks the device: the function \<open>rd\<close> gives the
  value at an address.  A BAR that was never mapped is a NULL pointer.
\<close>

section \<open>Register accesses\<close>

definition bar_base :: "u64 \<Rightarrow> (xdma_dev \<Rightarrow> int) \<Rightarrow> world \<Rightarrow> fault + u64" where
  "bar_base dev_hndl idx w =
     andThen (deref (xdevs w) dev_hndl) (\<lambda>d.
     andThen (load_int (bar d) (idx d)) (\<lambda>a.
     if a = 0 then Inl NullDeref else Inr a))"

definition mmio_store :: "u64 \<Rightarrow> u32 \<Rightarrow> world \<Rightarrow> world" where
  "mmio_store a v w = w\<lparr>mmio := mmio w @ [(a, v)]\<rparr>"

definition xdma_reg_read :: "(u64 \<Rightarrow> u32) \<Rightarrow> u64 \<Rightarrow> u32 \<Rightarrow> world \<Rightarrow> fault + u32" where
  "xdma_reg_read rd dev_hndl reg_offst w =
     andThen (bar_base dev_hndl config_bar_idx w) (\<lambda>bar_addr.
     Inr (rd (bar_addr + ucast reg_offst)))"

definition xdma_reg_write :: "u64 \<Rightarrow> u32 \<Rightarrow> u32 \<Rightarrow> world \<Rightarrow> fault + world" where
  "xdma_reg_write dev_hndl reg_offst val w =
     andThen (bar_base dev_hndl config_bar_idx w) (\<lambda>bar_addr.
     Inr (mmio_store (bar_addr + ucast reg_offst) val w))"

definition xdma_user_write :: "u64 \<Rightarrow> u32 \<Rightarrow> u32 \<Rightarrow> world \<Rightarrow> fault + world" where
  "xdma_user_write dev_hndl reg_offst val w =
     andThen (bar_base dev_hndl user_bar_idx w) (\<lambda>bar_addr.
     Inr (mmio_store (bar_addr + ucast reg_offst) val w))"

definition xdma_user_read :: "(u64 \<Rightarrow> u32) \<Rightarrow> u64 \<Rightarrow> u32 \<Rightarrow> world \<Rightarrow> fault + u32" where
  "xdma_user_read rd dev_hndl reg_offst w =
     andThen (bar_base dev_hndl user_bar_idx w) (\<lambda>bar_addr.
     Inr (rd (bar_addr + ucast reg_offst)))"

text \<open>A device handle whose BAR \<open>idx\<close> is mapped at \<open>a\<close>.\<close>

definition bar_mapped :: "(xdma_dev \<Rightarrow> int) \<Rightarrow> u64 \<Rightarrow> u64 \<Rightarrow> world \<Rightarrow> bool" where
  "bar_mapped idx h a w \<longleftrightarrow> bar_base h idx w = Inr a"

lemma mmio_store_sel [simp]:
  "mmio (mmio_store a v w) = mmio w @ [(a, v)]"
  "engines (mmio_store a v w) = engines w" "xdevs (mmio_store a v w) = xdevs w"
  "hw_tables (mmio_store a v w) = hw_tables w" "eth_devs (mmio_store a v w) = eth_devs w"
  "rings (mmio_store a v w) = rings w" "words (mmio_store a v w) = words w"
  "mbufs (mmio_store a v w) = mbufs w" "macs (mmio_store a v w) = macs w"
  "blocks (mmio_store a v w) = blocks w" "zones (mmio_store a v w) = zones w" "allocs (mmio_store a v w) = allocs w"
  by (simp_all add: mmio_store_def)

lemma bar_base_cong: "xdevs w' = xdevs w \<Longrightarrow> bar_base h idx w' = bar_base h idx w"
  by (simp add: bar_base_def)

lemma bar_base_mmio_store [simp]: "bar_base h idx (mmio_store a v w) = bar_base h idx w"
  by (rule bar_base_cong) simp

lemma bar_mapped_cong: "xdevs w' = xdevs w \<Longrightarrow> bar_mapped idx h a w' = bar_mapped idx h a w"
  by (simp add: bar_mapped_def bar_base_def)

lemma reg_write_mapped [simp, res_simps]:
  "bar_mapped config_bar_idx h a w \<Longrightarrow>
   xdma_reg_write h off v w = Inr (mmio_store (a + ucast off) v w)"
  by (simp add: bar_mapped_def xdma_reg_write_def)

lemma user_write_mapped [simp, res_simps]:
  "bar_mapped user_bar_idx h a w \<Longrightarrow>
   xdma_user_write h off v w = Inr (mmio_store (a + ucast off) v w)"
  by (simp add: bar_mapped_def xdma_user_write_def)

lemma bar_mapped_mmio_store [simp]: "bar_mapped idx h a (mmio_store b v w) = bar_mapped idx h a w"
  by (simp add: bar_mapped_def)

section \<open>The interface of a register bus\<close>

text \<open>
  What the engines rely on when they program the device: a write to a mapped device is
  appended to the bus trace and touches nothing else.  Both BARs provide it.
  \<open>bus_program\<close> issues a sequence of writes, stopping at a fault.
\<close>

primrec bus_program :: "(u32 \<Rightarrow> u32 \<Rightarrow> world \<Rightarrow> fault + world) \<Rightarrow> (u32 \<times> u32) list \<Rightarrow> world
    \<Rightarrow> fault + world" where
  "bus_program wr [] w = Inr w"
| "bus_program wr (x # xs) w = andThen (wr (fst x) (snd x) w) (bus_program wr xs)"

locale register_bus =
  fixes wr :: "u64 \<Rightarrow> u32 \<Rightarrow> u32 \<Rightarrow> world \<Rightarrow> fault + world"
    and mapped :: "u64 \<Rightarrow> u64 \<Rightarrow> world \<Rightarrow> bool"
  assumes wr_mapped: "mapped h a w \<Longrightarrow> wr h off v w = Inr (mmio_store (a + ucast off) v w)"
    and mapped_store: "mapped h a w \<Longrightarrow> mapped h a (mmio_store b v w)"
begin

lemma program_mapped:
  "mapped h a w \<Longrightarrow>
   bus_program (wr h) xs w = Inr (w\<lparr>mmio := mmio w @ map (\<lambda>(off, v). (a + ucast off, v)) xs\<rparr>)"
proof (induction xs arbitrary: w)
  case Nil
  then show ?case by simp
next
  case (Cons x xs)
  then have "bus_program (wr h) xs (mmio_store (a + ucast (fst x)) (snd x) w)
      = Inr ((mmio_store (a + ucast (fst x)) (snd x) w)\<lparr>mmio := mmio w @ [(a + ucast (fst x), snd x)]
          @ map (\<lambda>(off, v). (a + ucast off, v)) xs\<rparr>)"
    by (simp add: mapped_store)
  with Cons.prems show ?case by (simp add: wr_mapped mmio_store_def split_beta)
qed

end

declare bus_program.simps [simp del]

interpretation config_bus: register_bus xdma_reg_write "bar_mapped config_bar_idx"
  by unfold_locales simp_all

interpretation user_bus: register_bus xdma_user_write "bar_mapped user_bar_idx"
  by unfold_locales simp_all

section \<open>Loading a file into a BAR\<close>

text \<open>
  The file is its bytes, \<open>seek_end\<close> what \<open>lseek(fd, 0, SEEK_END)\<close> returned as a
  \<open>size_t\<close>, and \<open>map_ok off\<close> tells whether \<open>mmap\<close> at offset \<open>off\<close> succeeds.  Copying
  from a mapped page behind the end of the file is a fault.  The result is the device
  memory, the number of bytes written and the progress messages.
\<close>

definition CHUNK_SIZE :: nat where "CHUNK_SIZE = 64 * 1024 * 1024"

datatype load_log = Written_MB nat | Written_KB nat | Written_B nat

primrec write_bytes :: "u64 \<Rightarrow> u8 list \<Rightarrow> (u64 \<Rightarrow> u8) \<Rightarrow> (u64 \<Rightarrow> u8)" where
  "write_bytes a [] m = m"
| "write_bytes a (b # bs) m = write_bytes (a + 1) bs (m(a := b))"

definition progress_msg :: "nat \<Rightarrow> load_log" where
  "progress_msg total_written =
     (if total_written > 1 * 1024 * 1024 then Written_MB (total_written div (1024 * 1024))
      else if total_written > 1 * 1024 then Written_KB (total_written div 1024)
      else Written_B total_written)"

function bar_load_loop :: "u8 list \<Rightarrow> (nat \<Rightarrow> bool) \<Rightarrow> u64 \<Rightarrow> nat \<Rightarrow> nat \<Rightarrow> (u64 \<Rightarrow> u8) \<Rightarrow> load_log list
    \<Rightarrow> fault + (u64 \<Rightarrow> u8) \<times> nat \<times> load_log list" where
  "bar_load_loop fbytes map_ok addr file_size total_written m lg =
     (if total_written < file_size then
        let chunk = min CHUNK_SIZE (file_size - total_written) in
        if \<not> map_ok total_written then Inr (m, total_written, lg)
        else if length fbytes < total_written + chunk then Inl BadAccess
        else bar_load_loop fbytes map_ok addr file_size (total_written + chunk)
               (write_bytes (addr + of_nat total_written) (take chunk (drop total_written fbytes)) m)
               (lg @ [progress_msg (total_written + chunk)])
      else Inr (m, total_written, lg))"
  by pat_completeness auto
termination
  by (relation "measure (\<lambda>(fbytes, map_ok, addr, file_size, total_written, m, lg). file_size - total_written)")
     (auto simp: CHUNK_SIZE_def)

declare bar_load_loop.simps [simp del]

definition xdma_bar_load :: "u8 list option \<Rightarrow> nat \<Rightarrow> (nat \<Rightarrow> bool) \<Rightarrow> u64 \<Rightarrow> u32 \<Rightarrow> u32 \<Rightarrow> int \<Rightarrow> world
    \<Rightarrow> (u64 \<Rightarrow> u8) \<Rightarrow> fault + (u64 \<Rightarrow> u8) \<times> nat \<times> load_log list" where
  "xdma_bar_load fbytes seek_end map_ok dev_hndl offset sz bar_idx w m =
     andThen (deref (xdevs w) dev_hndl) (\<lambda>d.
     andThen (load_int (bar d) bar_idx) (\<lambda>b.
     let addr = b + ucast offset in
     case fbytes of None \<Rightarrow> Inl Exited
     | Some bytes \<Rightarrow>
         let file_size = min seek_end (unat sz) in
         if b = 0 \<and> 0 < file_size \<and> map_ok 0 then Inl NullDeref
         else bar_load_loop bytes map_ok addr file_size 0 m []))"

lemma write_bytes_append:
  "write_bytes a (xs @ ys) m = write_bytes (a + of_nat (length xs)) ys (write_bytes a xs m)"
  by (induction xs arbitrary: a m) (simp_all add: add.assoc)

text \<open>
  The loop invariant: the bytes up to \<open>total_written\<close> are in place; every exit of the loop
  leaves a prefix of the file in device memory, the whole of it when no \<open>mmap\<close> fails.
\<close>

lemma bar_load_loop_prefix:
  assumes "bar_load_loop fbytes map_ok addr fs tw m lg = Inr (m', tw', lg')"
    and "m = write_bytes addr (take tw fbytes) m0" and "tw \<le> fs" and "tw \<le> length fbytes"
  shows "m' = write_bytes addr (take tw' fbytes) m0 \<and> tw' \<le> fs \<and> tw' \<le> length fbytes \<and>
         (tw' < fs \<longrightarrow> \<not> map_ok tw')"
  using assms
proof (induction fbytes map_ok addr fs tw m lg rule: bar_load_loop.induct)
  case (1 fbytes map_ok addr fs tw m lg)
  let ?c = "min CHUNK_SIZE (fs - tw)"
  show ?case
  proof (cases "tw < fs \<and> map_ok tw")
    case False
    with "1.prems" show ?thesis
      by (subst (asm) bar_load_loop.simps) (auto simp: Let_def split: if_splits)
  next
    case True
    with "1.prems"(1) have len: "tw + ?c \<le> length fbytes"
      by (subst (asm) bar_load_loop.simps) (auto simp: Let_def split: if_splits)
    from True len "1.prems"(1) have rest: "bar_load_loop fbytes map_ok addr fs (tw + ?c)
        (write_bytes (addr + of_nat tw) (take ?c (drop tw fbytes)) m) (lg @ [progress_msg (tw + ?c)])
        = Inr (m', tw', lg')"
      by (subst (asm) bar_load_loop.simps) (simp add: Let_def split: if_splits)
    have "write_bytes (addr + of_nat tw) (take ?c (drop tw fbytes)) m
        = write_bytes addr (take (tw + ?c) fbytes) m0"
      using "1.prems"(2,4) by (simp add: take_add write_bytes_append)
    moreover have "tw + ?c \<le> fs" using True by linarith
    ultimately show ?thesis
      using "1.IH" [OF _ refl _ _ rest] True len by simp
  qed
qed

lemma bar_load_loop_returns:
  assumes "fs \<le> length fbytes"
  shows "\<exists>m' tw' lg'. bar_load_loop fbytes map_ok addr fs tw m lg = Inr (m', tw', lg')"
  using assms
proof (induction fbytes map_ok addr fs tw m lg rule: bar_load_loop.induct)
  case (1 fbytes map_ok addr fs tw m lg)
  show ?case
  proof (cases "tw < fs \<and> map_ok tw")
    case False
    then show ?thesis by (subst bar_load_loop.simps) (auto simp: Let_def)
  next
    case True
    with "1.prems" have "tw + min CHUNK_SIZE (fs - tw) \<le> length fbytes" by linarith
    with "1.IH" True "1.prems" show ?thesis
      by (subst bar_load_loop.simps) (simp add: Let_def)
  qed
qed

lemma write_bytes_other:
  "(\<And>i. i < length xs \<Longrightarrow> b \<noteq> a + of_nat i) \<Longrightarrow> write_bytes a xs m b = m b"
proof (induction xs arbitrary: a m)
  case Nil
  then show ?case by simp
next
  case (Cons x xs)
  from Cons.prems [of 0] have "b \<noteq> a" by simp
  moreover have "\<And>i. i < length xs \<Longrightarrow> b \<noteq> a + 1 + of_nat i"
    using Cons.prems [of "Suc i" for i] by (simp add: add.assoc)
  ultimately show ?case by (simp add: Cons.IH)
qed

lemma write_bytes_read:
  assumes "i < length xs" and "length xs \<le> 2 ^ 64"
  shows "write_bytes a xs m (a + of_nat i) = xs ! i"
  using assms
proof (induction xs arbitrary: a m i)
  case Nil
  then show ?case by simp
next
  case (Cons x xs)
  show ?case
  proof (cases i)
    case 0
    have "a \<noteq> a + 1 + (of_nat j :: u64)" if "j < length xs" for j
    proof -
      have "Suc j < 2 ^ 64" using that Cons.prems(2) by simp
      then have "unat (of_nat (Suc j) :: u64) = Suc j"
        by (simp add: unat_of_nat take_bit_nat_eq_self del: of_nat_Suc)
      then have "(of_nat (Suc j) :: u64) \<noteq> 0" by (metis nat.distinct(1) unat_0)
      then show ?thesis by (simp add: add.assoc)
    qed
    then show ?thesis using 0 by (simp add: write_bytes_other)
  next
    case (Suc j)
    then have "write_bytes (a + 1) xs (m(a := x)) (a + 1 + of_nat j) = xs ! j"
      using Cons.prems by (intro Cons.IH) simp_all
    then show ?thesis using Suc by (simp add: add.assoc)
  qed
qed

section \<open>Properties\<close>


end
