(* ===== verification/Desc_Ring.thy ===== *)
theory Desc_Ring
  imports Platform
begin

text \<open>
  The descriptor ring: initialisation and clearing (\<open>xdma_access_common.c\<close>), the slot
  allocator \<open>get_desc\<close> and the control-word setters (\<open>xdma_rxtx.c\<close>).

  The abstract view of a ring is the chain of descriptors the engine is allowed to fetch
  (\<open>chain\<close>: from the first one through the first one whose STOPPED bit is set) and the
  links between descriptors (\<open>linked\<close>).
\<close>

section \<open>Operations\<close>

definition update_ring :: "u64 \<Rightarrow> (xdma_desc list \<Rightarrow> fault + xdma_desc list) \<Rightarrow> world \<Rightarrow> fault + world" where
  "update_ring base f w =
     andThen (deref (rings w) base) (\<lambda>r.
     andThen (f r) (\<lambda>r'. Inr (w\<lparr>rings := (rings w)(base \<mapsto> r')\<rparr>)))"

definition init_desc :: "env \<Rightarrow> u64 \<Rightarrow> u32 \<Rightarrow> nat \<Rightarrow> xdma_desc \<Rightarrow> xdma_desc" where
  "init_desc ev base dmax i desc =
     (let desc = desc\<lparr>control := 0xAD4B0000, len := 0, dst_addr_hi := 0, dst_addr_lo := 0,
                      src_addr_hi := 0, src_addr_lo := 0\<rparr> in
      let (next_addr, desc) =
        (if of_nat i = dmax - 1 then (0, desc\<lparr>control := 0xAD4B0013\<rparr>)
         else (virt2phy ev (desc_addr base (i + 1)), desc)) in
      desc\<lparr>next_lo := addr_lo next_addr, next_hi := addr_hi next_addr\<rparr>)"

definition xdma_desc_ring_init :: "env \<Rightarrow> xdma_engine \<Rightarrow> world \<Rightarrow> fault + world" where
  "xdma_desc_ring_init ev engine w =
     update_ring (desc_ring engine)
       (for_loop 0 (unat (desc_max engine))
          (\<lambda>i. modify_idx i (init_desc ev (desc_ring engine) (desc_max engine) i))) w"

definition clear_desc :: "dma_data_direction \<Rightarrow> xdma_desc \<Rightarrow> xdma_desc" where
  "clear_desc d desc =
     (let desc = desc\<lparr>len := 0, dst_addr_hi := 0, dst_addr_lo := 0,
                      src_addr_hi := 0, src_addr_lo := 0\<rparr> in
      if d = H2C then desc\<lparr>control := 0xAD4B0000\<rparr> else desc)"

definition xdma_desc_ring_clear :: "xdma_engine \<Rightarrow> world \<Rightarrow> fault + world" where
  "xdma_desc_ring_clear engine w =
     update_ring (desc_ring engine)
       (for_loop 0 (unat (desc_max engine)) (\<lambda>i. modify_idx i (clear_desc (dir engine)))) w"

definition xdma_desc_control_set :: "xdma_desc \<Rightarrow> u32 \<Rightarrow> xdma_desc" where
  "xdma_desc_control_set desc control_field =
     (let c = control desc in
      let c = c OR control_field in
      desc\<lparr>control := c\<rparr>)"

definition xdma_desc_adjacent_set :: "xdma_desc \<Rightarrow> u32 \<Rightarrow> xdma_desc" where
  "xdma_desc_adjacent_set desc nxt_adj =
     (let c = control desc AND NOT XDMA_DESC_NXT_ADJ_MASK in
      let c = c OR push_bit 8 nxt_adj in
      desc\<lparr>control := c\<rparr>)"

text \<open>\<open>get_desc\<close> returns the index of the descriptor it points to.\<close>

definition get_desc :: "u64 \<Rightarrow> world \<Rightarrow> fault + nat \<times> world" where
  "get_desc dev_hndl w =
     andThen (deref (engines w) dev_hndl) (\<lambda>engine.
     let i = desc_used engine in
     if desc_max engine = 0 then Inl DivByZero
     else Inr (unat i, w\<lparr>engines := (engines w)(dev_hndl \<mapsto>
                engine\<lparr>desc_used := (i + 1) mod desc_max engine\<rparr>)\<rparr>))"

section \<open>Abstract view\<close>

definition stopped :: "xdma_desc \<Rightarrow> bool" where
  "stopped d \<longleftrightarrow> control d AND XDMA_DESC_STOPPED \<noteq> 0"

definition next_addr :: "xdma_desc \<Rightarrow> u64" where
  "next_addr d = addr_join (next_hi d) (next_lo d)"

definition src_addr :: "xdma_desc \<Rightarrow> u64" where
  "src_addr d = addr_join (src_addr_hi d) (src_addr_lo d)"

definition dst_addr :: "xdma_desc \<Rightarrow> u64" where
  "dst_addr d = addr_join (dst_addr_hi d) (dst_addr_lo d)"

definition nxt_adj :: "xdma_desc \<Rightarrow> u32" where
  "nxt_adj d = drop_bit 8 (control d AND XDMA_DESC_NXT_ADJ_MASK)"

fun chain :: "xdma_desc list \<Rightarrow> xdma_desc list" where
  "chain [] = []"
| "chain (d # ds) = (if stopped d then [d] else d # chain ds)"

text \<open>Each descriptor points to its successor; the last one to nothing.\<close>

definition linked :: "(u64 \<Rightarrow> u64) \<Rightarrow> u64 \<Rightarrow> xdma_desc list \<Rightarrow> bool" where
  "linked v2p base r \<longleftrightarrow> (\<forall>i < length r. next_addr (r ! i) =
     (if Suc i = length r then 0 else v2p (desc_addr base (Suc i))))"

text \<open>A descriptor that describes no transfer.\<close>

definition blank :: "xdma_desc \<Rightarrow> bool" where
  "blank d \<longleftrightarrow> len d = 0 \<and> src_addr d = 0 \<and> dst_addr d = 0"

section \<open>Lemmas\<close>

lemma update_ring_Some [simp, res_simps]:
  "base \<noteq> 0 \<Longrightarrow> rings w base = Some r \<Longrightarrow> f r = Inr r' \<Longrightarrow>
   update_ring base f w = Inr (w\<lparr>rings := (rings w)(base \<mapsto> r')\<rparr>)"
  by (simp add: update_ring_def)

lemma update_ring_eq_Inr:
  "update_ring base f w = Inr w' \<longleftrightarrow>
   (\<exists>r r'. base \<noteq> 0 \<and> rings w base = Some r \<and> f r = Inr r' \<and> w' = w\<lparr>rings := (rings w)(base \<mapsto> r')\<rparr>)"
  by (auto simp: update_ring_def andThen_eq_Inr deref_eq_Inr)

lemma chain_prefix: "\<exists>rest. ds = chain ds @ rest"
  by (induction ds) auto

lemma chain_append:
  "chain (ds @ es) = (if \<exists>d \<in> set ds. stopped d then chain ds else ds @ chain es)"
  by (induction ds) auto

lemma chain_no_stop: "(\<forall>d \<in> set ds. \<not> stopped d) \<Longrightarrow> chain ds = ds"
  by (induction ds) auto

lemma chain_first_stop:
  assumes "i < length ds" and "stopped (ds ! i)" and "\<And>j. j < i \<Longrightarrow> \<not> stopped (ds ! j)"
  shows "chain ds = take (Suc i) ds"
  using assms
proof (induction ds arbitrary: i)
  case Nil
  then show ?case by simp
next
  case (Cons d ds)
  show ?case
  proof (cases i)
    case 0
    with Cons.prems show ?thesis by simp
  next
    case (Suc j)
    with Cons.prems(3) [of 0] have "\<not> stopped d" by simp
    moreover have "chain ds = take (Suc j) ds"
    proof (rule Cons.IH)
      show "j < length ds" "stopped (ds ! j)" using Cons.prems Suc by simp_all
      show "\<not> stopped (ds ! k)" if "k < j" for k
        using Cons.prems(3) [of "Suc k"] that Suc by simp
    qed
    ultimately show ?thesis using Suc by simp
  qed
qed

lemma linked_cong:
  assumes "length r' = length r" and "\<And>i. i < length r \<Longrightarrow> next_addr (r' ! i) = next_addr (r ! i)"
  shows "linked v b r' = linked v b r"
  using assms by (simp add: linked_def)

lemma linked_map_range:
  "(\<And>i d. next_addr (f i d) = next_addr d) \<Longrightarrow> linked v b (map_range i j f r) = linked v b r"
  by (rule linked_cong) auto

lemma next_addr_simps [simp]:
  "next_addr (xdma_desc_control_set d c) = next_addr d"
  "next_addr (xdma_desc_adjacent_set d n) = next_addr d"
  "next_addr (clear_desc dr d) = next_addr d"
  by (simp_all add: next_addr_def xdma_desc_control_set_def xdma_desc_adjacent_set_def
        clear_desc_def Let_def)

lemma blank_clear [simp]: "blank (clear_desc dr d)"
  by (simp add: blank_def clear_desc_def Let_def src_addr_def dst_addr_def addr_join_def)

lemma stopped_iff_bit: "stopped d \<longleftrightarrow> bit (control d) 0"
  by (simp add: stopped_def XDMA_DESC_STOPPED_def and_one_eq bit_0 odd_iff_mod_2_eq_one)

lemma stopped_control_set [simp]:
  "stopped (xdma_desc_control_set d c) \<longleftrightarrow> stopped d \<or> bit c 0"
  by (simp add: stopped_iff_bit xdma_desc_control_set_def bit_simps)

lemma stopped_adjacent_set [simp]: "stopped (xdma_desc_adjacent_set d n) \<longleftrightarrow> stopped d"
  by (simp add: stopped_iff_bit xdma_desc_adjacent_set_def bit_simps XDMA_DESC_NXT_ADJ_MASK_def)

lemma stopped_clear [simp]: "stopped (clear_desc dr d) \<longleftrightarrow> dr \<noteq> H2C \<and> stopped d"
  by (simp add: stopped_iff_bit clear_desc_def Let_def)

lemma nxt_adj_set:
  assumes "n < 64"
  shows "nxt_adj (xdma_desc_adjacent_set d n) = n"
proof (rule bit_word_eqI)
  fix i :: nat
  assume i: "i < LENGTH(32)"
  have hi: "\<not> bit n i" if "6 \<le> i"
  proof -
    have "take_bit 6 n = n" using assms less_mask_eq [of n 6] by (simp add: take_bit_eq_mask)
    then show ?thesis using that by (metis bit_take_bit_iff not_less)
  qed
  have m: "bit XDMA_DESC_NXT_ADJ_MASK j \<longleftrightarrow> 8 \<le> j \<and> j < 14" for j
  proof -
    have M: "XDMA_DESC_NXT_ADJ_MASK = push_bit 8 (mask 6)"
      by (simp add: XDMA_DESC_NXT_ADJ_MASK_def mask_eq_exp_minus_1)
    show ?thesis unfolding M by (auto simp: bit_simps)
  qed
  show "bit (nxt_adj (xdma_desc_adjacent_set d n)) i = bit n i"
    using i hi by (cases "i < 6") (auto simp: nxt_adj_def xdma_desc_adjacent_set_def bit_simps m not_le dest: bit_imp_le_length)
qed

lemma nxt_adj_mask: "n < 64 \<Longrightarrow> push_bit 8 n AND XDMA_DESC_NXT_ADJ_MASK = push_bit 8 (n :: u32)"
proof -
  assume "n < 64"
  then have "take_bit 6 n = n" using less_mask_eq [of n 6] by (simp add: take_bit_eq_mask)
  then have "push_bit 8 n = push_bit 8 (take_bit 6 n)" by simp
  also have "\<dots> AND XDMA_DESC_NXT_ADJ_MASK = push_bit 8 (take_bit 6 n)"
  proof -
    have M: "XDMA_DESC_NXT_ADJ_MASK = push_bit 8 (mask 6)"
      by (simp add: XDMA_DESC_NXT_ADJ_MASK_def mask_eq_exp_minus_1)
    show ?thesis unfolding M by (rule bit_word_eqI) (auto simp: bit_simps)
  qed
  finally show ?thesis by (simp add: \<open>take_bit 6 n = n\<close>)
qed

lemma adjacent_set_rest:
  assumes "n < 64"
  shows "control (xdma_desc_adjacent_set d n) AND NOT XDMA_DESC_NXT_ADJ_MASK
           = control d AND NOT XDMA_DESC_NXT_ADJ_MASK"
proof -
  have "push_bit 8 n AND NOT XDMA_DESC_NXT_ADJ_MASK
      = (push_bit 8 n AND XDMA_DESC_NXT_ADJ_MASK) AND NOT XDMA_DESC_NXT_ADJ_MASK"
    by (simp only: nxt_adj_mask [OF assms])
  also have "\<dots> = 0" by (simp only: and.assoc bit.conj_cancel_right bit.conj_zero_right)
  finally show ?thesis
    by (simp add: xdma_desc_adjacent_set_def bit.conj_disj_distrib2 and.assoc)
qed

lemma control_set_sel [simp]:
  "len (xdma_desc_control_set d c) = len d" "src_addr (xdma_desc_control_set d c) = src_addr d"
  "dst_addr (xdma_desc_control_set d c) = dst_addr d"
  "control (xdma_desc_control_set d c) = control d OR c"
  by (simp_all add: xdma_desc_control_set_def src_addr_def dst_addr_def)

lemma adjacent_set_sel [simp]:
  "len (xdma_desc_adjacent_set d n) = len d" "src_addr (xdma_desc_adjacent_set d n) = src_addr d"
  "dst_addr (xdma_desc_adjacent_set d n) = dst_addr d"
  by (simp_all add: xdma_desc_adjacent_set_def src_addr_def dst_addr_def)

section \<open>Initialisation and clearing\<close>

lemma ring_init_eq:
  assumes "desc_ring e \<noteq> 0" and "rings w (desc_ring e) = Some r" and "length r = unat (desc_max e)"
  shows "xdma_desc_ring_init ev e w = Inr (w\<lparr>rings := (rings w)(desc_ring e \<mapsto>
           map_range 0 (length r) (init_desc ev (desc_ring e) (desc_max e)) r)\<rparr>)"
  using assms for_loop_modify [of 0 "length r" r "init_desc ev (desc_ring e) (desc_max e)"]
  by (simp add: xdma_desc_ring_init_def)

lemma ring_clear_eq:
  assumes "desc_ring e \<noteq> 0" and "rings w (desc_ring e) = Some r" and "length r = unat (desc_max e)"
  shows "xdma_desc_ring_clear e w
           = Inr (w\<lparr>rings := (rings w)(desc_ring e \<mapsto> map (clear_desc (dir e)) r)\<rparr>)"
proof -
  have "map_range 0 (length r) (\<lambda>_. clear_desc (dir e)) r = map (clear_desc (dir e)) r"
    by (rule nth_equalityI) simp_all
  with assms show ?thesis
    using for_loop_modify [of 0 "length r" r "\<lambda>_. clear_desc (dir e)"]
    by (simp add: xdma_desc_ring_clear_def)
qed

lemma of_nat_eq_minus1:
  assumes "i < unat (n :: u32)"
  shows "of_nat i = n - 1 \<longleftrightarrow> Suc i = unat n"
proof -
  have n: "unat (n - 1) = unat n - 1" using assms by (intro unat_minus_one) auto
  have i: "unat (of_nat i :: u32) = i"
    using assms unat_u32_less [of n] by (intro unat_of_nat_small) simp
  show ?thesis using assms n i by (metis Suc_pred diff_Suc_1 less_nat_zero_code word_unat_eq_iff zero_less_iff_neq_zero)
qed

text \<open>Initialised ring cells, whatever the memory held before.\<close>

lemma init_desc_spec:
  assumes "i < unat dmax"
  shows "blank (init_desc ev base dmax i d)"
    and "next_addr (init_desc ev base dmax i d)
           = (if Suc i = unat dmax then 0 else virt2phy ev (desc_addr base (Suc i)))"
    and "stopped (init_desc ev base dmax i d) \<longleftrightarrow> Suc i = unat dmax"
    and "control (init_desc ev base dmax i d) = (if Suc i = unat dmax then 0xAD4B0013 else 0xAD4B0000)"
proof -
  let ?d = "init_desc ev base dmax i d"
  note eq = of_nat_eq_minus1 [OF assms]
  show c: "control ?d = (if Suc i = unat dmax then 0xAD4B0013 else 0xAD4B0000)"
    by (simp add: init_desc_def Let_def eq)
  show "blank ?d" 
    by (simp add: blank_def src_addr_def dst_addr_def init_desc_def Let_def addr_join_def)
  show "next_addr ?d = (if Suc i = unat dmax then 0 else virt2phy ev (desc_addr base (Suc i)))"
    by (simp add: next_addr_def init_desc_def Let_def eq addr_join_def)
       (simp add: addr_join_def [symmetric])
  show "stopped ?d \<longleftrightarrow> Suc i = unat dmax"
    unfolding stopped_def c by (simp add: XDMA_DESC_STOPPED_def)
qed

section \<open>The slot allocator as an interface\<close>

fun takes :: "('s \<Rightarrow> fault + nat \<times> 's) \<Rightarrow> nat \<Rightarrow> 's \<Rightarrow> fault + nat list \<times> 's" where
  "takes slot 0 s = Inr ([], s)"
| "takes slot (Suc n) s =
     andThen (slot s) (\<lambda>(i, s). andThen (takes slot n s) (\<lambda>(js, s). Inr (i # js, s)))"

locale slot_allocator =
  fixes slot :: "'s \<Rightarrow> fault + nat \<times> 's"
    and ready :: "'s \<Rightarrow> bool"
    and used cap :: "'s \<Rightarrow> nat"
  assumes slot_ok: "ready s \<Longrightarrow>
      \<exists>s'. slot s = Inr (used s, s') \<and> ready s' \<and> cap s' = cap s \<and> used s' = Suc (used s) mod cap s"
    and used_bound: "ready s \<Longrightarrow> used s < cap s"
begin

lemma takes_slots:
  "ready s \<Longrightarrow> \<exists>s'. takes slot n s = Inr (map (\<lambda>i. (used s + i) mod cap s) [0..<n], s') \<and>
     ready s' \<and> cap s' = cap s \<and> used s' = (used s + n) mod cap s"
proof (induction n arbitrary: s)
  case 0
  then show ?case using used_bound [OF 0] by simp
next
  case (Suc n)
  from slot_ok [OF Suc.prems] obtain t where t: "slot s = Inr (used s, t)" "ready t"
    "cap t = cap s" "used t = Suc (used s) mod cap s" by blast
  from Suc.IH [OF t(2)] obtain u where u:
    "takes slot n t = Inr (map (\<lambda>i. (used t + i) mod cap t) [0..<n], u)" "ready u" "cap u = cap t"
    "used u = (used t + n) mod cap t" by blast
  have "map (\<lambda>i. (used s + i) mod cap s) [0..<Suc n]
      = used s # map (\<lambda>i. (used t + i) mod cap t) [0..<n]"
    using used_bound [OF Suc.prems] t(3,4)
    by (simp add: upt_conv_Cons map_Suc_upt [symmetric] del: upt_Suc) (simp add: mod_simps)
  then show ?case using t u by (simp add: mod_simps)
qed

lemma slots_distinct: "n \<le> cap s \<Longrightarrow> distinct (map (\<lambda>i. (used s + i) mod cap s) [0..<n])"
proof -
  assume n: "n \<le> cap s"
  have eq: "i = j" if "i \<le> j" "j < n" "(used s + i) mod cap s = (used s + j) mod cap s" for i j
  proof -
    from that have "cap s dvd j - i" using mod_eq_dvd_iff_nat [of "used s + i" "used s + j" "cap s"] by simp
    with that n show "i = j" by (metis diff_is_0_eq dvd_imp_le le_antisym less_imp_diff_less not_less order_less_le_trans gr0I)
  qed
  have "inj_on (\<lambda>i. (used s + i) mod cap s) {0..<n}"
    by (rule inj_onI) (metis eq atLeastLessThan_iff nat_le_linear)
  then show ?thesis by (simp add: distinct_map)
qed

end

definition ring_ready :: "u64 \<Rightarrow> world \<Rightarrow> bool" where
  "ring_ready p w \<longleftrightarrow> p \<noteq> 0 \<and>
     (case engines w p of None \<Rightarrow> False | Some e \<Rightarrow> desc_used e < desc_max e)"

definition ring_used :: "u64 \<Rightarrow> world \<Rightarrow> nat" where
  "ring_used p w = (case engines w p of None \<Rightarrow> 0 | Some e \<Rightarrow> unat (desc_used e))"

definition ring_cap :: "u64 \<Rightarrow> world \<Rightarrow> nat" where
  "ring_cap p w = (case engines w p of None \<Rightarrow> 0 | Some e \<Rightarrow> unat (desc_max e))"

lemma unat_next_slot:
  assumes "i < (m :: u32)"
  shows "unat ((i + 1) mod m) = Suc (unat i) mod unat m"
proof -
  have "unat (i + 1) = Suc (unat i)"
    using assms unat_u32_less [of m] by (simp add: unat_word_ariths word_less_nat_alt)
  then show ?thesis by (simp add: unat_mod)
qed

lemma get_desc_eq:
  assumes "p \<noteq> 0" and "engines w p = Some e" and "desc_max e \<noteq> 0"
  shows "get_desc p w = Inr (unat (desc_used e),
           w\<lparr>engines := (engines w)(p \<mapsto> e\<lparr>desc_used := (desc_used e + 1) mod desc_max e\<rparr>)\<rparr>)"
  using assms by (simp add: get_desc_def Let_def)

interpretation ring_slots: slot_allocator "get_desc p" "ring_ready p" "ring_used p" "ring_cap p"
  for p :: u64
proof unfold_locales
  fix w assume "ring_ready p w"
  then obtain e where e: "p \<noteq> 0" "engines w p = Some e" "desc_used e < desc_max e"
    by (auto simp: ring_ready_def split: option.splits)
  then have m: "0 < desc_max e" using word_neq_0_conv by fastforce
  have "(desc_used e + 1) mod desc_max e < desc_max e"
    using m by (simp add: word_less_nat_alt unat_mod)
  then show "\<exists>w'. get_desc p w = Inr (ring_used p w, w') \<and> ring_ready p w' \<and>
      ring_cap p w' = ring_cap p w \<and> ring_used p w' = Suc (ring_used p w) mod ring_cap p w"
    using e m by (simp add: get_desc_eq ring_ready_def ring_used_def ring_cap_def unat_next_slot)
  show "ring_used p w < ring_cap p w"
    using e by (simp add: ring_used_def ring_cap_def word_less_nat_alt)
qed

section \<open>Properties\<close>

text \<open>
  Initialising the ring turns any memory of the right size into one closed chain: every
  descriptor is blank and points to the physical address of its successor, the last one
  points to nothing, and the last one alone carries the STOPPED bit.
\<close>

theorem ring_init_builds_chain:
  assumes "desc_ring e \<noteq> 0" and "rings w (desc_ring e) = Some r"
    and "length r = unat (desc_max e)" and "desc_max e \<noteq> 0"
  shows "\<exists>r'. xdma_desc_ring_init ev e w = Inr (w\<lparr>rings := (rings w)(desc_ring e \<mapsto> r')\<rparr>) \<and>
    length r' = length r \<and> linked (virt2phy ev) (desc_ring e) r' \<and> chain r' = r' \<and>
    (\<forall>d \<in> set r'. blank d) \<and> (\<forall>i < length r'. stopped (r' ! i) \<longleftrightarrow> Suc i = length r')"
proof -
  let ?f = "init_desc ev (desc_ring e) (desc_max e)"
  let ?r = "map_range 0 (length r) ?f r"
  have nth: "?r ! i = ?f i (r ! i)" if "i < length r" for i using that by simp
  have st: "\<forall>i < length ?r. stopped (?r ! i) \<longleftrightarrow> Suc i = length ?r"
    using assms(3) by (auto simp: nth init_desc_spec)
  have "length r \<noteq> 0" using assms(3,4) by (simp add: unat_eq_0)
  then have "chain ?r = take (Suc (length r - 1)) ?r"
    by (intro chain_first_stop) (use st in auto)
  then have "chain ?r = ?r" using \<open>length r \<noteq> 0\<close> by simp
  moreover have "linked (virt2phy ev) (desc_ring e) ?r"
    using assms(3) by (simp add: linked_def nth init_desc_spec)
  moreover have "\<forall>d \<in> set ?r. blank d"
    using assms(3) by (auto simp: in_set_conv_nth init_desc_spec)
  ultimately show ?thesis
    using st by (intro exI [of _ ?r]) (simp add: ring_init_eq [OF assms(1-3)])
qed

text \<open>
  Clearing the ring blanks every descriptor and keeps all links.  On an H2C engine it
  also resets every control word to the bare magic, so no descriptor is a terminator any
  more, not even the last one that initialisation had marked STOPPED; on a C2H engine the
  control words stay.
\<close>

theorem ring_clear_resets:
  assumes "desc_ring e \<noteq> 0" and "rings w (desc_ring e) = Some r"
    and "length r = unat (desc_max e)" and "linked v (desc_ring e) r"
  shows "\<exists>r'. xdma_desc_ring_clear e w = Inr (w\<lparr>rings := (rings w)(desc_ring e \<mapsto> r')\<rparr>) \<and>
    length r' = length r \<and> linked v (desc_ring e) r' \<and> (\<forall>d \<in> set r'. blank d) \<and>
    (dir e = H2C \<longrightarrow> (\<forall>d \<in> set r'. control d = 0xAD4B0000 \<and> \<not> stopped d)) \<and>
    (dir e \<noteq> H2C \<longrightarrow> map control r' = map control r)"
proof -
  have "linked v (desc_ring e) (map (clear_desc (dir e)) r)"
    using assms(4) by (simp add: linked_def)
  moreover have "control (clear_desc dr d) = (if dr = H2C then 0xAD4B0000 else control d)" for dr d
    by (simp add: clear_desc_def Let_def)
  ultimately show ?thesis
    by (intro exI [of _ "map (clear_desc (dir e)) r"])
       (simp add: ring_clear_eq [OF assms(1-3)])
qed

text \<open>
  \<open>get_desc\<close> hands out slots in ring order: \<open>n\<close> calls starting from slot \<open>u\<close> return
  \<open>u, u+1, \<dots>\<close> modulo the ring size, pairwise different as long as \<open>n\<close> does not exceed it,
  and leave the next slot in \<open>desc_used\<close>.
\<close>

theorem get_desc_ring_order:
  assumes "ring_ready p w"
  shows "\<exists>w'. takes (get_desc p) n w
      = Inr (map (\<lambda>i. (ring_used p w + i) mod ring_cap p w) [0..<n], w') \<and>
    ring_used p w' = (ring_used p w + n) mod ring_cap p w \<and>
    (n \<le> ring_cap p w \<longrightarrow> distinct (map (\<lambda>i. (ring_used p w + i) mod ring_cap p w) [0..<n]))"
  using ring_slots.takes_slots [OF assms] ring_slots.slots_distinct [of n p w] by blast

text \<open>
  The adjacency field of a control word round-trips: a count below 64 is read back
  unchanged and no other bit of the word moves.
\<close>

theorem adjacent_set_roundtrip:
  assumes "n < 64"
  shows "nxt_adj (xdma_desc_adjacent_set d n) = n \<and>
    control (xdma_desc_adjacent_set d n) AND NOT XDMA_DESC_NXT_ADJ_MASK
      = control d AND NOT XDMA_DESC_NXT_ADJ_MASK"
  using assms by (simp add: nxt_adj_set adjacent_set_rest)

end
