(* ===== verification/Engine.thy ===== *)
theory Engine
  imports Desc_Ring
begin

text \<open>
  A DMA engine (one channel in one direction): how the hardware is started and stopped,
  \<open>xdma_access_common.c\<close>.  \<open>tx\<close> is H2C (host to card), \<open>rx\<close> is C2H.

  The barrier \<open>rte_wmb\<close> before the write of the control register has no counterpart: the
  model executes memory and device writes in program order.
\<close>

section \<open>Starting and stopping\<close>

text \<open>The register of the engine's channel: each channel has a window of 256 bytes.\<close>

definition chan_reg :: "u32 \<Rightarrow> xdma_engine \<Rightarrow> u32" where
  "chan_reg reg engine = reg + ucast (channel engine) * 0x100"

definition start_ctrl :: u32 where
  "start_ctrl = CTRL_RUN_STOP OR CTRL_IE_DESC_STOPPED OR CTRL_IE_DESC_COMPLETED OR
     CTRL_IE_DESC_ALIGN_MISMATCH OR CTRL_IE_MAGIC_STOPPED OR CTRL_IE_READ_ERROR OR
     CTRL_IE_DESC_ERROR OR CTRL_POLL_MODE_WB"

definition stop_ctrl :: u32 where
  "stop_ctrl = 0x0 OR CTRL_IE_DESC_STOPPED OR CTRL_IE_DESC_COMPLETED OR
     CTRL_IE_DESC_ALIGN_MISMATCH OR CTRL_IE_MAGIC_STOPPED OR CTRL_IE_READ_ERROR OR
     CTRL_IE_DESC_ERROR OR CTRL_POLL_MODE_WB"

definition xdma_tx_engine_start :: "u64 \<Rightarrow> u64 \<Rightarrow> u32 \<Rightarrow> world \<Rightarrow> fault + world" where
  "xdma_tx_engine_start p first_desc_addr desc_adj w =
     andThen (deref (engines w) p) (\<lambda>engine.
     let xdma_dev = xdev engine;
         w = w\<lparr>engines := (engines w)(p \<mapsto> engine\<lparr>running := True\<rparr>)\<rparr>;
         first_desc_addr = first_desc_addr + virt2phy_offset engine;
         poll_mode_wb_addr = poll_mode_addr_virt engine + virt2phy_offset engine
     in bus_program (xdma_reg_write xdma_dev)
          [(chan_reg H2C_SGDMA_DESC_LO_ADDR engine, addr_lo first_desc_addr),
           (chan_reg H2C_SGDMA_DESC_HI_ADDR engine, addr_hi first_desc_addr),
           (chan_reg H2C_SGDMA_DESC_ADJ engine, if sint desc_adj > 0 then desc_adj else 0),
           (chan_reg H2C_POLL_MODE_LO_WB_ADDR engine, addr_lo poll_mode_wb_addr),
           (chan_reg H2C_POLL_MODE_HI_WB_ADDR engine, addr_hi poll_mode_wb_addr),
           (chan_reg H2C_CHANNEL_CTRL engine, start_ctrl)] w)"

definition xdma_rx_engine_start :: "u64 \<Rightarrow> u64 \<Rightarrow> world \<Rightarrow> fault + world" where
  "xdma_rx_engine_start p first_desc_addr w =
     andThen (deref (engines w) p) (\<lambda>engine.
     let xdma_dev = xdev engine;
         w = w\<lparr>engines := (engines w)(p \<mapsto> engine\<lparr>running := True\<rparr>)\<rparr>;
         first_desc_addr = first_desc_addr + virt2phy_offset engine;
         poll_mode_wb_addr = poll_mode_addr_virt engine + virt2phy_offset engine
     in bus_program (xdma_reg_write xdma_dev)
          [(chan_reg C2H_SGDMA_DESC_LO_ADDR engine, addr_lo first_desc_addr),
           (chan_reg C2H_SGDMA_DESC_HI_ADDR engine, addr_hi first_desc_addr),
           (chan_reg C2H_POLL_MODE_LO_WB_ADDR engine, addr_lo poll_mode_wb_addr),
           (chan_reg C2H_POLL_MODE_HI_WB_ADDR engine, addr_hi poll_mode_wb_addr),
           (chan_reg C2H_CHANNEL_CTRL engine, start_ctrl)] w)"

definition xdma_tx_engine_stop :: "u64 \<Rightarrow> world \<Rightarrow> fault + world" where
  "xdma_tx_engine_stop p w =
     andThen (deref (engines w) p) (\<lambda>engine.
     andThen (xdma_reg_write (xdev engine) (chan_reg H2C_CHANNEL_CTRL engine) stop_ctrl w) (\<lambda>w.
     andThen (xdma_desc_ring_clear engine w) (\<lambda>w.
     let w = w\<lparr>engines := (engines w)(p \<mapsto> engine\<lparr>running := False, desc_used := 0\<rparr>)\<rparr> in
     store_word (poll_mode_addr_virt engine) 0 w)))"

definition xdma_rx_engine_stop :: "u64 \<Rightarrow> world \<Rightarrow> fault + world" where
  "xdma_rx_engine_stop p w =
     andThen (deref (engines w) p) (\<lambda>engine.
     andThen (xdma_reg_write (xdev engine) (chan_reg C2H_CHANNEL_CTRL engine) stop_ctrl w) (\<lambda>w.
     andThen (xdma_desc_ring_clear engine w) (\<lambda>w.
     andThen (store_word (poll_mode_addr_virt engine) 0 w) (\<lambda>w.
     Inr (w\<lparr>engines := (engines w)(p \<mapsto> engine\<lparr>running := False, desc_used := 0\<rparr>)\<rparr>)))))"

section \<open>The function table\<close>

definition xdma_hw_access_init :: xdma_hw_access where
  "xdma_hw_access_init = \<lparr>
     hw_dev_start = Some Fn_xdma_dev_start,
     hw_dev_stop = Some Fn_xdma_dev_stop,
     hw_dev_close = Some Fn_xdma_dev_close,
     hw_tx_engine_start = Some Fn_xdma_tx_engine_start,
     hw_rx_engine_start = Some Fn_xdma_rx_engine_start,
     hw_tx_engine_stop = Some Fn_xdma_tx_engine_stop,
     hw_rx_engine_stop = Some Fn_xdma_rx_engine_stop,
     hw_tx_engine_setup = Some Fn_xdma_tx_engine_setup,
     hw_rx_engine_setup = Some Fn_xdma_rx_engine_setup,
     hw_get_user_bar = Some Fn_xdma_get_user_bar\<rparr>"

text \<open>
  A call through \<open>xdma_dev->hw_access\<close>: the table is fetched through the engine's device,
  and calling a NULL entry is a fault.
\<close>

definition hw_access_of :: "u64 \<Rightarrow> world \<Rightarrow> fault + xdma_hw_access" where
  "hw_access_of xdma_dev w =
     andThen (deref (xdevs w) xdma_dev) (\<lambda>d. deref (hw_tables w) (hw_access d))"

definition call_tx_start :: "u64 \<Rightarrow> u64 \<Rightarrow> u64 \<Rightarrow> u32 \<Rightarrow> world \<Rightarrow> fault + world" where
  "call_tx_start xdma_dev p first_desc_addr desc_adj w =
     andThen (hw_access_of xdma_dev w) (\<lambda>t.
     case hw_tx_engine_start t of None \<Rightarrow> Inl NullDeref
     | Some Fn_xdma_tx_engine_start \<Rightarrow> xdma_tx_engine_start p first_desc_addr desc_adj w)"

definition call_rx_start :: "u64 \<Rightarrow> u64 \<Rightarrow> u64 \<Rightarrow> world \<Rightarrow> fault + world" where
  "call_rx_start xdma_dev p first_desc_addr w =
     andThen (hw_access_of xdma_dev w) (\<lambda>t.
     case hw_rx_engine_start t of None \<Rightarrow> Inl NullDeref
     | Some Fn_xdma_rx_engine_start \<Rightarrow> xdma_rx_engine_start p first_desc_addr w)"

definition engine_stop_fn :: "engine_stop_fn option \<Rightarrow> u64 \<Rightarrow> world \<Rightarrow> fault + world" where
  "engine_stop_fn f p w =
     (case f of None \<Rightarrow> Inl NullDeref
      | Some Fn_xdma_tx_engine_stop \<Rightarrow> xdma_tx_engine_stop p w
      | Some Fn_xdma_rx_engine_stop \<Rightarrow> xdma_rx_engine_stop p w)"

definition call_tx_stop :: "u64 \<Rightarrow> u64 \<Rightarrow> world \<Rightarrow> fault + world" where
  "call_tx_stop xdma_dev p w =
     andThen (hw_access_of xdma_dev w) (\<lambda>t. engine_stop_fn (hw_tx_engine_stop t) p w)"

definition call_rx_stop :: "u64 \<Rightarrow> u64 \<Rightarrow> world \<Rightarrow> fault + world" where
  "call_rx_stop xdma_dev p w =
     andThen (hw_access_of xdma_dev w) (\<lambda>t. engine_stop_fn (hw_rx_engine_stop t) p w)"

section \<open>Well-formed engines\<close>

text \<open>
  \<open>engine_at p a e r w\<close>: \<open>p\<close> points to the engine \<open>e\<close>, whose device has its
  configuration BAR at \<open>a\<close> and a complete function table, whose ring is \<open>r\<close> and whose
  write-back word is mapped.
\<close>

definition engine_at :: "u64 \<Rightarrow> u64 \<Rightarrow> xdma_engine \<Rightarrow> xdma_desc list \<Rightarrow> world \<Rightarrow> bool" where
  "engine_at p a e r w \<longleftrightarrow>
     p \<noteq> 0 \<and> engines w p = Some e \<and>
     bar_mapped config_bar_idx (xdev e) a w \<and>
     hw_access_of (xdev e) w = Inr xdma_hw_access_init \<and>
     desc_ring e \<noteq> 0 \<and> rings w (desc_ring e) = Some r \<and> length r = unat (desc_max e) \<and>
     desc_max e \<noteq> 0 \<and> desc_used e \<le> desc_max e \<and>
     poll_mode_addr_virt e \<noteq> 0 \<and> words w (poll_mode_addr_virt e) \<noteq> None"

text \<open>The state of the hardware's RUN bit after a trace of register writes.\<close>

primrec run_bit :: "u64 \<Rightarrow> bool \<Rightarrow> (u64 \<times> u32) list \<Rightarrow> bool" where
  "run_bit ctrl b [] = b"
| "run_bit ctrl b (x # xs) = run_bit ctrl (if fst x = ctrl then bit (snd x) 0 else b) xs"

definition hw_running :: "u64 \<Rightarrow> world \<Rightarrow> bool" where
  "hw_running ctrl w = run_bit ctrl False (mmio w)"

lemma run_bit_append [simp]: "run_bit c b (xs @ ys) = run_bit c (run_bit c b xs) ys"
  by (induction xs arbitrary: b) auto

lemma run_bit_other: "(\<And>x. x \<in> set xs \<Longrightarrow> fst x \<noteq> c) \<Longrightarrow> run_bit c b xs = b"
  by (induction xs) auto

lemma start_ctrl_run [simp]: "bit start_ctrl 0" and stop_ctrl_halt [simp]: "\<not> bit stop_ctrl 0"
  by (simp_all add: start_ctrl_def stop_ctrl_def bit_simps CTRL_RUN_STOP_def CTRL_IE_DESC_STOPPED_def
      CTRL_IE_DESC_COMPLETED_def CTRL_IE_DESC_ALIGN_MISMATCH_def CTRL_IE_MAGIC_STOPPED_def
      CTRL_IE_READ_ERROR_def CTRL_IE_DESC_ERROR_def CTRL_POLL_MODE_WB_def)

lemma stop_ctrl_start: "stop_ctrl = start_ctrl AND NOT CTRL_RUN_STOP"
  by (simp add: start_ctrl_def stop_ctrl_def c_consts)

lemma chan_reg_cong: "channel e' = channel e \<Longrightarrow> chan_reg x e' = chan_reg x e"
  by (simp add: chan_reg_def)

lemma chan_reg_eq_iff [simp]: "chan_reg x e = chan_reg y e \<longleftrightarrow> x = y"
  by (simp add: chan_reg_def)

lemma bar_mapped_upd [simp]:
  "bar_mapped i h a (w\<lparr>engines := x1\<rparr>) = bar_mapped i h a w"
  "bar_mapped i h a (w\<lparr>rings := x2\<rparr>) = bar_mapped i h a w"
  "bar_mapped i h a (w\<lparr>words := x3\<rparr>) = bar_mapped i h a w"
  "bar_mapped i h a (w\<lparr>mmio := x4\<rparr>) = bar_mapped i h a w"
  "bar_mapped i h a (w\<lparr>mbufs := x5\<rparr>) = bar_mapped i h a w"
  by (rule bar_mapped_cong, simp)+

lemma hw_access_upd [simp]:
  "hw_access_of h (w\<lparr>engines := x1\<rparr>) = hw_access_of h w"
  "hw_access_of h (w\<lparr>rings := x2\<rparr>) = hw_access_of h w"
  "hw_access_of h (w\<lparr>words := x3\<rparr>) = hw_access_of h w"
  "hw_access_of h (w\<lparr>mmio := x4\<rparr>) = hw_access_of h w"
  "hw_access_of h (w\<lparr>mbufs := x5\<rparr>) = hw_access_of h w"
  by (simp_all add: hw_access_of_def)

section \<open>What the operations do\<close>

lemma tx_start_eq:
  assumes "engine_at p a e r w"
  shows "xdma_tx_engine_start p f adj w = Inr (w\<lparr>engines := (engines w)(p \<mapsto> e\<lparr>running := True\<rparr>),
    mmio := mmio w @
      [(a + ucast (chan_reg H2C_SGDMA_DESC_LO_ADDR e), addr_lo (f + virt2phy_offset e)),
       (a + ucast (chan_reg H2C_SGDMA_DESC_HI_ADDR e), addr_hi (f + virt2phy_offset e)),
       (a + ucast (chan_reg H2C_SGDMA_DESC_ADJ e), if sint adj > 0 then adj else 0),
       (a + ucast (chan_reg H2C_POLL_MODE_LO_WB_ADDR e), addr_lo (poll_mode_addr_virt e + virt2phy_offset e)),
       (a + ucast (chan_reg H2C_POLL_MODE_HI_WB_ADDR e), addr_hi (poll_mode_addr_virt e + virt2phy_offset e)),
       (a + ucast (chan_reg H2C_CHANNEL_CTRL e), start_ctrl)]\<rparr>)"
  using assms
  by (simp add: engine_at_def xdma_tx_engine_start_def Let_def config_bus.program_mapped [of "xdev e" a])

lemma rx_start_eq:
  assumes "engine_at p a e r w"
  shows "xdma_rx_engine_start p f w = Inr (w\<lparr>engines := (engines w)(p \<mapsto> e\<lparr>running := True\<rparr>),
    mmio := mmio w @
      [(a + ucast (chan_reg C2H_SGDMA_DESC_LO_ADDR e), addr_lo (f + virt2phy_offset e)),
       (a + ucast (chan_reg C2H_SGDMA_DESC_HI_ADDR e), addr_hi (f + virt2phy_offset e)),
       (a + ucast (chan_reg C2H_POLL_MODE_LO_WB_ADDR e), addr_lo (poll_mode_addr_virt e + virt2phy_offset e)),
       (a + ucast (chan_reg C2H_POLL_MODE_HI_WB_ADDR e), addr_hi (poll_mode_addr_virt e + virt2phy_offset e)),
       (a + ucast (chan_reg C2H_CHANNEL_CTRL e), start_ctrl)]\<rparr>)"
  using assms
  by (simp add: engine_at_def xdma_rx_engine_start_def Let_def config_bus.program_mapped [of "xdev e" a])

text \<open>The state after a stop, for either direction.\<close>

definition halted :: "u32 \<Rightarrow> u64 \<Rightarrow> u64 \<Rightarrow> xdma_engine \<Rightarrow> xdma_desc list \<Rightarrow> world \<Rightarrow> world" where
  "halted ctrl p a e r w = w\<lparr>
     engines := (engines w)(p \<mapsto> e\<lparr>running := False, desc_used := 0\<rparr>),
     rings := (rings w)(desc_ring e \<mapsto> map (clear_desc (dir e)) r),
     words := (words w)(poll_mode_addr_virt e \<mapsto> 0),
     mmio := mmio w @ [(a + ucast (chan_reg ctrl e), stop_ctrl)]\<rparr>"

lemma tx_stop_eq:
  assumes "engine_at p a e r w"
  shows "xdma_tx_engine_stop p w = Inr (halted H2C_CHANNEL_CTRL p a e r w)"
proof -
  from assms obtain v where v: "words w (poll_mode_addr_virt e) = Some v"
    by (auto simp: engine_at_def)
  show ?thesis using assms
    by (simp add: engine_at_def xdma_tx_engine_stop_def Let_def store_word_def ring_clear_eq
          halted_def v mmio_store_def config_bus.wr_mapped [of "xdev e" a])
qed

lemma rx_stop_eq:
  assumes "engine_at p a e r w"
  shows "xdma_rx_engine_stop p w = Inr (halted C2H_CHANNEL_CTRL p a e r w)"
proof -
  from assms obtain v where v: "words w (poll_mode_addr_virt e) = Some v"
    by (auto simp: engine_at_def)
  show ?thesis using assms
    by (simp add: engine_at_def xdma_rx_engine_stop_def Let_def store_word_def ring_clear_eq
          halted_def v mmio_store_def config_bus.wr_mapped [of "xdev e" a])
qed

lemma call_tx_start_eq:
  "engine_at p a e r w \<Longrightarrow> call_tx_start (xdev e) p f adj w = xdma_tx_engine_start p f adj w"
  by (simp add: engine_at_def call_tx_start_def xdma_hw_access_init_def)

lemma call_rx_start_eq:
  "engine_at p a e r w \<Longrightarrow> call_rx_start (xdev e) p f w = xdma_rx_engine_start p f w"
  by (simp add: engine_at_def call_rx_start_def xdma_hw_access_init_def)

lemma call_tx_stop_eq:
  "engine_at p a e r w \<Longrightarrow> call_tx_stop (xdev e) p w = xdma_tx_engine_stop p w"
  by (simp add: engine_at_def call_tx_stop_def xdma_hw_access_init_def engine_stop_fn_def)

lemma call_rx_stop_eq:
  "engine_at p a e r w \<Longrightarrow> call_rx_stop (xdev e) p w = xdma_rx_engine_stop p w"
  by (simp add: engine_at_def call_rx_stop_def xdma_hw_access_init_def engine_stop_fn_def)

text \<open>\<open>engine_at\<close> under the updates the operations make.\<close>

lemma engine_at_engine:
  "engine_at p a e r w \<Longrightarrow> xdev e' = xdev e \<Longrightarrow> desc_ring e' = desc_ring e \<Longrightarrow>
   desc_max e' = desc_max e \<Longrightarrow> poll_mode_addr_virt e' = poll_mode_addr_virt e \<Longrightarrow>
   desc_used e' \<le> desc_max e' \<Longrightarrow>
   engine_at p a e' r (w\<lparr>engines := (engines w)(p \<mapsto> e')\<rparr>)"
  by (simp add: engine_at_def)

lemma engine_at_ring:
  "engine_at p a e r w \<Longrightarrow> length r' = length r \<Longrightarrow>
   engine_at p a e r' (w\<lparr>rings := (rings w)(desc_ring e \<mapsto> r')\<rparr>)"
  by (simp add: engine_at_def)

lemma engine_at_mmio: "engine_at p a e r (w\<lparr>mmio := t\<rparr>) = engine_at p a e r w"
  by (simp add: engine_at_def)

lemma engine_at_mbufs: "engine_at p a e r (w\<lparr>mbufs := t\<rparr>) = engine_at p a e r w"
  by (simp add: engine_at_def)

lemma engine_at_word: "engine_at p a e r w \<Longrightarrow> engine_at p a e r (w\<lparr>words := (words w)(b \<mapsto> v)\<rparr>)"
  by (simp add: engine_at_def)

lemma engine_at_halted:
  "engine_at p a e r w \<Longrightarrow>
   engine_at p a (e\<lparr>running := False, desc_used := 0\<rparr>) (map (clear_desc (dir e)) r) (halted ctrl p a e r w)"
  by (simp add: engine_at_def halted_def word_neq_0_conv)

section \<open>The contract of an engine\<close>

text \<open>
  What the data path relies on when it calls \<open>start\<close> and \<open>stop\<close> through the function
  table: \<open>start\<close> sets the running flag and issues register writes of which the last, and
  only the last, goes to the control register and sets RUN; \<open>stop\<close> leaves the engine
  \<open>halted\<close>.  Both directions provide it.
\<close>

definition started :: "u64 \<Rightarrow> u64 \<Rightarrow> xdma_engine \<Rightarrow> (u32 \<times> u32) list \<Rightarrow> world \<Rightarrow> world" where
  "started p a e regs w = w\<lparr>engines := (engines w)(p \<mapsto> e\<lparr>running := True\<rparr>),
     mmio := mmio w @ map (\<lambda>(off, v). (a + ucast (chan_reg off e), v)) regs\<rparr>"

lemma engine_at_started:
  "engine_at p a e r w \<Longrightarrow> engine_at p a (e\<lparr>running := True\<rparr>) r (started p a e regs w)"
  by (simp add: engine_at_def started_def)

lemma started_sel [simp]:
  "words (started p a e regs w) = words w" "mbufs (started p a e regs w) = mbufs w"
  "rings (started p a e regs w) = rings w" "blocks (started p a e regs w) = blocks w"
  "engines (started p a e regs w) = (engines w)(p \<mapsto> e\<lparr>running := True\<rparr>)"
  "mmio (started p a e regs w) = mmio w @ map (\<lambda>(off, v). (a + ucast (chan_reg off e), v)) regs"
  by (simp_all add: started_def)

lemma halted_sel [simp]:
  "words (halted c p a e r w) = (words w)(poll_mode_addr_virt e \<mapsto> 0)"
  "mbufs (halted c p a e r w) = mbufs w" "blocks (halted c p a e r w) = blocks w"
  "rings (halted c p a e r w) = (rings w)(desc_ring e \<mapsto> map (clear_desc (dir e)) r)"
  "engines (halted c p a e r w) = (engines w)(p \<mapsto> e\<lparr>running := False, desc_used := 0\<rparr>)"
  "mmio (halted c p a e r w) = mmio w @ [(a + ucast (chan_reg c e), stop_ctrl)]"
  by (simp_all add: halted_def)

locale dma_engine =
  fixes start :: "u64 \<Rightarrow> u64 \<Rightarrow> u32 \<Rightarrow> world \<Rightarrow> fault + world"
    and stop :: "u64 \<Rightarrow> world \<Rightarrow> fault + world"
    and ctrl :: u32
  assumes start_law: "engine_at p a e r w \<Longrightarrow> \<exists>regs.
      start p f adj w = Inr (started p a e (regs @ [(ctrl, start_ctrl)]) w) \<and>
      (\<forall>x \<in> set regs. fst x \<noteq> ctrl)"
    and stop_law: "engine_at p a e r w \<Longrightarrow> stop p w = Inr (halted ctrl p a e r w)"
begin

lemma start_runs:
  assumes "engine_at p a e r w"
  shows "\<exists>w'. start p f adj w = Inr w' \<and> engine_at p a (e\<lparr>running := True\<rparr>) r w' \<and>
    hw_running (a + ucast (chan_reg ctrl e)) w' \<and> words w' = words w \<and> mbufs w' = mbufs w \<and>
    rings w' = rings w"
proof -
  from start_law [OF assms] obtain regs where
    "start p f adj w = Inr (started p a e (regs @ [(ctrl, start_ctrl)]) w)" by blast
  with engine_at_started [OF assms] show ?thesis by (simp add: hw_running_def)
qed

lemma stop_halts:
  assumes "engine_at p a e r w"
  shows "\<exists>w'. stop p w = Inr w' \<and>
    engine_at p a (e\<lparr>running := False, desc_used := 0\<rparr>) (map (clear_desc (dir e)) r) w' \<and>
    \<not> hw_running (a + ucast (chan_reg ctrl e)) w' \<and>
    words w' (poll_mode_addr_virt e) = Some 0 \<and> mbufs w' = mbufs w"
  using engine_at_halted [OF assms, of ctrl] stop_law [OF assms]
  by (simp add: hw_running_def)

text \<open>
  A whole transfer: start, let the hardware write any count back, stop.  The engine is idle
  again, its ring clear and its write-back count zero, whatever the hardware reported.
\<close>

lemma session:
  assumes "engine_at p a e r w"
  shows "\<exists>w1 w2. start p f adj w = Inr w1 \<and>
    stop p (w1\<lparr>words := (words w1)(poll_mode_addr_virt e \<mapsto> v)\<rparr>) = Inr w2 \<and>
    engine_at p a (e\<lparr>running := False, desc_used := 0\<rparr>) (map (clear_desc (dir e)) r) w2 \<and>
    \<not> hw_running (a + ucast (chan_reg ctrl e)) w2 \<and>
    words w2 (poll_mode_addr_virt e) = Some 0 \<and> mbufs w2 = mbufs w"
proof -
  from start_runs [OF assms] obtain w1 where w1: "start p f adj w = Inr w1"
    "engine_at p a (e\<lparr>running := True\<rparr>) r w1" "mbufs w1 = mbufs w" by blast
  from engine_at_word [OF w1(2)]
  have "engine_at p a (e\<lparr>running := True\<rparr>) r (w1\<lparr>words := (words w1)(poll_mode_addr_virt e \<mapsto> v)\<rparr>)" .
  from stop_halts [OF this] w1 show ?thesis by (auto simp: chan_reg_def)
qed

end

interpretation tx_ops: dma_engine xdma_tx_engine_start xdma_tx_engine_stop H2C_CHANNEL_CTRL
proof unfold_locales
  fix p a f adj and e :: xdma_engine and r w assume at: "engine_at p a e r w"
  show "\<exists>regs. xdma_tx_engine_start p f adj w
        = Inr (started p a e (regs @ [(H2C_CHANNEL_CTRL, start_ctrl)]) w) \<and>
      (\<forall>x \<in> set regs. fst x \<noteq> H2C_CHANNEL_CTRL)"
    by (rule exI [of _ "[(H2C_SGDMA_DESC_LO_ADDR, addr_lo (f + virt2phy_offset e)),
          (H2C_SGDMA_DESC_HI_ADDR, addr_hi (f + virt2phy_offset e)),
          (H2C_SGDMA_DESC_ADJ, if sint adj > 0 then adj else 0),
          (H2C_POLL_MODE_LO_WB_ADDR, addr_lo (poll_mode_addr_virt e + virt2phy_offset e)),
          (H2C_POLL_MODE_HI_WB_ADDR, addr_hi (poll_mode_addr_virt e + virt2phy_offset e))]"])
       (simp add: tx_start_eq [OF at] started_def, simp add: c_consts)
next
  fix p a and e :: xdma_engine and r w assume "engine_at p a e r w"
  then show "xdma_tx_engine_stop p w = Inr (halted H2C_CHANNEL_CTRL p a e r w)" by (rule tx_stop_eq)
qed

interpretation rx_ops: dma_engine "\<lambda>p f adj. xdma_rx_engine_start p f" xdma_rx_engine_stop C2H_CHANNEL_CTRL
proof unfold_locales
  fix p a f and adj :: u32 and e :: xdma_engine and r w assume at: "engine_at p a e r w"
  show "\<exists>regs. xdma_rx_engine_start p f w
        = Inr (started p a e (regs @ [(C2H_CHANNEL_CTRL, start_ctrl)]) w) \<and>
      (\<forall>x \<in> set regs. fst x \<noteq> C2H_CHANNEL_CTRL)"
    by (rule exI [of _ "[(C2H_SGDMA_DESC_LO_ADDR, addr_lo (f + virt2phy_offset e)),
          (C2H_SGDMA_DESC_HI_ADDR, addr_hi (f + virt2phy_offset e)),
          (C2H_POLL_MODE_LO_WB_ADDR, addr_lo (poll_mode_addr_virt e + virt2phy_offset e)),
          (C2H_POLL_MODE_HI_WB_ADDR, addr_hi (poll_mode_addr_virt e + virt2phy_offset e))]"])
       (simp add: rx_start_eq [OF at] started_def, simp add: c_consts)
next
  fix p a and e :: xdma_engine and r w assume "engine_at p a e r w"
  then show "xdma_rx_engine_stop p w = Inr (halted C2H_CHANNEL_CTRL p a e r w)" by (rule rx_stop_eq)
qed

section \<open>Properties\<close>

text \<open>
  Starting an H2C engine issues six register writes to the window of its channel, the
  control register last: the two address pairs reassemble to the physical addresses of the
  first descriptor and of the write-back word, a negative adjacency count is written as 0,
  and the final write sets RUN.
\<close>

theorem tx_start_programs_engine:
  assumes "engine_at p a e r w"
  shows "\<exists>w' lo hi wlo whi. xdma_tx_engine_start p f adj w = Inr w' \<and>
    mmio w' = mmio w @ map (\<lambda>(reg, v). (a + ucast (chan_reg reg e), v))
      [(H2C_SGDMA_DESC_LO_ADDR, lo), (H2C_SGDMA_DESC_HI_ADDR, hi),
       (H2C_SGDMA_DESC_ADJ, of_int (max 0 (sint adj))),
       (H2C_POLL_MODE_LO_WB_ADDR, wlo), (H2C_POLL_MODE_HI_WB_ADDR, whi),
       (H2C_CHANNEL_CTRL, start_ctrl)] \<and>
    addr_join hi lo = f + virt2phy_offset e \<and>
    addr_join whi wlo = poll_mode_addr_virt e + virt2phy_offset e \<and>
    bit start_ctrl 0 \<and> engine_at p a (e\<lparr>running := True\<rparr>) r w'"
proof -
  let ?f = "f + virt2phy_offset e" and ?wb = "poll_mode_addr_virt e + virt2phy_offset e"
  let ?regs = "[(H2C_SGDMA_DESC_LO_ADDR, addr_lo ?f), (H2C_SGDMA_DESC_HI_ADDR, addr_hi ?f),
       (H2C_SGDMA_DESC_ADJ, of_int (max 0 (sint adj))),
       (H2C_POLL_MODE_LO_WB_ADDR, addr_lo ?wb), (H2C_POLL_MODE_HI_WB_ADDR, addr_hi ?wb),
       (H2C_CHANNEL_CTRL, start_ctrl)]"
  have "xdma_tx_engine_start p f adj w = Inr (started p a e ?regs w)"
    by (simp add: tx_start_eq [OF assms] started_def max_def)
  moreover have "mmio (started p a e ?regs w)
      = mmio w @ map (\<lambda>(reg, v). (a + ucast (chan_reg reg e), v)) ?regs" by simp
  ultimately show ?thesis
    using engine_at_started [OF assms, of ?regs] addr_join_split start_ctrl_run by blast
qed

text \<open>
  C28. Stopping works alike in both directions: the control register is written with RUN
  cleared and the interrupt bits of the start value, the ring is cleared, the engine is idle
  with no descriptor in use, and the write-back word is zero.  A second stop changes
  nothing but the bus trace.
\<close>

theorem engine_stop_idle:
  assumes "engine_at p a e r w"
    and "(stop, ctrl) \<in> {(xdma_tx_engine_stop, H2C_CHANNEL_CTRL), (xdma_rx_engine_stop, C2H_CHANNEL_CTRL)}"
  shows "\<exists>w'. stop p w = Inr w' \<and>
    engine_at p a (e\<lparr>running := False, desc_used := 0\<rparr>) (map (clear_desc (dir e)) r) w' \<and>
    mmio w' = mmio w @ [(a + ucast (chan_reg ctrl e), start_ctrl AND NOT CTRL_RUN_STOP)] \<and>
    words w' = (words w)(poll_mode_addr_virt e \<mapsto> 0) \<and>
    (\<exists>w''. stop p w' = Inr w'' \<and> w'' = w'\<lparr>mmio := mmio w''\<rparr>)"
proof -
  have law: "engine_at p a e r w \<Longrightarrow> stop p w = Inr (halted ctrl p a e r w)" for e r w
    using assms(2) tx_stop_eq rx_stop_eq by auto
  note at = engine_at_halted [OF assms(1), of ctrl]
  have idem: "clear_desc d (clear_desc d x) = clear_desc d x" for d x
    by (simp add: clear_desc_def Let_def)
  have "halted ctrl p a (e\<lparr>running := False, desc_used := 0\<rparr>) (map (clear_desc (dir e)) r) (halted ctrl p a e r w)
      = (halted ctrl p a e r w)\<lparr>mmio := mmio w @ [(a + ucast (chan_reg ctrl e), stop_ctrl)]
          @ [(a + ucast (chan_reg ctrl e), stop_ctrl)]\<rparr>"
    by (simp add: halted_def chan_reg_def idem comp_def)
  then show ?thesis using law [OF assms(1)] law [OF at] at
    by (simp add: stop_ctrl_start)
qed

text \<open>
  No two registers the driver programs share an address: over all four channels and both
  directions, the register addresses within the configuration BAR are pairwise different.
\<close>

theorem channel_registers_distinct:
  "distinct (concat (map (\<lambda>ch. map (\<lambda>reg. chan_reg reg (zero_engine\<lparr>channel := ch\<rparr>))
     [H2C_CHANNEL_CTRL, H2C_POLL_MODE_LO_WB_ADDR, H2C_POLL_MODE_HI_WB_ADDR,
      H2C_SGDMA_DESC_LO_ADDR, H2C_SGDMA_DESC_HI_ADDR, H2C_SGDMA_DESC_ADJ,
      C2H_CHANNEL_CTRL, C2H_POLL_MODE_LO_WB_ADDR, C2H_POLL_MODE_HI_WB_ADDR,
      C2H_SGDMA_DESC_LO_ADDR, C2H_SGDMA_DESC_HI_ADDR]) [0, 1, 2, 3])
   @ [IRQ_USER_INTERRUPT_ENABLE_MASK_W1S, IRQ_USER_INTERRUPT_ENABLE_MASK_W1C,
      IRQ_CHANNEL_INTERRUPT_ENABLE_MASK_W1S, IRQ_CHANNEL_INTERRUPT_ENABLE_MASK_W1C])"
  by (simp add: chan_reg_def zero_engine_def c_consts)

end
