(* ===== verification/Engine_Setup.thy ===== *)
theory Engine_Setup
  imports Engine
begin

text \<open>
  Queue setup, \<open>xdma_tx_engine_setup\<close> and \<open>xdma_rx_engine_setup\<close>: allocation of the engine
  structure, of its DMA memory (a named memzone that holds the descriptor ring followed by
  the write-back words) and of the software ring, and the installation of the engine in the
  device (a copy) and in the queue array (the pointer).
\<close>

section \<open>Names of memzones\<close>

text \<open>\<open>%d\<close> of a non-negative number.\<close>

fun dec :: "nat \<Rightarrow> string" where
  "dec n = (if n < 10 then [char_of (48 + n)] else dec (n div 10) @ [char_of (48 + n mod 10)])"

declare dec.simps [simp del]

text \<open>\<open>snprintf\<close> into \<open>RTE_MEMZONE_NAMESIZE\<close> (32) bytes keeps 31 characters.\<close>

definition zone_name :: "string \<Rightarrow> string \<Rightarrow> u16 \<Rightarrow> u32 \<Rightarrow> string" where
  "zone_name driver_name ring_name port channel_id =
     take 31 (driver_name @ ring_name @ dec (unat port) @ ''_'' @ dec (unat channel_id))"

definition driver_name :: string where "driver_name = ''net_xdma''"

definition xdma_zone_reserve :: "env \<Rightarrow> u16 \<Rightarrow> string \<Rightarrow> u32 \<Rightarrow> u32 \<Rightarrow> world \<Rightarrow> u64 \<times> world" where
  "xdma_zone_reserve ev port ring_name channel_id ring_size w =
     rte_memzone_reserve ev (zone_name driver_name ring_name port channel_id) (unat ring_size) w"

section \<open>Setup\<close>

definition sizeof_xdma_engine :: nat where "sizeof_xdma_engine = 160"

text \<open>
  The memory of a reserved zone as the driver types it: \<open>n\<close> descriptors, then 32-bit words
  up to the end of the zone, with arbitrary contents.
\<close>

definition format_zone :: "env \<Rightarrow> u64 \<Rightarrow> nat \<Rightarrow> nat \<Rightarrow> world \<Rightarrow> world" where
  "format_zone ev p n sz w = w\<lparr>
     rings := (rings w)(p \<mapsto> map (junk_desc ev p) [0..<n]),
     words := fold (\<lambda>k m. m(desc_addr p n + of_nat (4 * k) \<mapsto> junk_word ev (desc_addr p n + of_nat (4 * k))))
                [0..<(sz - n * sizeof_xdma_desc) div 4] (words w)\<rparr>"

definition eth_data :: "u64 \<Rightarrow> world \<Rightarrow> fault + rte_eth_dev_data" where
  "eth_data dev w =
     andThen (deref (eth_devs w) dev) (\<lambda>d.
     case data d of None \<Rightarrow> Inl NullDeref | Some x \<Rightarrow> Inr x)"

definition set_eth_data :: "u64 \<Rightarrow> rte_eth_dev_data \<Rightarrow> world \<Rightarrow> fault + world" where
  "set_eth_data dev x w =
     andThen (deref (eth_devs w) dev) (\<lambda>d.
     Inr (w\<lparr>eth_devs := (eth_devs w)(dev \<mapsto> d\<lparr>data := Some x\<rparr>)\<rparr>))"

definition queue_array :: "u64 list option \<Rightarrow> fault + u64 list" where
  "queue_array q = (case q of None \<Rightarrow> Inl NullDeref | Some xs \<Rightarrow> Inr xs)"

definition sw_ring_size :: "u32 \<Rightarrow> nat" where
  "sw_ring_size dmax = unat (dmax * 8)"

definition install_tx :: "u64 \<Rightarrow> u16 \<Rightarrow> u64 \<Rightarrow> world \<Rightarrow> fault + world" where
  "install_tx dev channel_id p w =
     andThen (eth_data dev w) (\<lambda>dat.
     andThen (deref (engines w) p) (\<lambda>engine.
     andThen (deref (xdevs w) (dev_private dat)) (\<lambda>xdma_dev.
     andThen (store_idx (engine_h2c xdma_dev) (unat channel_id) engine) (\<lambda>es.
     let w = w\<lparr>xdevs := (xdevs w)(dev_private dat \<mapsto> xdma_dev\<lparr>engine_h2c := es\<rparr>)\<rparr> in
     andThen (queue_array (tx_queues dat)) (\<lambda>qs.
     andThen (store_idx qs (unat channel_id) p) (\<lambda>qs.
     set_eth_data dev (dat\<lparr>tx_queues := Some qs\<rparr>) w))))))"

definition install_rx :: "u64 \<Rightarrow> u16 \<Rightarrow> u64 \<Rightarrow> world \<Rightarrow> fault + world" where
  "install_rx dev channel_id p w =
     andThen (eth_data dev w) (\<lambda>dat.
     andThen (deref (engines w) p) (\<lambda>engine.
     andThen (deref (xdevs w) (dev_private dat)) (\<lambda>xdma_dev.
     andThen (store_idx (engine_c2h xdma_dev) (unat channel_id) engine) (\<lambda>es.
     let w = w\<lparr>xdevs := (xdevs w)(dev_private dat \<mapsto> xdma_dev\<lparr>engine_c2h := es\<rparr>)\<rparr> in
     andThen (queue_array (rx_queues dat)) (\<lambda>qs.
     andThen (store_idx qs (unat channel_id) p) (\<lambda>qs.
     set_eth_data dev (dat\<lparr>rx_queues := Some qs\<rparr>) w))))))"

text \<open>
  The part both directions share: \<open>d\<close> is the direction, \<open>tag\<close> the ring name and \<open>extra\<close>
  the size of the write-back area.  No allocation is checked; a NULL result is dereferenced.
\<close>

definition engine_setup :: "env \<Rightarrow> dma_data_direction \<Rightarrow> string \<Rightarrow> nat \<Rightarrow> u64 \<Rightarrow> u16 \<Rightarrow> world
    \<Rightarrow> fault + u64 \<times> world" where
  "engine_setup ev d tag extra dev channel_id w =
     andThen (eth_data dev w) (\<lambda>dat.
     let (p, w) = rte_alloc ev sizeof_xdma_engine w in
     if p = 0 then Inl NullDeref else
     let engine = zero_engine\<lparr>magic := XDMA_ENGINE_MAGIC_NUMBER, xdev := dev_private dat, dir := d,
           channel := ucast channel_id, streaming := 1, running := False,
           max_extra_adj := MAX_EXRTA_ADJ, desc_max := XDMA_DESC_MAX\<rparr>;
         sz = desc_max engine * of_nat sizeof_xdma_desc + of_nat extra;
         (mz_addr, w) = xdma_zone_reserve ev (data_port_id dat) tag (ucast channel_id) sz w;
         (sw, w) = rte_alloc ev (sw_ring_size (desc_max engine)) w
     in if mz_addr = 0 then Inl NullDeref else
     let w = format_zone ev mz_addr (unat (desc_max engine)) (unat sz) w;
         engine = engine\<lparr>mz := mz_addr, sw_ring := sw, desc_ring := mz_addr,
           virt2phy_offset := virt2phy ev sw - sw\<rparr>
     in andThen (xdma_desc_ring_init ev engine w) (\<lambda>w.
     let engine = engine\<lparr>poll_mode_addr_virt := mz_addr + ucast (desc_max engine) * of_nat sizeof_xdma_desc\<rparr>
     in Inr (p, w\<lparr>engines := (engines w)(p \<mapsto> engine)\<rparr>)))"

definition xdma_tx_engine_setup :: "env \<Rightarrow> u64 \<Rightarrow> u16 \<Rightarrow> u16 \<Rightarrow> world \<Rightarrow> fault + world" where
  "xdma_tx_engine_setup ev dev channel_id nb_desc w =
     andThen (engine_setup ev H2C ''TxHwRn'' sizeof_xdma_poll_wb dev channel_id w) (\<lambda>(p, w).
     install_tx dev channel_id p w)"

definition xdma_rx_engine_setup :: "env \<Rightarrow> u64 \<Rightarrow> u16 \<Rightarrow> u16 \<Rightarrow> world \<Rightarrow> fault + world" where
  "xdma_rx_engine_setup ev dev channel_id nb_desc w =
     andThen (engine_setup ev C2H ''RxHwRn'' (sizeof_xdma_poll_wb + sizeof_xdma_c2h_stream_wb)
                dev channel_id w) (\<lambda>(p, w).
     install_rx dev channel_id p w)"

section \<open>Zone names are unambiguous\<close>

primrec undec :: "nat \<Rightarrow> string \<Rightarrow> nat" where
  "undec n [] = n"
| "undec n (c # cs) = undec (10 * n + (of_char c - 48)) cs"

lemma undec_append: "undec n (xs @ ys) = undec (undec n xs) ys"
  by (induction xs arbitrary: n) auto

lemma undec_dec: "undec 0 (dec n) = n"
proof (induction n rule: dec.induct)
  case (1 n)
  then show ?case
    by (cases "n < 10") (simp_all add: dec.simps [of n] undec_append take_bit_nat_eq_self)
qed

lemma dec_inject [simp]: "dec m = dec n \<longleftrightarrow> m = n"
  by (metis undec_dec)

lemma dec_digits: "c \<in> set (dec n) \<Longrightarrow> c \<noteq> CHR ''_''"
proof (induction n rule: dec.induct)
  case (1 n)
  have neq: "char_of (48 + d) \<noteq> CHR ''_''" if "d < 10" for d :: nat
  proof
    assume "char_of (48 + d) = CHR ''_''"
    then have "of_char (char_of (48 + d) :: char) = (of_char CHR ''_'' :: nat)" by simp
    then show False using that by (simp add: take_bit_nat_eq_self)
  qed
  show ?case
  proof (cases "n < 10")
    case True
    with 1 neq [of n] show ?thesis by (simp add: dec.simps [of n])
  next
    case False
    with 1 neq [of "n mod 10"] show ?thesis by (simp add: dec.simps [of n]) metis
  qed
qed

lemma length_dec: "n < 10 ^ k \<Longrightarrow> 0 < k \<Longrightarrow> length (dec n) \<le> k"
proof (induction n arbitrary: k rule: dec.induct)
  case (1 n)
  show ?case
  proof (cases "n < 10")
    case True
    with "1.prems" show ?thesis by (simp add: dec.simps [of n])
  next
    case False
    from "1.prems" obtain k' where k: "k = Suc k'" by (cases k) auto
    with False "1.prems" have "0 < k'" by (cases k') auto
    note k = k this
    with "1.prems" have "n div 10 < 10 ^ k'" by (simp add: less_mult_imp_div_less ac_simps)
    with "1.IH" False k show ?thesis by (simp add: dec.simps [of n])
  qed
qed

lemma append_sep_inject:
  "c \<notin> set xs \<Longrightarrow> c \<notin> set xs' \<Longrightarrow> xs @ c # ys = xs' @ c # ys' \<longleftrightarrow> xs = xs' \<and> ys = ys'"
proof (induction xs arbitrary: xs')
  case Nil
  then show ?case by (cases xs') auto
next
  case (Cons x xs)
  then show ?case by (cases xs') auto
qed

section \<open>What setup does\<close>

definition fresh_engine :: "env \<Rightarrow> dma_data_direction \<Rightarrow> u16 \<Rightarrow> u64 \<Rightarrow> u64 \<Rightarrow> u64 \<Rightarrow> xdma_engine" where
  "fresh_engine ev d ch xd z s = zero_engine\<lparr>magic := XDMA_ENGINE_MAGIC_NUMBER, xdev := xd, dir := d,
     channel := ucast ch, streaming := 1, max_extra_adj := MAX_EXRTA_ADJ, desc_max := XDMA_DESC_MAX,
     mz := z, sw_ring := s, desc_ring := z, virt2phy_offset := virt2phy ev s - s,
     poll_mode_addr_virt := z + 1024\<rparr>"

definition setup_names_free :: "u16 \<Rightarrow> string \<Rightarrow> u16 \<Rightarrow> world \<Rightarrow> bool" where
  "setup_names_free port tag ch w \<longleftrightarrow> map_of (zones w) (zone_name driver_name tag port (ucast ch)) = None"

lemma setup_null:
  assumes "eth_data dev w = Inr dat"
    and "alloc ev (allocs w) = 0 \<or> alloc ev (Suc (allocs w)) = 0 \<or>
         \<not> setup_names_free (data_port_id dat) tag ch w"
  shows "engine_setup ev d tag extra dev ch w = Inl NullDeref"
  using assms
  by (auto simp: engine_setup_def rte_alloc_def xdma_zone_reserve_def rte_memzone_reserve_def
        setup_names_free_def Let_def)

lemma format_zone_sel [simp]:
  "engines (format_zone ev p n sz w) = engines w" "xdevs (format_zone ev p n sz w) = xdevs w"
  "hw_tables (format_zone ev p n sz w) = hw_tables w" "eth_devs (format_zone ev p n sz w) = eth_devs w"
  "zones (format_zone ev p n sz w) = zones w" "blocks (format_zone ev p n sz w) = blocks w"
  "allocs (format_zone ev p n sz w) = allocs w" "mmio (format_zone ev p n sz w) = mmio w"
  "rings (format_zone ev p n sz w) = (rings w)(p \<mapsto> map (junk_desc ev p) [0..<n])"
  by (simp_all add: format_zone_def)

text \<open>The state after a successful setup of the engine structure.\<close>

definition built_ring :: "env \<Rightarrow> u64 \<Rightarrow> xdma_desc list" where
  "built_ring ev z = map (\<lambda>i. init_desc ev z XDMA_DESC_MAX i (junk_desc ev z i)) [0..<32]"

definition setup_state :: "env \<Rightarrow> dma_data_direction \<Rightarrow> string \<Rightarrow> nat \<Rightarrow> rte_eth_dev_data \<Rightarrow> u16
    \<Rightarrow> world \<Rightarrow> world" where
  "setup_state ev d tag extra dat ch w =
     (let p = alloc ev (allocs w); z = alloc ev (Suc (allocs w)); s = alloc ev (Suc (Suc (allocs w)));
          blk = (blocks w)(p \<mapsto> sizeof_xdma_engine, z \<mapsto> 1024 + extra) in
      w\<lparr>engines := (engines w)(p \<mapsto> fresh_engine ev d ch (dev_private dat) z s),
        rings := (rings w)(z \<mapsto> built_ring ev z),
        words := words (format_zone ev z 32 (1024 + extra) w),
        blocks := (if s = 0 then blk else blk(s \<mapsto> 256)),
        zones := (zone_name driver_name tag (data_port_id dat) (ucast ch), z) # zones w,
        allocs := Suc (Suc (Suc (allocs w)))\<rparr>)"

lemma sizes: "unat (XDMA_DESC_MAX * of_nat sizeof_xdma_desc + (of_nat n :: u32)) = 1024 + n" if "n < 1000"
proof -
  have "XDMA_DESC_MAX * of_nat sizeof_xdma_desc + (of_nat n :: u32) = of_nat (1024 + n)"
    by (simp add: c_consts)
  then show ?thesis using that by (simp del: of_nat_add)
qed

lemma unat_DESC_MAX [simp]: "unat XDMA_DESC_MAX = 32"
  by (simp add: XDMA_DESC_MAX_def)

lemma sw_size [simp]: "sw_ring_size XDMA_DESC_MAX = 256"
  by (simp add: sw_ring_size_def XDMA_DESC_MAX_def)

lemma ring_init_built:
  assumes "desc_ring e = z" and "desc_max e = XDMA_DESC_MAX" and "z \<noteq> 0"
    and "rings w z = Some (map (junk_desc ev z) [0..<32])"
  shows "xdma_desc_ring_init ev e w = Inr (w\<lparr>rings := (rings w)(z \<mapsto> built_ring ev z)\<rparr>)"
proof -
  have "map_range 0 32 (init_desc ev z XDMA_DESC_MAX) (map (junk_desc ev z) [0..<32]) = built_ring ev z"
    by (rule nth_equalityI) (simp_all add: built_ring_def)
  then show ?thesis using assms ring_init_eq [of e w "map (junk_desc ev z) [0..<32]" ev] by simp
qed

lemma engine_setup_eq:
  assumes "eth_data dev w = Inr dat" and "alloc ev (allocs w) \<noteq> 0" and "alloc ev (Suc (allocs w)) \<noteq> 0"
    and "setup_names_free (data_port_id dat) tag ch w" and "extra < 1000"
  shows "engine_setup ev d tag extra dev ch w
    = Inr (alloc ev (allocs w), setup_state ev d tag extra dat ch w)"
proof -
  let ?p = "alloc ev (allocs w)" and ?z = "alloc ev (Suc (allocs w))"
  note init = ring_init_built [where z = ?z and ev = ev]
  from assms(4) have nm: "map_of (zones w)
      (zone_name driver_name tag (data_port_id dat) (ucast ch)) = None"
    by (simp add: setup_names_free_def)
  have mulz: "ucast XDMA_DESC_MAX * of_nat sizeof_xdma_desc = (1024 :: u64)"
    by (simp add: c_consts)
  show ?thesis
    using assms(1-3) nm
    by (simp add: engine_setup_def rte_alloc_def xdma_zone_reserve_def rte_memzone_reserve_def Let_def
          init sizes [OF assms(5)] mulz setup_state_def fresh_engine_def zero_engine_def
          format_zone_def)
qed

lemma dom_fold_upd: "dom (fold (\<lambda>k m. m(f k \<mapsto> g k)) ks m) = dom m \<union> f ` set ks"
  by (induction ks arbitrary: m) auto

lemma format_zone_words:
  "k < (sz - n * sizeof_xdma_desc) div 4 \<Longrightarrow>
   words (format_zone ev p n sz w) (desc_addr p n + of_nat (4 * k)) \<noteq> None"
  unfolding format_zone_def domIff [symmetric] by (simp add: dom_fold_upd)

lemma format_zone_wb:
  assumes "4 \<le> extra"
  shows "\<exists>v. words (format_zone ev z 32 (1024 + extra) w) (z + 1024) = Some v"
  using format_zone_words [of 0 "1024 + extra" 32 ev z w] assms
  by (simp add: c_consts desc_addr_def)

lemma built_ring_props:
  shows "length (built_ring ev z) = 32" and "linked (virt2phy ev) z (built_ring ev z)"
    and "chain (built_ring ev z) = built_ring ev z" and "\<forall>d \<in> set (built_ring ev z). blank d"
proof -
  let ?r = "built_ring ev z"
  show len: "length ?r = 32" by (simp add: built_ring_def)
  have nth: "?r ! i = init_desc ev z XDMA_DESC_MAX i (junk_desc ev z i)" if "i < 32" for i
    using that by (simp add: built_ring_def)
  show "linked (virt2phy ev) z ?r"
    by (simp add: linked_def len nth init_desc_spec)
  have "chain ?r = take (Suc 31) ?r"
    by (rule chain_first_stop) (simp_all add: len nth init_desc_spec)
  then show "chain ?r = ?r" by (simp add: len)
  show "\<forall>d \<in> set ?r. blank d"
    by (auto simp: in_set_conv_nth len nth init_desc_spec)
qed

text \<open>What the caller of a setup function has to provide.\<close>

definition setup_pre :: "env \<Rightarrow> u64 \<Rightarrow> string \<Rightarrow> u16 \<Rightarrow> rte_eth_dev_data \<Rightarrow> xdma_dev \<Rightarrow> u64 \<Rightarrow> world \<Rightarrow> bool" where
  "setup_pre ev dev tag ch dat xd a w \<longleftrightarrow>
     eth_data dev w = Inr dat \<and> deref (xdevs w) (dev_private dat) = Inr xd \<and>
     bar_mapped config_bar_idx (dev_private dat) a w \<and>
     hw_access_of (dev_private dat) w = Inr xdma_hw_access_init \<and>
     alloc ev (allocs w) \<noteq> 0 \<and> alloc ev (Suc (allocs w)) \<noteq> 0 \<and>
     alloc ev (Suc (allocs w)) + 1024 \<noteq> 0 \<and> setup_names_free (data_port_id dat) tag ch w"

lemma setup_pre_data:
  assumes "setup_pre ev dev tag ch dat xd a w"
  obtains d where "dev \<noteq> 0" "eth_devs w dev = Some d" "data d = Some dat"
    "dev_private dat \<noteq> 0" "xdevs w (dev_private dat) = Some xd"
  using assms
  by (auto simp: setup_pre_def eth_data_def andThen_eq_Inr deref_eq_Inr split: option.splits)

lemma engine_at_setup:
  assumes pre: "setup_pre ev dev tag ch dat xd a w"
    and ex: "4 \<le> extra" "extra < 1000"
    and xd': "bar xd' = bar xd" "config_bar_idx xd' = config_bar_idx xd" "hw_access xd' = hw_access xd"
    and w': "w' = (setup_state ev d tag extra dat ch w)\<lparr>xdevs := (xdevs w)(dev_private dat \<mapsto> xd'), eth_devs := ds\<rparr>"
  shows "engine_at (alloc ev (allocs w)) a
    (fresh_engine ev d ch (dev_private dat) (alloc ev (Suc (allocs w))) (alloc ev (Suc (Suc (allocs w)))))
    (built_ring ev (alloc ev (Suc (allocs w)))) w'"
proof -
  have "dev_private dat \<noteq> 0" "xdevs w (dev_private dat) = Some xd"
    using setup_pre_data [OF pre] by metis+
  then have "bar_mapped config_bar_idx (dev_private dat) a w'"
    and "hw_access_of (dev_private dat) w' = Inr xdma_hw_access_init"
    using pre xd' w'
    by (simp_all add: setup_pre_def bar_mapped_def bar_base_def hw_access_of_def setup_state_def Let_def)
  moreover have "\<exists>v. words w' (alloc ev (Suc (allocs w)) + 1024) = Some v"
    using format_zone_wb [OF ex(1)] w' by (simp add: setup_state_def Let_def)
  ultimately show ?thesis
    using pre w' built_ring_props(1) [of ev "alloc ev (Suc (allocs w))"]
    by (simp add: engine_at_def setup_pre_def fresh_engine_def zero_engine_def setup_state_def Let_def)
       (simp add: XDMA_DESC_MAX_def)
qed

lemma tx_setup_engine:
  assumes "setup_pre ev dev ''TxHwRn'' ch dat xd a w"
    and "unat ch < length (engine_h2c xd)" and "tx_queues dat = Some qs" and "unat ch < length qs"
  shows "\<exists>w' e dat' xd'. xdma_tx_engine_setup ev dev ch nb_desc w = Inr w' \<and>
    engine_at (alloc ev (allocs w)) a e (built_ring ev (alloc ev (Suc (allocs w)))) w' \<and>
    desc_ring e = alloc ev (Suc (allocs w)) \<and> mz e = alloc ev (Suc (allocs w)) \<and>
    sw_ring e = alloc ev (Suc (Suc (allocs w))) \<and> (mz e = sw_ring e \<or> blocks w' (mz e) = Some 1028) \<and>
    dir e = H2C \<and> \<not> running e \<and> desc_used e = 0 \<and> desc_max e = 32 \<and>
    eth_data dev w' = Inr dat' \<and> tx_queues dat' = Some (qs[unat ch := alloc ev (allocs w)]) \<and>
    xdevs w' (dev_private dat) = Some xd' \<and> engine_h2c xd' ! unat ch = e"
proof -
  let ?p = "alloc ev (allocs w)"
  let ?e = "fresh_engine ev H2C ch (dev_private dat) (alloc ev (Suc (allocs w))) (alloc ev (Suc (Suc (allocs w))))"
  let ?s = "setup_state ev H2C ''TxHwRn'' sizeof_xdma_poll_wb dat ch w"
  obtain d where d: "dev \<noteq> 0" "eth_devs w dev = Some d" "data d = Some dat"
    "dev_private dat \<noteq> 0" "xdevs w (dev_private dat) = Some xd"
    using setup_pre_data [OF assms(1)] by metis
  let ?xd = "xd\<lparr>engine_h2c := (engine_h2c xd)[unat ch := ?e]\<rparr>"
  let ?w = "?s\<lparr>xdevs := (xdevs w)(dev_private dat \<mapsto> ?xd), eth_devs := (eth_devs w)(dev \<mapsto>
      d\<lparr>data := Some (dat\<lparr>tx_queues := Some (qs[unat ch := ?p])\<rparr>)\<rparr>)\<rparr>"
  have sel: "eth_devs ?s = eth_devs w" "xdevs ?s = xdevs w" "engines ?s ?p = Some ?e"
    by (simp_all add: setup_state_def Let_def)
  have "engine_setup ev H2C ''TxHwRn'' sizeof_xdma_poll_wb dev ch w = Inr (?p, ?s)"
    using assms(1) by (intro engine_setup_eq) (auto simp: setup_pre_def sizeof_xdma_poll_wb_def)
  then have "xdma_tx_engine_setup ev dev ch nb_desc w = Inr ?w"
    using assms d sel
    by (simp add: xdma_tx_engine_setup_def install_tx_def eth_data_def set_eth_data_def
        queue_array_def setup_pre_def Let_def)
  moreover have "engine_at ?p a ?e (built_ring ev (alloc ev (Suc (allocs w)))) ?w"
    by (rule engine_at_setup [OF assms(1), where extra = sizeof_xdma_poll_wb and xd' = ?xd])
       (simp_all add: sizeof_xdma_poll_wb_def)
  ultimately show ?thesis
    using assms d
    by (intro exI [of _ ?w] exI [of _ ?e] exI [of _ "dat\<lparr>tx_queues := Some (qs[unat ch := ?p])\<rparr>"]
          exI [of _ ?xd])
       (simp add: fresh_engine_def zero_engine_def eth_data_def XDMA_DESC_MAX_def setup_state_def Let_def
          sizeof_xdma_poll_wb_def sizeof_xdma_c2h_stream_wb_def)
qed

lemma rx_setup_engine:
  assumes "setup_pre ev dev ''RxHwRn'' ch dat xd a w"
    and "unat ch < length (engine_c2h xd)" and "rx_queues dat = Some qs" and "unat ch < length qs"
  shows "\<exists>w' e dat' xd'. xdma_rx_engine_setup ev dev ch nb_desc w = Inr w' \<and>
    engine_at (alloc ev (allocs w)) a e (built_ring ev (alloc ev (Suc (allocs w)))) w' \<and>
    desc_ring e = alloc ev (Suc (allocs w)) \<and> mz e = alloc ev (Suc (allocs w)) \<and>
    sw_ring e = alloc ev (Suc (Suc (allocs w))) \<and> (mz e = sw_ring e \<or> blocks w' (mz e) = Some 1036) \<and>
    dir e = C2H \<and> \<not> running e \<and> desc_used e = 0 \<and> desc_max e = 32 \<and>
    eth_data dev w' = Inr dat' \<and> rx_queues dat' = Some (qs[unat ch := alloc ev (allocs w)]) \<and>
    xdevs w' (dev_private dat) = Some xd' \<and> engine_c2h xd' ! unat ch = e"
proof -
  let ?p = "alloc ev (allocs w)"
  let ?x = "sizeof_xdma_poll_wb + sizeof_xdma_c2h_stream_wb"
  let ?e = "fresh_engine ev C2H ch (dev_private dat) (alloc ev (Suc (allocs w))) (alloc ev (Suc (Suc (allocs w))))"
  let ?s = "setup_state ev C2H ''RxHwRn'' ?x dat ch w"
  obtain d where d: "dev \<noteq> 0" "eth_devs w dev = Some d" "data d = Some dat"
    "dev_private dat \<noteq> 0" "xdevs w (dev_private dat) = Some xd"
    using setup_pre_data [OF assms(1)] by metis
  let ?xd = "xd\<lparr>engine_c2h := (engine_c2h xd)[unat ch := ?e]\<rparr>"
  let ?w = "?s\<lparr>xdevs := (xdevs w)(dev_private dat \<mapsto> ?xd), eth_devs := (eth_devs w)(dev \<mapsto>
      d\<lparr>data := Some (dat\<lparr>rx_queues := Some (qs[unat ch := ?p])\<rparr>)\<rparr>)\<rparr>"
  have sel: "eth_devs ?s = eth_devs w" "xdevs ?s = xdevs w" "engines ?s ?p = Some ?e"
    by (simp_all add: setup_state_def Let_def)
  have "engine_setup ev C2H ''RxHwRn'' ?x dev ch w = Inr (?p, ?s)"
    using assms(1) by (intro engine_setup_eq) (auto simp: setup_pre_def sizeof_xdma_poll_wb_def sizeof_xdma_c2h_stream_wb_def)
  then have "xdma_rx_engine_setup ev dev ch nb_desc w = Inr ?w"
    using assms d sel
    by (simp add: xdma_rx_engine_setup_def install_rx_def eth_data_def set_eth_data_def
        queue_array_def setup_pre_def Let_def)
  moreover have "engine_at ?p a ?e (built_ring ev (alloc ev (Suc (allocs w)))) ?w"
    by (rule engine_at_setup [OF assms(1), where extra = ?x and xd' = ?xd])
       (simp_all add: sizeof_xdma_poll_wb_def sizeof_xdma_c2h_stream_wb_def)
  ultimately show ?thesis
    using assms d
    by (intro exI [of _ ?w] exI [of _ ?e] exI [of _ "dat\<lparr>rx_queues := Some (qs[unat ch := ?p])\<rparr>"]
          exI [of _ ?xd])
       (simp add: fresh_engine_def zero_engine_def eth_data_def XDMA_DESC_MAX_def setup_state_def Let_def
          sizeof_xdma_poll_wb_def sizeof_xdma_c2h_stream_wb_def)
qed

section \<open>Properties\<close>

text \<open>
  C30. Setting up an H2C queue on a prepared device yields an idle, well-formed H2C engine: its
  ring is the freshly built chain of 32 descriptors, the queue array holds the pointer to
  the engine, and the device holds a copy of the same structure.
\<close>

theorem tx_setup_installs_engine:
  assumes "setup_pre ev dev ''TxHwRn'' ch dat xd a w"
    and "unat ch < length (engine_h2c xd)" and "tx_queues dat = Some qs" and "unat ch < length qs"
  shows "\<exists>w' e dat' xd'. xdma_tx_engine_setup ev dev ch nb_desc w = Inr w' \<and>
    engine_at (alloc ev (allocs w)) a e (built_ring ev (alloc ev (Suc (allocs w)))) w' \<and>
    dir e = H2C \<and> \<not> running e \<and> desc_used e = 0 \<and> desc_max e = 32 \<and>
    eth_data dev w' = Inr dat' \<and> tx_queues dat' = Some (qs[unat ch := alloc ev (allocs w)]) \<and>
    xdevs w' (dev_private dat) = Some xd' \<and> engine_h2c xd' ! unat ch = e"
  using tx_setup_engine [OF assms, of nb_desc] by blast

text \<open>
  Setting up a C2H queue does the same in the other direction: a well-formed idle engine
  with a freshly built chain, reachable through the receive queue array and copied into the
  device.
\<close>

theorem rx_setup_installs_engine:
  assumes "setup_pre ev dev ''RxHwRn'' ch dat xd a w"
    and "unat ch < length (engine_c2h xd)" and "rx_queues dat = Some qs" and "unat ch < length qs"
  shows "\<exists>w' e dat' xd'. xdma_rx_engine_setup ev dev ch nb_desc w = Inr w' \<and>
    engine_at (alloc ev (allocs w)) a e (built_ring ev (alloc ev (Suc (allocs w)))) w' \<and>
    dir e = C2H \<and> \<not> running e \<and> desc_used e = 0 \<and> desc_max e = 32 \<and>
    eth_data dev w' = Inr dat' \<and> rx_queues dat' = Some (qs[unat ch := alloc ev (allocs w)]) \<and>
    xdevs w' (dev_private dat) = Some xd' \<and> engine_c2h xd' ! unat ch = e"
  using rx_setup_engine [OF assms, of nb_desc] by blast

text \<open>
  Setup does not check its allocations: when the engine structure or the memzone cannot
  be allocated, or the memzone's name is still taken, the call ends in a NULL dereference
  instead of an error code.
\<close>

theorem setup_unchecked_allocation:
  assumes "eth_data dev w = Inr dat"
    and "alloc ev (allocs w) = 0 \<or> alloc ev (Suc (allocs w)) = 0 \<or>
         map_of (zones w) (zone_name driver_name ''TxHwRn'' (data_port_id dat) (ucast ch)) \<noteq> None"
  shows "xdma_tx_engine_setup ev dev ch nb_desc w = Inl NullDeref"
  using setup_null [OF assms(1), of ev "''TxHwRn''" ch] assms(2)
  by (auto simp: xdma_tx_engine_setup_def setup_names_free_def)

lemma engine_setup_inv:
  assumes "engine_setup ev d tag extra dev ch w = Inr (p, w')" and "extra < 1000"
  obtains dat where "eth_data dev w = Inr dat" "p = alloc ev (allocs w)"
    "w' = setup_state ev d tag extra dat ch w"
proof -
  from assms(1) obtain dat where dat: "eth_data dev w = Inr dat"
    by (auto simp: engine_setup_def andThen_eq_Inr)
  with assms(1) have "alloc ev (allocs w) \<noteq> 0" "alloc ev (Suc (allocs w)) \<noteq> 0"
    "setup_names_free (data_port_id dat) tag ch w"
    using setup_null [OF dat, of ev tag ch d extra] by auto
  then show ?thesis using engine_setup_eq [OF dat _ _ _ assms(2)] assms(1) that dat by simp
qed

lemma install_tx_frame:
  assumes "install_tx dev ch p w = Inr w'"
  shows "zones w' = zones w" and "eth_data dev w = Inr dat \<Longrightarrow>
    \<exists>dat'. eth_data dev w' = Inr dat' \<and> data_port_id dat' = data_port_id dat"
proof -
  from assms obtain dat xd es qs qs' where
    dat: "eth_data dev w = Inr dat" "tx_queues dat = Some qs" and
    w': "set_eth_data dev (dat\<lparr>tx_queues := Some qs'\<rparr>)
      (w\<lparr>xdevs := (xdevs w)(dev_private dat \<mapsto> xd\<lparr>engine_h2c := es\<rparr>)\<rparr>) = Inr w'"
    by (auto simp: install_tx_def andThen_eq_Inr Let_def queue_array_def split: option.splits)
  then show "zones w' = zones w" by (auto simp: set_eth_data_def andThen_eq_Inr)
  show "\<exists>dat'. eth_data dev w' = Inr dat' \<and> data_port_id dat' = data_port_id dat"
    if "eth_data dev w = Inr dat" for dat
    using w' that dat(1) by (auto simp: set_eth_data_def eth_data_def andThen_eq_Inr deref_eq_Inr)
qed

text \<open>
  A transmit queue cannot be set up a second time before its memzone is freed: the name
  of the zone is taken, the reservation fails, and the unchecked result is dereferenced.
\<close>

theorem tx_setup_again_crashes:
  assumes "xdma_tx_engine_setup ev dev ch nb_desc w = Inr w'"
  shows "xdma_tx_engine_setup ev' dev ch nb_desc' w' = Inl NullDeref"
proof -
  from assms obtain p u where u: "engine_setup ev H2C ''TxHwRn'' sizeof_xdma_poll_wb dev ch w = Inr (p, u)"
    and w': "install_tx dev ch p u = Inr w'"
    by (auto simp: xdma_tx_engine_setup_def andThen_eq_Inr)
  from u obtain dat where dat: "eth_data dev w = Inr dat"
    and us: "u = setup_state ev H2C ''TxHwRn'' sizeof_xdma_poll_wb dat ch w"
    by (rule engine_setup_inv) (simp add: sizeof_xdma_poll_wb_def)
  from dat us have "eth_data dev u = Inr dat"
    by (simp add: setup_state_def eth_data_def Let_def)
  from install_tx_frame [OF w'] this obtain dat' where dat': "eth_data dev w' = Inr dat'"
    "data_port_id dat' = data_port_id dat" and "zones w' = zones u" by blast
  then have "\<not> setup_names_free (data_port_id dat') ''TxHwRn'' ch w'"
    by (simp add: setup_names_free_def us setup_state_def Let_def)
  then show ?thesis
    using setup_null [OF dat'(1), of ev' "''TxHwRn''" ch] by (simp add: xdma_tx_engine_setup_def)
qed

text \<open>
  Zone names identify queues: with the two ring names of this driver, different
  (ring, port, channel) triples have different memzone names, and no name is cut off by the
  32-byte name buffer.
\<close>

theorem zone_name_injective:
  assumes "ring \<in> {''TxHwRn'', ''RxHwRn''}" and "ring' \<in> {''TxHwRn'', ''RxHwRn''}"
    and "unat ch < 65536" and "unat ch' < 65536"
  shows "zone_name driver_name ring port ch = zone_name driver_name ring' port' ch' \<longleftrightarrow>
    ring = ring' \<and> port = port' \<and> ch = ch'"
proof -
  have full: "zone_name driver_name g q c = driver_name @ g @ dec (unat q) @ ''_'' @ dec (unat c)"
    if "length g = 6" "unat c < 65536" for g :: string and q :: u16 and c :: u32
    using that length_dec [of "unat q" 5] length_dec [of "unat c" 5] unat_u16_less [of q]
    by (simp add: zone_name_def driver_name_def)
  have len: "length ring = 6" "length ring' = 6" using assms(1,2) by auto
  have under: "CHR ''_'' \<notin> set (dec (unat q))" for q :: u16 using dec_digits by blast
  show ?thesis
    using full [OF len(1) assms(3)] full [OF len(2) assms(4)] len
    by (simp add: append_sep_inject under word_unat_eq_iff)
qed

end
