(* ===== verification/Tx.thy ===== *)
theory Tx
  imports Engine_Setup
begin

text \<open>
  The transmit path of \<open>xdma_rxtx.c\<close>: filling the ring from a burst of packets, starting
  the H2C engine, waiting for the hardware's completion count, stopping the engine.

  The hardware is the sequence \<open>hw\<close> of values that successive loads of the write-back word
  return while the driver polls it.
\<close>

section \<open>Operations\<close>

text \<open>A store through the descriptor pointer \<open>&engine->desc_ring[i]\<close>.\<close>

definition desc_at :: "u64 \<Rightarrow> nat \<Rightarrow> (xdma_desc \<Rightarrow> xdma_desc) \<Rightarrow> world \<Rightarrow> fault + world" where
  "desc_at p i f w =
     andThen (deref (engines w) p) (\<lambda>engine. update_ring (desc_ring engine) (modify_idx i f) w)"

definition data_iova :: "rte_mbuf \<Rightarrow> u64" where
  "data_iova mb = buf_iova mb + ucast (data_off mb)"

text \<open>The fields \<open>xdma_h2c_desc_set\<close> writes; \<open>final\<close> marks the last segment of a packet.\<close>

definition h2c_fill :: "bool \<Rightarrow> rte_mbuf \<Rightarrow> xdma_desc \<Rightarrow> xdma_desc" where
  "h2c_fill final mb desc =
     (let desc = desc\<lparr>len := ucast (data_len mb), src_addr_lo := addr_lo (data_iova mb),
                      src_addr_hi := addr_hi (data_iova mb)\<rparr> in
      if final then xdma_desc_control_set desc (XDMA_DESC_EOP OR XDMA_DESC_COMPLETED) else desc)"

fun h2c_desc_loop :: "nat \<Rightarrow> u64 \<Rightarrow> u64 \<Rightarrow> world \<Rightarrow> fault + world" where
  "h2c_desc_loop 0 mb dev_hndl w = Inr w"
| "h2c_desc_loop (Suc nsegs) mb dev_hndl w =
     (if mb = 0 then Inr w else
      andThen (get_desc dev_hndl w) (\<lambda>(i, w).
      andThen (deref (mbufs w) mb) (\<lambda>m.
      andThen (desc_at dev_hndl i (h2c_fill (nsegs = 0) m) w) (\<lambda>w.
      h2c_desc_loop nsegs (mb_next m) dev_hndl w))))"

definition xdma_h2c_desc_set :: "u64 \<Rightarrow> u64 \<Rightarrow> world \<Rightarrow> fault + world" where
  "xdma_h2c_desc_set dev_hndl mb w =
     andThen (deref (mbufs w) mb) (\<lambda>m. h2c_desc_loop (unat (nb_segs m)) mb dev_hndl w)"

text \<open>
  The fill loop of \<open>xdma_xmit_pkts\<close>: \<open>n\<close> packets remain, \<open>count\<close> are queued and \<open>avail\<close>
  descriptors are left; it ends early at the first packet that does not fit.
\<close>

fun tx_fill :: "u64 list \<Rightarrow> nat \<Rightarrow> nat \<Rightarrow> int \<Rightarrow> u64 \<Rightarrow> world \<Rightarrow> fault + nat \<times> world" where
  "tx_fill tx_pkts 0 count avail engine w = Inr (count, w)"
| "tx_fill tx_pkts (Suc n) count avail engine w =
     andThen (load_idx tx_pkts count) (\<lambda>mb.
     andThen (deref (mbufs w) mb) (\<lambda>m.
     let nsegs = int (unat (nb_segs m)) in
     if nsegs > avail then Inr (count, w)
     else andThen (xdma_h2c_desc_set engine mb w) (\<lambda>w.
          tx_fill tx_pkts n (Suc count) (avail - nsegs) engine w)))"

definition adjacency_loop :: "nat \<Rightarrow> u64 \<Rightarrow> u32 \<Rightarrow> world \<Rightarrow> fault + world" where
  "adjacency_loop count engine dmax =
     for_loop 0 (count - 1) (\<lambda>i w.
       if dmax = 0 then Inl DivByZero
       else desc_at engine (i mod unat dmax) (\<lambda>d. xdma_desc_adjacent_set d (of_nat (count - 2 - i))) w)"

text \<open>Everything up to the start of the engine.\<close>

definition xmit_prepare :: "u64 \<Rightarrow> u64 list \<Rightarrow> u16 \<Rightarrow> world \<Rightarrow> fault + nat \<times> world" where
  "xmit_prepare p tx_pkts nb_pkts w =
     andThen (deref (engines w) p) (\<lambda>engine.
     let avail = sint (desc_max engine);
         avail = (if avail < 0 then sint (desc_max engine + desc_max engine) else avail)
     in andThen (tx_fill tx_pkts (unat nb_pkts) 0 avail p w) (\<lambda>(count, w).
     andThen (deref (engines w) p) (\<lambda>engine.
     andThen (desc_at p (unat (desc_used engine))
                (\<lambda>d. xdma_desc_control_set d (XDMA_DESC_COMPLETED OR XDMA_DESC_STOPPED)) w) (\<lambda>w.
     andThen (adjacency_loop count p (desc_max engine) w) (\<lambda>w. Inr (count, w))))))"

text \<open>The polling loop: the index of the load that ended it, or nothing if it never ends.\<close>

partial_function (option) tx_wait :: "(nat \<Rightarrow> u32) \<Rightarrow> u16 \<Rightarrow> nat \<Rightarrow> nat option" where
  "tx_wait hw nb_pkts k =
     (if hw k AND 0xFFFFFF = ucast nb_pkts then Some k else tx_wait hw nb_pkts (Suc k))"

text \<open>The result is a \<open>uint16_t\<close>, so the \<open>-1\<close> of a busy engine is 65535.\<close>

definition xdma_xmit_pkts :: "(nat \<Rightarrow> u32) \<Rightarrow> u64 \<Rightarrow> u64 list \<Rightarrow> u16 \<Rightarrow> world \<Rightarrow> fault + u16 \<times> world" where
  "xdma_xmit_pkts hw p tx_pkts nb_pkts w =
     andThen (deref (engines w) p) (\<lambda>engine.
     let xdma_dev = xdev engine in
     if running engine then Inr (- 1, w)
     else let w = w\<lparr>engines := (engines w)(p \<mapsto> engine\<lparr>running := True\<rparr>)\<rparr> in
     andThen (xmit_prepare p tx_pkts nb_pkts w) (\<lambda>(count, w).
     andThen (call_tx_start xdma_dev p (desc_addr (desc_ring engine) 0) (of_int (int count - 2)) w) (\<lambda>w.
     andThen (deref (words w) (poll_mode_addr_virt engine)) (\<lambda>_.
     case tx_wait hw nb_pkts 0 of None \<Rightarrow> Inl Hang
     | Some k \<Rightarrow>
         let w = w\<lparr>words := (words w)(poll_mode_addr_virt engine \<mapsto> hw k)\<rparr> in
         andThen (call_tx_stop xdma_dev p w) (\<lambda>w. Inr (nb_pkts, w))))))"

text \<open>
  \<open>reclaim_engine_mbuf\<close>, whose only call is commented out: the software ring is a list of
  mbuf pointers; the result is the return value, the mbufs given back to their pool and the
  new ring.
\<close>

definition reclaim_engine_mbuf :: "u64 list \<Rightarrow> u32 \<Rightarrow> u16 \<Rightarrow> fault + int \<times> u64 list \<times> u64 list" where
  "reclaim_engine_mbuf sw used free_cnt =
     (let fl_desc = sint used in
      if fl_desc = 0 then Inr (0, [], sw)
      else let fl_desc = (if free_cnt \<noteq> 0 \<and> fl_desc > int (unat free_cnt) then int (unat free_cnt) else fl_desc) in
      if 0 < fl_desc then
        let fl_desc_cnt = unat (word_of_int fl_desc :: u16) in
        if length sw < fl_desc_cnt then Inl OutOfBounds
        else Inr (fl_desc, take fl_desc_cnt sw, replicate fl_desc_cnt 0 @ drop fl_desc_cnt sw)
      else Inr (fl_desc, [], sw))"

section \<open>The polling loop\<close>

lemma tx_wait_found:
  assumes "hw j AND 0xFFFFFF = ucast nb" and "k \<le> j"
    and "\<And>i. k \<le> i \<Longrightarrow> i < j \<Longrightarrow> hw i AND 0xFFFFFF \<noteq> ucast nb"
  shows "tx_wait hw nb k = Some j"
  using assms(2,3)
proof (induction "j - k" arbitrary: k)
  case 0
  then show ?case using assms(1) by (simp add: tx_wait.simps)
next
  case (Suc m)
  then have "hw k AND 0xFFFFFF \<noteq> ucast nb" by simp
  then have "tx_wait hw nb k = tx_wait hw nb (Suc k)" by (subst tx_wait.simps) simp
  also have "\<dots> = Some j" using Suc by (intro Suc.hyps(1)) auto
  finally show ?case .
qed

lemma tx_wait_Some:
  assumes "tx_wait hw nb k = Some j"
  shows "hw j AND 0xFFFFFF = ucast nb \<and> k \<le> j"
proof (rule tx_wait.raw_induct [where P = "\<lambda>hw nb k j. hw j AND 0xFFFFFF = ucast nb \<and> k \<le> j", OF _ assms])
  fix f :: "(nat \<Rightarrow> u32) \<Rightarrow> u16 \<Rightarrow> nat \<Rightarrow> nat option" and hw nb k j
  assume IH: "\<And>hw nb k j. f hw nb k = Some j \<Longrightarrow> hw j AND 0xFFFFFF = ucast nb \<and> k \<le> j"
    and eq: "(if hw k AND 0xFFFFFF = ucast nb then Some k else f hw nb (Suc k)) = Some j"
  show "hw j AND 0xFFFFFF = ucast nb \<and> k \<le> j"
    using IH [of hw nb "Suc k" j] eq by (auto split: if_splits)
qed

lemma tx_wait_None_iff: "tx_wait hw nb 0 = None \<longleftrightarrow> (\<forall>k. hw k AND 0xFFFFFF \<noteq> ucast nb)"
proof
  assume none: "tx_wait hw nb 0 = None"
  show "\<forall>k. hw k AND 0xFFFFFF \<noteq> ucast nb"
  proof (rule ccontr)
    assume "\<not> ?thesis"
    then have ex: "\<exists>k. hw k AND 0xFFFFFF = ucast nb" by simp
    then have "tx_wait hw nb 0 = Some (LEAST k. hw k AND 0xFFFFFF = ucast nb)"
      by (intro tx_wait_found) (auto intro: LeastI dest: not_less_Least)
    with none show False by simp
  qed
next
  assume "\<forall>k. hw k AND 0xFFFFFF \<noteq> ucast nb"
  then show "tx_wait hw nb 0 = None" using tx_wait_Some by (metis not_Some_eq)
qed

section \<open>Packets and the descriptors they need\<close>

text \<open>The first \<open>n\<close> segments of the packet at \<open>mb\<close>, as far as the chain goes.\<close>

fun seg_chain :: "(u64 \<rightharpoonup> rte_mbuf) \<Rightarrow> nat \<Rightarrow> u64 \<Rightarrow> rte_mbuf list" where
  "seg_chain m 0 mb = []"
| "seg_chain m (Suc n) mb =
     (if mb = 0 then [] else case m mb of None \<Rightarrow> [] | Some x \<Rightarrow> x # seg_chain m n (mb_next x))"

definition segs_of :: "(u64 \<rightharpoonup> rte_mbuf) \<Rightarrow> u64 \<Rightarrow> rte_mbuf list" where
  "segs_of m mb = (case m mb of None \<Rightarrow> [] | Some x \<Rightarrow> seg_chain m (unat (nb_segs x)) mb)"

text \<open>A packet whose chain has as many segments as its header says, and at least one.\<close>

definition pkt_ok :: "(u64 \<rightharpoonup> rte_mbuf) \<Rightarrow> u64 \<Rightarrow> bool" where
  "pkt_ok m mb \<longleftrightarrow> mb \<noteq> 0 \<and> (case m mb of None \<Rightarrow> False
     | Some x \<Rightarrow> nb_segs x \<noteq> 0 \<and> length (seg_chain m (unat (nb_segs x)) mb) = unat (nb_segs x))"

fun pkt_fills :: "rte_mbuf list \<Rightarrow> (xdma_desc \<Rightarrow> xdma_desc) list" where
  "pkt_fills [] = []"
| "pkt_fills (x # xs) = h2c_fill (xs = []) x # pkt_fills xs"

definition burst_fills :: "(u64 \<rightharpoonup> rte_mbuf) \<Rightarrow> u64 list \<Rightarrow> (xdma_desc \<Rightarrow> xdma_desc) list" where
  "burst_fills m pkts = concat (map (pkt_fills \<circ> segs_of m) pkts)"

definition burst_segs :: "(u64 \<rightharpoonup> rte_mbuf) \<Rightarrow> u64 list \<Rightarrow> rte_mbuf list" where
  "burst_segs m pkts = concat (map (segs_of m) pkts)"

text \<open>How many leading packets fit into \<open>avail\<close> descriptors.\<close>

fun fitting :: "(u64 \<rightharpoonup> rte_mbuf) \<Rightarrow> nat \<Rightarrow> u64 list \<Rightarrow> nat" where
  "fitting m avail [] = 0"
| "fitting m avail (mb # pkts) =
     (let n = length (segs_of m mb) in if n > avail then 0 else Suc (fitting m (avail - n) pkts))"

definition apply_fills :: "(xdma_desc \<Rightarrow> xdma_desc) list \<Rightarrow> xdma_desc list \<Rightarrow> xdma_desc list" where
  "apply_fills fs r = map_range 0 (length fs) (\<lambda>i. fs ! i) r"

lemma length_apply_fills [simp]: "length (apply_fills fs r) = length r"
  by (simp add: apply_fills_def)

lemma apply_fills_Nil [simp]: "apply_fills [] r = r"
  by (simp add: apply_fills_def)

lemma nth_apply_fills:
  "i < length r \<Longrightarrow> apply_fills fs r ! i = (if i < length fs then (fs ! i) (r ! i) else r ! i)"
  by (simp add: apply_fills_def)

lemma apply_fills_snoc:
  "length fs < length r \<Longrightarrow>
   (apply_fills fs r)[length fs := f (apply_fills fs r ! length fs)] = apply_fills (fs @ [f]) r"
  by (rule nth_equalityI) (auto simp: nth_apply_fills nth_list_update nth_append less_Suc_eq)

lemma length_pkt_fills [simp]: "length (pkt_fills xs) = length xs"
  by (induction xs) auto

lemma length_burst_fills: "length (burst_fills m pkts) = length (burst_segs m pkts)"
  by (induction pkts) (auto simp: burst_fills_def burst_segs_def)

lemma pkt_ok_segs:
  assumes "pkt_ok m mb"
  obtains x where "mb \<noteq> 0" "m mb = Some x" "length (segs_of m mb) = unat (nb_segs x)"
    "segs_of m mb = seg_chain m (unat (nb_segs x)) mb" "0 < unat (nb_segs x)"
  using assms by (auto simp: pkt_ok_def segs_of_def unat_gt_0 split: option.splits)

section \<open>Filling the ring\<close>

text \<open>The state after the first \<open>length fs\<close> descriptors were written by \<open>fs\<close>.\<close>

definition filled :: "u64 \<Rightarrow> xdma_engine \<Rightarrow> xdma_desc list \<Rightarrow> (xdma_desc \<Rightarrow> xdma_desc) list \<Rightarrow> world \<Rightarrow> world" where
  "filled p e r fs w = w\<lparr>
     engines := (engines w)(p \<mapsto> e\<lparr>desc_used := of_nat (length fs mod unat (desc_max e))\<rparr>),
     rings := (rings w)(desc_ring e \<mapsto> apply_fills fs r)\<rparr>"

lemma filled_mbufs [simp]: "mbufs (filled p e r fs w) = mbufs w"
  by (simp add: filled_def)

lemma engine_at_filled:
  assumes "engine_at p a e r w"
  shows "engine_at p a (e\<lparr>desc_used := of_nat (length fs mod unat (desc_max e))\<rparr>)
           (apply_fills fs r) (filled p e r fs w)"
proof -
  have m: "0 < unat (desc_max e)" using assms by (simp add: engine_at_def unat_gt_0)
  then have "unat (of_nat (length fs mod unat (desc_max e)) :: u32) = length fs mod unat (desc_max e)"
    using unat_u32_less [of "desc_max e"]
    by (intro unat_of_nat_u32) (simp add: order_less_trans [OF mod_less_divisor])
  then show ?thesis using assms m by (simp add: engine_at_def filled_def word_le_nat_alt less_imp_le)
qed

lemma filled_Nil:
  "engine_at p a e r w \<Longrightarrow> desc_used e = 0 \<Longrightarrow> filled p e r [] w = w"
  by (simp add: filled_def engine_at_def fun_upd_idem)

lemma one_slot:
  assumes at: "engine_at p a e r w" and room: "length fs < unat (desc_max e)"
  shows "\<exists>u. get_desc p (filled p e r fs w) = Inr (length fs, u) \<and> mbufs u = mbufs w \<and>
    desc_at p (length fs) f u = Inr (filled p e r (fs @ [f]) w)"
proof -
  let ?e = "e\<lparr>desc_used := of_nat (length fs)\<rparr>"
  let ?e' = "e\<lparr>desc_used := of_nat (length fs + 1) mod desc_max e\<rparr>"
  let ?u = "(filled p e r fs w)\<lparr>engines := (engines w)(p \<mapsto> ?e')\<rparr>"
  have u: "unat (of_nat (length fs) :: u32) = length fs"
    using room unat_u32_less [of "desc_max e"] by (intro unat_of_nat_u32) simp
  have len: "length r = unat (desc_max e)" using at by (simp add: engine_at_def)
  have "of_nat (length fs + 1) mod desc_max e = (of_nat ((length fs + 1) mod unat (desc_max e)) :: u32)"
  proof (rule word_unat_eq_iff [THEN iffD2])
    have "unat (of_nat (length fs + 1) :: u32) = length fs + 1"
    proof (cases "length fs + 1 < 2 ^ 32")
      case True
      then show ?thesis by (rule unat_of_nat_u32)
    next
      case False
      then show ?thesis using room unat_u32_less [of "desc_max e"] by simp
    qed
    moreover have "(length fs + 1) mod unat (desc_max e) < 2 ^ 32"
      using room unat_u32_less [of "desc_max e"]
      by (intro order_less_trans [OF mod_less_divisor]) auto
    ultimately show "unat (of_nat (length fs + 1) mod desc_max e :: u32)
        = unat (of_nat ((length fs + 1) mod unat (desc_max e)) :: u32)"
      by (simp only: unat_mod unat_of_nat_u32)
  qed
  then have "get_desc p (filled p e r fs w) = Inr (length fs, ?u)"
    and "desc_at p (length fs) f ?u = Inr (filled p e r (fs @ [f]) w)"
    using at room u len
    by (simp_all add: get_desc_def desc_at_def filled_def engine_at_def Let_def apply_fills_snoc add.commute)
  then show ?thesis by (intro exI [of _ ?u]) simp
qed

lemma seg_chain_Cons:
  assumes "length (seg_chain m (Suc n) mb) = Suc n"
  obtains x where "mb \<noteq> 0" "m mb = Some x" "length (seg_chain m n (mb_next x)) = n"
    "seg_chain m (Suc n) mb = x # seg_chain m n (mb_next x)"
  using assms by (auto split: if_splits option.splits)

lemma h2c_loop_fills:
  assumes at: "engine_at p a e r w"
  shows "length (seg_chain (mbufs w) n mb) = n \<Longrightarrow> length fs + n \<le> unat (desc_max e) \<Longrightarrow>
    h2c_desc_loop n mb p (filled p e r fs w)
      = Inr (filled p e r (fs @ pkt_fills (seg_chain (mbufs w) n mb)) w)"
proof (induction n arbitrary: mb fs)
  case 0
  then show ?case by simp
next
  case (Suc n)
  from Suc.prems(1) obtain x where x: "mb \<noteq> 0" "mbufs w mb = Some x"
    "length (seg_chain (mbufs w) n (mb_next x)) = n"
    "seg_chain (mbufs w) (Suc n) mb = x # seg_chain (mbufs w) n (mb_next x)"
    by (rule seg_chain_Cons)
  let ?f = "h2c_fill (n = 0) x"
  obtain u where u: "get_desc p (filled p e r fs w) = Inr (length fs, u)" "mbufs u = mbufs w"
    "desc_at p (length fs) ?f u = Inr (filled p e r (fs @ [?f]) w)"
    using one_slot [OF at, of fs ?f] Suc.prems(2) by auto
  have "h2c_desc_loop (Suc n) mb p (filled p e r fs w)
      = h2c_desc_loop n (mb_next x) p (filled p e r (fs @ [?f]) w)"
    using x(1,2) u by simp
  also have "\<dots> = Inr (filled p e r ((fs @ [?f]) @ pkt_fills (seg_chain (mbufs w) n (mb_next x))) w)"
    using Suc.prems(2) x(3) by (intro Suc.IH) simp_all
  also have "(fs @ [?f]) @ pkt_fills (seg_chain (mbufs w) n (mb_next x))
      = fs @ pkt_fills (seg_chain (mbufs w) (Suc n) mb)"
  proof -
    have "seg_chain (mbufs w) n (mb_next x) = [] \<longleftrightarrow> n = 0" using x(3) by (metis length_0_conv)
    then show ?thesis unfolding x(4) by simp
  qed
  finally show ?case .
qed

lemma h2c_set_fills:
  assumes at: "engine_at p a e r w" and ok: "pkt_ok (mbufs w) mb"
    and room: "length fs + length (segs_of (mbufs w) mb) \<le> unat (desc_max e)"
  shows "xdma_h2c_desc_set p mb (filled p e r fs w)
    = Inr (filled p e r (fs @ pkt_fills (segs_of (mbufs w) mb)) w)"
proof -
  from ok obtain x where x: "mb \<noteq> 0" "mbufs w mb = Some x"
    "length (segs_of (mbufs w) mb) = unat (nb_segs x)"
    "segs_of (mbufs w) mb = seg_chain (mbufs w) (unat (nb_segs x)) mb" by (rule pkt_ok_segs)
  then show ?thesis
    using h2c_loop_fills [OF at, of "unat (nb_segs x)" mb fs] room
    by (simp add: xdma_h2c_desc_set_def)
qed

lemma tx_fill_fills:
  assumes at: "engine_at p a e r w" and ok: "\<forall>mb \<in> set pkts. pkt_ok (mbufs w) mb"
  shows "count + n \<le> length pkts \<Longrightarrow> length fs \<le> unat (desc_max e) \<Longrightarrow>
    avail = int (unat (desc_max e) - length fs) \<Longrightarrow>
    tx_fill pkts n count avail p (filled p e r fs w) =
      (let k = fitting (mbufs w) (unat (desc_max e) - length fs) (take n (drop count pkts)) in
       Inr (count + k, filled p e r (fs @ burst_fills (mbufs w) (take k (drop count pkts))) w))"
proof (induction n arbitrary: count fs avail)
  case 0
  then show ?case by (simp add: burst_fills_def)
next
  case (Suc n)
  let ?mb = "pkts ! count" and ?cap = "unat (desc_max e)"
  let ?s = "segs_of (mbufs w) ?mb"
  have c: "count < length pkts" using Suc.prems(1) by simp
  then have ok': "pkt_ok (mbufs w) ?mb" using ok by simp
  then obtain x where x: "?mb \<noteq> 0" "mbufs w ?mb = Some x" "length ?s = unat (nb_segs x)"
    by (rule pkt_ok_segs)
  have drop: "drop count pkts = ?mb # drop (Suc count) pkts" using c by (simp add: Cons_nth_drop_Suc)
  show ?case
  proof (cases "length ?s > ?cap - length fs")
    case True
    then have "int (unat (nb_segs x)) > avail" using Suc.prems(2,3) x(3) by linarith
    then show ?thesis using True x c by (simp add: drop Let_def burst_fills_def)
  next
    case False
    let ?fs = "fs @ pkt_fills ?s"
    have set: "xdma_h2c_desc_set p ?mb (filled p e r fs w) = Inr (filled p e r ?fs w)"
      using h2c_set_fills [OF at ok'] False Suc.prems(2) by simp
    from False have "\<not> int (unat (nb_segs x)) > avail" using Suc.prems(2,3) x(3) by linarith
    then have "tx_fill pkts (Suc n) count avail p (filled p e r fs w)
        = tx_fill pkts n (Suc count) (avail - int (unat (nb_segs x))) p (filled p e r ?fs w)"
      using x c set by (simp add: Let_def)
    also have "\<dots> = (let k = fitting (mbufs w) (?cap - length ?fs) (take n (drop (Suc count) pkts)) in
       Inr (Suc count + k, filled p e r (?fs @ burst_fills (mbufs w) (take k (drop (Suc count) pkts))) w))"
      using Suc.prems False x(3) by (intro Suc.IH) auto
    also have "\<dots> = (let k = fitting (mbufs w) (?cap - length fs) (take (Suc n) (drop count pkts)) in
       Inr (count + k, filled p e r (fs @ burst_fills (mbufs w) (take k (drop count pkts))) w))"
      using False by (simp add: drop Let_def burst_fills_def)
    finally show ?thesis .
  qed
qed

lemma fitting_le: "fitting m avail pkts \<le> length pkts"
  by (induction pkts arbitrary: avail) (auto simp: Let_def)

lemma fitting_room: "length (burst_segs m (take (fitting m avail pkts) pkts)) \<le> avail"
proof (induction pkts arbitrary: avail)
  case Nil
  then show ?case by (simp add: burst_segs_def)
next
  case (Cons mb pkts)
  show ?case
    using Cons [of "avail - length (segs_of m mb)"] by (auto simp: Let_def burst_segs_def)
qed

lemma fitting_all: "length (burst_segs m pkts) \<le> avail \<Longrightarrow> fitting m avail pkts = length pkts"
  by (induction pkts arbitrary: avail) (auto simp: Let_def burst_segs_def)

section \<open>The prepared ring\<close>

text \<open>
  The ring handed to the hardware: the segments' descriptors, the terminator written to the
  slot after them, and the adjacency counts.
\<close>

definition terminator :: "xdma_desc \<Rightarrow> xdma_desc" where
  "terminator d = xdma_desc_control_set d (XDMA_DESC_COMPLETED OR XDMA_DESC_STOPPED)"

definition tx_ring :: "nat \<Rightarrow> (xdma_desc \<Rightarrow> xdma_desc) list \<Rightarrow> xdma_desc list \<Rightarrow> xdma_desc list" where
  "tx_ring count fs r =
     (let t = length fs mod length r; r = apply_fills fs r in
      map_range 0 (count - 1) (\<lambda>i d. xdma_desc_adjacent_set d (of_nat (count - 2 - i)))
        (r[t := terminator (r ! t)]))"

lemma length_tx_ring [simp]: "length (tx_ring c fs r) = length r"
  by (simp add: tx_ring_def Let_def)

lemma desc_at_eq:
  "engine_at p a e r w \<Longrightarrow> i < length r \<Longrightarrow>
   desc_at p i f w = Inr (w\<lparr>rings := (rings w)(desc_ring e \<mapsto> r[i := f (r ! i)])\<rparr>)"
  by (simp add: desc_at_def engine_at_def)

lemma for_loop_desc_at:
  "engine_at p a e r w \<Longrightarrow> i + n \<le> length r \<Longrightarrow>
   for_loop i n (\<lambda>j. desc_at p j (f j)) w
     = Inr (w\<lparr>rings := (rings w)(desc_ring e \<mapsto> map_range i (i + n) f r)\<rparr>)"
proof (induction n arbitrary: i r w)
  case 0
  then show ?case by (simp add: engine_at_def fun_upd_idem)
next
  case (Suc n)
  let ?r = "r[i := f i (r ! i)]"
  let ?w = "w\<lparr>rings := (rings w)(desc_ring e \<mapsto> ?r)\<rparr>"
  have "engine_at p a e ?r ?w" using Suc.prems(1) by (rule engine_at_ring) simp
  then have "for_loop (Suc i) n (\<lambda>j. desc_at p j (f j)) ?w
      = Inr (?w\<lparr>rings := (rings ?w)(desc_ring e \<mapsto> map_range (Suc i) (Suc i + n) f ?r)\<rparr>)"
    using Suc.prems(2) by (intro Suc.IH) simp_all
  moreover have "?w\<lparr>rings := (rings ?w)(desc_ring e \<mapsto> x)\<rparr>
      = w\<lparr>rings := (rings w)(desc_ring e \<mapsto> x)\<rparr>" for x
    by simp
  ultimately have "for_loop i (Suc n) (\<lambda>j. desc_at p j (f j)) w
      = Inr (w\<lparr>rings := (rings w)(desc_ring e \<mapsto> map_range (Suc i) (Suc i + n) f ?r)\<rparr>)"
    using Suc.prems by (simp add: desc_at_eq)
  moreover have "map_range (Suc i) (Suc i + n) f ?r = map_range i (i + Suc n) f r"
    using Suc.prems(2) by (simp add: map_range_step)
  ultimately show ?case by (simp only:)
qed

lemma for_loop_cong:
  "(\<And>i s. a \<le> i \<Longrightarrow> i < a + n \<Longrightarrow> f i s = g i s) \<Longrightarrow> for_loop a n f s = for_loop a n g s"
proof (induction n arbitrary: a s)
  case 0
  then show ?case by simp
next
  case (Suc n)
  from Suc.prems [of a s] have "f a s = g a s" by simp
  moreover have "for_loop (Suc a) n f t = for_loop (Suc a) n g t" for t
    using Suc.prems by (intro Suc.IH) simp
  ultimately show ?case by (cases "g a s") simp_all
qed

lemma adjacency_loop_eq:
  assumes "engine_at p a e r w" and "count - 1 \<le> length r"
  shows "adjacency_loop count p (desc_max e) w = Inr (w\<lparr>rings := (rings w)(desc_ring e \<mapsto>
    map_range 0 (count - 1) (\<lambda>i d. xdma_desc_adjacent_set d (of_nat (count - 2 - i))) r)\<rparr>)"
proof -
  have "length r = unat (desc_max e)" "desc_max e \<noteq> 0" using assms(1) by (simp_all add: engine_at_def)
  then have "adjacency_loop count p (desc_max e) w = for_loop 0 (count - 1)
      (\<lambda>i. desc_at p i (\<lambda>d. xdma_desc_adjacent_set d (of_nat (count - 2 - i)))) w"
    unfolding adjacency_loop_def using assms(2) by (intro for_loop_cong) simp
  then show ?thesis using for_loop_desc_at [OF assms(1), of 0 "count - 1"] assms(2) by simp
qed

lemma pkts_le_segs:
  "\<forall>mb \<in> set pkts. pkt_ok m mb \<Longrightarrow> length pkts \<le> length (burst_segs m pkts)"
proof (induction pkts)
  case Nil
  then show ?case by simp
next
  case (Cons mb pkts)
  then have "0 < length (segs_of m mb)" by (auto elim: pkt_ok_segs)
  with Cons show ?case by (cases "segs_of m mb") (simp_all add: burst_segs_def)
qed

text \<open>What \<open>xmit_prepare\<close> takes from a burst: the leading packets that fit.\<close>

definition taken :: "world \<Rightarrow> xdma_engine \<Rightarrow> u64 list \<Rightarrow> u16 \<Rightarrow> u64 list" where
  "taken w e pkts nb =
     (let ps = take (unat nb) pkts in take (fitting (mbufs w) (unat (desc_max e)) ps) ps)"

definition prepared :: "u64 \<Rightarrow> xdma_engine \<Rightarrow> xdma_desc list \<Rightarrow> u64 list \<Rightarrow> world \<Rightarrow> world" where
  "prepared p e r ps w =
     (let fs = burst_fills (mbufs w) ps in
      w\<lparr>engines := (engines w)(p \<mapsto> e\<lparr>desc_used := of_nat (length fs mod unat (desc_max e))\<rparr>),
        rings := (rings w)(desc_ring e \<mapsto> tx_ring (length ps) fs r)\<rparr>)"

lemma engine_at_prepared:
  "engine_at p a e r w \<Longrightarrow> engine_at p a
     (e\<lparr>desc_used := of_nat (length (burst_fills (mbufs w) ps) mod unat (desc_max e))\<rparr>)
     (tx_ring (length ps) (burst_fills (mbufs w) ps) r) (prepared p e r ps w)"
  using engine_at_filled [of p a e r w "burst_fills (mbufs w) ps"]
  by (simp add: engine_at_def filled_def prepared_def Let_def)

lemma xmit_prepare_eq:
  assumes at: "engine_at p a e r w" and idle: "desc_used e = 0" and max: "desc_max e = 32"
    and ok: "\<forall>mb \<in> set pkts. pkt_ok (mbufs w) mb" and nb: "unat nb \<le> length pkts"
  shows "xmit_prepare p pkts nb w
    = Inr (length (taken w e pkts nb), prepared p e r (taken w e pkts nb) w)"
proof -
  let ?ps = "taken w e pkts nb"
  let ?k = "fitting (mbufs w) (unat (desc_max e)) (take (unat nb) pkts)"
  let ?fs = "burst_fills (mbufs w) ?ps"
  let ?f = "filled p e r ?fs w"
  let ?e = "e\<lparr>desc_used := of_nat (length ?fs mod unat (desc_max e))\<rparr>"
  let ?t = "length ?fs mod unat (desc_max e)"
  let ?r2 = "(apply_fills ?fs r)[?t := terminator (apply_fills ?fs r ! ?t)]"
  let ?w2 = "?f\<lparr>rings := (rings ?f)(desc_ring e \<mapsto> ?r2)\<rparr>"
  have "?k \<le> unat nb"
    using fitting_le [of "mbufs w" "unat (desc_max e)" "take (unat nb) pkts"] by simp
  then have k: "?ps = take ?k pkts" "length ?ps = ?k"
    using nb by (simp_all add: taken_def Let_def min_absorb1)
  have fill: "tx_fill pkts (unat nb) 0 32 p w = Inr (?k, ?f)"
    using tx_fill_fills [OF at ok, of 0 "unat nb" "[]" 32] nb max k
    by (simp add: filled_Nil [OF at idle] Let_def)
  have len: "length r = unat (desc_max e)" "length r = 32" using at max by (simp_all add: engine_at_def)
  have atf: "engine_at p a ?e (apply_fills ?fs r) ?f" by (rule engine_at_filled [OF at])
  have t: "unat (desc_used ?e) = ?t" using max by simp
  have d2: "desc_at p ?t terminator ?f = Inr ?w2"
    using desc_at_eq [OF atf, of ?t terminator] len by simp
  have at2: "engine_at p a ?e ?r2 ?w2" using engine_at_ring [OF atf, of ?r2] by simp
  have "?k \<le> length (burst_segs (mbufs w) ?ps)"
    using pkts_le_segs [of ?ps "mbufs w"] ok k by (metis in_set_takeD)
  also have "\<dots> \<le> 32"
    using fitting_room [of "mbufs w" 32 "take (unat nb) pkts"] k max by (simp add: taken_def Let_def)
  finally have cnt: "?k - 1 \<le> length ?r2" using len by simp
  have adj: "adjacency_loop ?k p 32 ?w2 = Inr (prepared p e r ?ps w)"
    using adjacency_loop_eq [OF at2 cnt] max len k
    by (simp add: prepared_def tx_ring_def filled_def Let_def)
  have eng: "engines w p = Some e" "engines ?f p = Some ?e" "p \<noteq> 0"
    using at atf by (simp_all add: engine_at_def)
  have s32: "sint (32 :: u32) = 32" by simp
  show ?thesis
    using fill d2 adj t eng max
    unfolding terminator_def [abs_def]
    by (simp add: xmit_prepare_def Let_def k(2))
qed

text \<open>Which segments end a packet, and the contents of the prepared ring cell by cell.\<close>

definition last_flags :: "nat \<Rightarrow> bool list" where
  "last_flags n = map (\<lambda>i. Suc i = n) [0..<n]"

definition burst_flags :: "(u64 \<rightharpoonup> rte_mbuf) \<Rightarrow> u64 list \<Rightarrow> bool list" where
  "burst_flags m pkts = concat (map (\<lambda>mb. last_flags (length (segs_of m mb))) pkts)"

lemma last_flags_Suc: "last_flags (Suc n) = (n = 0) # last_flags n"
  by (simp add: last_flags_def upt_conv_Cons map_Suc_upt [symmetric] comp_def del: upt_Suc)

lemma length_last_flags [simp]: "length (last_flags n) = n"
  by (simp add: last_flags_def)

lemma pkt_fills_flags: "pkt_fills xs = map2 h2c_fill (last_flags (length xs)) xs"
proof (induction xs)
  case Nil
  then show ?case by simp
next
  case (Cons x xs)
  then show ?case by (simp add: last_flags_Suc)
qed

lemma burst_fills_flags: "burst_fills m pkts = map2 h2c_fill (burst_flags m pkts) (burst_segs m pkts)"
  by (induction pkts) (simp_all add: burst_fills_def burst_flags_def burst_segs_def pkt_fills_flags)

lemma length_burst_flags [simp]: "length (burst_flags m pkts) = length (burst_segs m pkts)"
  by (induction pkts) (simp_all add: burst_flags_def burst_segs_def)

lemma nth_burst_fills:
  "i < length (burst_segs m pkts) \<Longrightarrow>
   burst_fills m pkts ! i = h2c_fill (burst_flags m pkts ! i) (burst_segs m pkts ! i)"
  by (simp add: burst_fills_flags)

lemma h2c_fill_sel [simp]:
  "len (h2c_fill b x d) = ucast (data_len x)" "src_addr (h2c_fill b x d) = data_iova x"
  "next_addr (h2c_fill b x d) = next_addr d"
  "control (h2c_fill b x d) = (if b then control d OR 0x12 else control d)"
  by (simp_all add: h2c_fill_def Let_def src_addr_def next_addr_def xdma_desc_control_set_def c_consts)

lemma h2c_fill_stopped [simp]: "stopped (h2c_fill b x d) \<longleftrightarrow> stopped d"
  by (simp add: stopped_iff_bit bit_simps)

lemma terminator_sel [simp]:
  "len (terminator d) = len d" "src_addr (terminator d) = src_addr d"
  "dst_addr (terminator d) = dst_addr d" "next_addr (terminator d) = next_addr d" "stopped (terminator d)"
  "control (terminator d) = control d OR 0x3"
  by (simp_all add: terminator_def c_consts)

lemma nth_tx_ring:
  assumes "i < length r"
  shows "tx_ring c fs r ! i =
    (let d = apply_fills fs r ! i; d = (if i = length fs mod length r then terminator d else d)
     in if i < c - 1 then xdma_desc_adjacent_set d (of_nat (c - 2 - i)) else d)"
  using assms by (simp add: tx_ring_def Let_def nth_list_update)

lemma tx_ring_stopped:
  assumes "i < length r"
  shows "stopped (tx_ring c (burst_fills m ps) r ! i) \<longleftrightarrow>
    stopped (r ! i) \<or> i = length (burst_segs m ps) mod length r"
  using assms
  by (auto simp: nth_tx_ring Let_def nth_apply_fills length_burst_fills nth_burst_fills)

lemma tx_ring_next:
  assumes "i < length r"
  shows "next_addr (tx_ring c (burst_fills m ps) r ! i) = next_addr (r ! i)"
  using assms by (auto simp: nth_tx_ring Let_def nth_apply_fills length_burst_fills nth_burst_fills)

lemma tx_ring_linked: "linked v b r \<Longrightarrow> linked v b (tx_ring c (burst_fills m ps) r)"
  using tx_ring_next by (subst linked_cong [of _ r]) simp_all

lemma adjacent_set_bit [simp]:
  "n < 64 \<Longrightarrow> k < 8 \<Longrightarrow> bit (control (xdma_desc_adjacent_set d n)) k = bit (control d) k"
proof -
  have M: "XDMA_DESC_NXT_ADJ_MASK = push_bit 8 (mask 6)"
    by (simp add: XDMA_DESC_NXT_ADJ_MASK_def mask_eq_exp_minus_1)
  show "k < 8 \<Longrightarrow> ?thesis" by (auto simp: xdma_desc_adjacent_set_def M bit_simps)
qed

section \<open>A whole transmission\<close>

lemma fitting_maximal:
  "fitting m avail pkts < length pkts \<Longrightarrow>
   avail < length (burst_segs m (take (Suc (fitting m avail pkts)) pkts))"
proof (induction pkts arbitrary: avail)
  case Nil
  then show ?case by simp
next
  case (Cons mb pkts)
  show ?case
  proof (cases "length (segs_of m mb) > avail")
    case True
    then show ?thesis by (simp add: burst_segs_def)
  next
    case False
    with Cons.prems Cons.IH [of "avail - length (segs_of m mb)"] show ?thesis
      by (simp add: Let_def burst_segs_def)
  qed
qed

lemma length_taken:
  "unat nb \<le> length pkts \<Longrightarrow>
   length (taken w e pkts nb) = fitting (mbufs w) (unat (desc_max e)) (take (unat nb) pkts)"
  using fitting_le [of "mbufs w" "unat (desc_max e)" "take (unat nb) pkts"]
  by (simp add: taken_def Let_def)

lemma taken_segs_le: "length (burst_segs (mbufs w) (taken w e pkts nb)) \<le> unat (desc_max e)"
  using fitting_room [of "mbufs w" "unat (desc_max e)" "take (unat nb) pkts"]
  by (simp only: taken_def Let_def)

lemma taken_eq_take:
  "unat nb \<le> length pkts \<Longrightarrow> taken w e pkts nb = take (length (taken w e pkts nb)) pkts"
  using fitting_le [of "mbufs w" "unat (desc_max e)" "take (unat nb) pkts"]
  by (simp add: taken_def Let_def min_absorb1)

lemma xmit_cases:
  assumes at: "engine_at p a e r w" and idle: "\<not> running e" "desc_used e = 0" and max: "desc_max e = 32"
    and ok: "\<forall>mb \<in> set pkts. pkt_ok (mbufs w) mb" and nb: "unat nb \<le> length pkts"
    and r': "r' = tx_ring (length (taken w e pkts nb)) (burst_fills (mbufs w) (taken w e pkts nb)) r"
  shows "tx_wait hw nb 0 = None \<Longrightarrow> xdma_xmit_pkts hw p pkts nb w = Inl Hang"
    and "tx_wait hw nb 0 = Some k \<Longrightarrow> \<exists>u e3 w3.
      xdma_xmit_pkts hw p pkts nb w = Inr (nb, halted H2C_CHANNEL_CTRL p a e3 r' w3) \<and>
      engine_at p a e3 r' w3 \<and> e3 = e\<lparr>running := True, desc_used := u\<rparr> \<and> mbufs w3 = mbufs w"
proof -
  let ?ps = "taken w e pkts nb"
  let ?e1 = "e\<lparr>running := True\<rparr>"
  let ?w1 = "w\<lparr>engines := (engines w)(p \<mapsto> ?e1)\<rparr>"
  have "desc_used e \<le> desc_max e" using idle max by simp
  with at have at1: "engine_at p a ?e1 r ?w1" by (intro engine_at_engine) simp_all
  have ps: "taken ?w1 ?e1 pkts nb = ?ps" by (simp add: taken_def)
  define u :: u32 where "u = of_nat (length (burst_fills (mbufs w) ?ps) mod unat (desc_max e))"
  let ?e2 = "?e1\<lparr>desc_used := u\<rparr>"
  define w2 where "w2 = prepared p ?e1 r ?ps ?w1"
  have prep: "xmit_prepare p pkts nb ?w1 = Inr (length ?ps, w2)"
    using xmit_prepare_eq [OF at1, of pkts nb] idle max ok nb by (simp add: ps w2_def)
  have at2: "engine_at p a ?e2 r' w2"
    using engine_at_prepared [OF at1, of ?ps] by (simp add: w2_def r' u_def)
  have mb2: "mbufs w2 = mbufs w" by (simp add: w2_def prepared_def Let_def)
  let ?adj = "of_int (int (length ?ps) - 2) :: u32"
  from tx_ops.start_law [OF at2, of "desc_addr (desc_ring e) 0" ?adj] obtain regs where
    "xdma_tx_engine_start p (desc_addr (desc_ring e) 0) ?adj w2
      = Inr (started p a ?e2 (regs @ [(H2C_CHANNEL_CTRL, start_ctrl)]) w2)" by blast
  then have start: "call_tx_start (xdev e) p (desc_addr (desc_ring e) 0) ?adj w2
      = Inr (started p a ?e2 (regs @ [(H2C_CHANNEL_CTRL, start_ctrl)]) w2)" (is "_ = Inr ?w3")
    using call_tx_start_eq [OF at2] by simp
  define w3 where "w3 = ?w3"
  have e2: "?e2\<lparr>running := True\<rparr> = ?e2" by simp
  have at3: "engine_at p a ?e2 r' w3"
    using engine_at_started [OF at2, of "regs @ [(H2C_CHANNEL_CTRL, start_ctrl)]"] unfolding e2 w3_def .
  have mb3: "mbufs w3 = mbufs w" by (simp add: w3_def mb2)
  note start = start [folded w3_def, simplified]
  from at3 obtain v where v: "poll_mode_addr_virt e \<noteq> 0" "words w3 (poll_mode_addr_virt e) = Some v"
    by (auto simp: engine_at_def)
  from at have p: "p \<noteq> 0" "engines w p = Some e" by (simp_all add: engine_at_def)
  note body = xdma_xmit_pkts_def Let_def p idle(1) prep start v
  show "tx_wait hw nb 0 = None \<Longrightarrow> xdma_xmit_pkts hw p pkts nb w = Inl Hang"
    by (simp add: body)
  assume k: "tx_wait hw nb 0 = Some k"
  let ?w4 = "w3\<lparr>words := (words w3)(poll_mode_addr_virt e \<mapsto> hw k)\<rparr>"
  have at4: "engine_at p a ?e2 r' ?w4" by (rule engine_at_word [OF at3])
  have "xdma_tx_engine_stop p ?w4 = Inr (halted H2C_CHANNEL_CTRL p a ?e2 r' ?w4)"
    by (rule tx_ops.stop_law [OF at4])
  then have "xdma_xmit_pkts hw p pkts nb w = Inr (nb, halted H2C_CHANNEL_CTRL p a ?e2 r' ?w4)"
    using call_tx_stop_eq [OF at4] by (simp add: body k)
  with at4 mb3 show "\<exists>u e3 w3.
      xdma_xmit_pkts hw p pkts nb w = Inr (nb, halted H2C_CHANNEL_CTRL p a e3 r' w3) \<and>
      engine_at p a e3 r' w3 \<and> e3 = e\<lparr>running := True, desc_used := u\<rparr> \<and> mbufs w3 = mbufs w"
    by (intro exI [of _ u] exI [of _ ?e2] exI [of _ ?w4]) simp
qed

text \<open>
  An idle H2C engine: stopped, no descriptor in use, its ring blank, linked, and with no
  terminator before the last slot.  \<open>v\<close> translates addresses.
\<close>

definition tx_idle :: "u64 \<Rightarrow> u64 \<Rightarrow> (u64 \<Rightarrow> u64) \<Rightarrow> world \<Rightarrow> bool" where
  "tx_idle p a v w \<longleftrightarrow> (\<exists>e r. engine_at p a e r w \<and> dir e = H2C \<and> \<not> running e \<and> desc_used e = 0 \<and>
     desc_max e = 32 \<and> linked v (desc_ring e) r \<and> (\<forall>d \<in> set r. blank d) \<and>
     (\<forall>j < 31. \<not> stopped (r ! j)))"

lemma tx_idleE:
  assumes "tx_idle p a v w"
  obtains e r where "engine_at p a e r w" "dir e = H2C" "\<not> running e" "desc_used e = 0"
    "desc_max e = 32" "linked v (desc_ring e) r" "\<forall>d \<in> set r. blank d" "\<forall>j < 31. \<not> stopped (r ! j)"
    "length r = 32"
  using assms by (auto simp: tx_idle_def engine_at_def)

lemma tx_idle_xmit:
  assumes idle: "tx_idle p a v w"
    and ok: "\<forall>mb \<in> set pkts. pkt_ok (mbufs w) mb" and nb: "unat nb \<le> length pkts"
    and hw: "hw k AND 0xFFFFFF = ucast nb"
  shows "\<exists>w'. xdma_xmit_pkts hw p pkts nb w = Inr (nb, w') \<and> tx_idle p a v w' \<and> mbufs w' = mbufs w"
proof -
  from idle obtain e r where e: "engine_at p a e r w" "dir e = H2C" "\<not> running e" "desc_used e = 0"
    "desc_max e = 32" "linked v (desc_ring e) r" by (rule tx_idleE)
  define ps where "ps = taken w e pkts nb"
  let ?r = "tx_ring (length ps) (burst_fills (mbufs w) ps) r"
  from hw tx_wait_None_iff [of hw nb] obtain j where j: "tx_wait hw nb 0 = Some j" by fastforce
  from xmit_cases(2) [OF e(1,3-5) ok nb refl j] obtain u e3 w3 where
    x: "xdma_xmit_pkts hw p pkts nb w = Inr (nb, halted H2C_CHANNEL_CTRL p a e3 ?r w3)"
       "engine_at p a e3 ?r w3" "e3 = e\<lparr>running := True, desc_used := u\<rparr>" "mbufs w3 = mbufs w"
    unfolding ps_def by blast
  have len: "length r = 32" using e(1,5) by (simp add: engine_at_def)
  have "linked v (desc_ring e) ?r" by (rule tx_ring_linked [OF e(6)])
  then have "linked v (desc_ring e) (map (clear_desc (dir e3)) ?r)" by (simp add: linked_def)
  then have "tx_idle p a v (halted H2C_CHANNEL_CTRL p a e3 ?r w3)"
    using engine_at_halted [OF x(2), of H2C_CHANNEL_CTRL] e x(3) len
    unfolding tx_idle_def
    by (intro exI [of _ "e3\<lparr>running := False, desc_used := 0\<rparr>"] exI [of _ "map (clear_desc (dir e3)) ?r"])
       simp
  with x show ?thesis by (intro exI [of _ "halted H2C_CHANNEL_CTRL p a e3 ?r w3"]) simp
qed

end
