(* ===== verification/Tx_Correct.thy ===== *)
theory Tx_Correct
  imports Tx
begin

text \<open>
  What the transmit path guarantees, and where it does not return: the contents of the ring
  handed to the hardware, the effect of a whole \<open>xdma_xmit_pkts\<close>, and the invariant that
  holds over any sequence of bursts.
\<close>

section \<open>Requests\<close>

text \<open>
  A request to an idle engine with the ring size of the driver: \<open>pkts\<close> are well-formed
  packets, and the array has at least \<open>nb\<close> of them.
\<close>

definition tx_request :: "u64 \<Rightarrow> u64 \<Rightarrow> xdma_engine \<Rightarrow> xdma_desc list \<Rightarrow> world \<Rightarrow> u64 list \<Rightarrow> u16 \<Rightarrow> bool" where
  "tx_request p a e r w pkts nb \<longleftrightarrow> engine_at p a e r w \<and> \<not> running e \<and> desc_used e = 0 \<and>
     desc_max e = 32 \<and> (\<forall>mb \<in> set pkts. pkt_ok (mbufs w) mb) \<and> unat nb \<le> length pkts"

lemma tx_request_len: "tx_request p a e r w pkts nb \<Longrightarrow> length r = 32"
  by (simp add: tx_request_def engine_at_def)

lemma tx_request_prepare:
  assumes "tx_request p a e r w pkts nb"
  defines "ps \<equiv> taken w e pkts nb"
  defines "r' \<equiv> tx_ring (length ps) (burst_fills (mbufs w) ps) r"
  shows "\<exists>w' u. xmit_prepare p pkts nb w = Inr (length ps, w') \<and>
    engine_at p a (e\<lparr>desc_used := u\<rparr>) r' w' \<and> mbufs w' = mbufs w \<and> mmio w' = mmio w"
proof -
  note req = assms(1) [unfolded tx_request_def]
  have "xmit_prepare p pkts nb w = Inr (length ps, prepared p e r ps w)"
    unfolding ps_def using req by (intro xmit_prepare_eq) auto
  moreover from req have "engine_at p a
      (e\<lparr>desc_used := of_nat (length (burst_fills (mbufs w) ps) mod unat (desc_max e))\<rparr>)
      r' (prepared p e r ps w)"
    unfolding r'_def by (intro engine_at_prepared) simp
  moreover have "mbufs (prepared p e r ps w) = mbufs w" "mmio (prepared p e r ps w) = mmio w"
    by (simp_all add: prepared_def Let_def)
  ultimately show ?thesis by blast
qed

lemma tx_request_segs:
  "tx_request p a e r w pkts nb \<Longrightarrow> length (burst_segs (mbufs w) (taken w e pkts nb)) \<le> 32"
  using taken_segs_le [of w e pkts nb] by (simp add: tx_request_def)

lemma tx_request_taken:
  assumes "tx_request p a e r w pkts nb"
  shows "length (taken w e pkts nb) \<le> length (burst_segs (mbufs w) (taken w e pkts nb))"
proof (rule pkts_le_segs)
  have "set (taken w e pkts nb) \<subseteq> set pkts"
    unfolding taken_def Let_def by (meson order_trans set_take_subset)
  then show "\<forall>mb \<in> set (taken w e pkts nb). pkt_ok (mbufs w) mb"
    using assms by (auto simp: tx_request_def)
qed

text \<open>The control word a segment's descriptor is left with, apart from the adjacency field.\<close>

lemma tx_ring_cell:
  assumes i: "i < length (burst_segs m ps)" and len: "length (burst_segs m ps) \<le> length r"
    and c: "c \<le> 32"
  shows "len (tx_ring c (burst_fills m ps) r ! i) = ucast (data_len (burst_segs m ps ! i))"
    and "src_addr (tx_ring c (burst_fills m ps) r ! i) = data_iova (burst_segs m ps ! i)"
    and "bit (control (tx_ring c (burst_fills m ps) r ! i)) 4
           \<longleftrightarrow> bit (control (r ! i)) 4 \<or> burst_flags m ps ! i"
proof -
  have "i < length r" using i len by simp
  moreover have n: "(of_nat (c - 2 - i) :: u32) < 64"
  proof -
    have "c - 2 - i < 64" using c by linarith
    then show ?thesis by (simp add: word_less_nat_alt)
  qed
  moreover have "\<not> bit (3 :: u32) 4" "bit (0x12 :: u32) 4" by simp_all
  ultimately show "len (tx_ring c (burst_fills m ps) r ! i) = ucast (data_len (burst_segs m ps ! i))"
    and "src_addr (tx_ring c (burst_fills m ps) r ! i) = data_iova (burst_segs m ps ! i)"
    and "bit (control (tx_ring c (burst_fills m ps) r ! i)) 4
           \<longleftrightarrow> bit (control (r ! i)) 4 \<or> burst_flags m ps ! i"
    using i
    by (auto simp: nth_tx_ring Let_def nth_apply_fills length_burst_fills nth_burst_fills bit_or_iff)
qed

section \<open>Properties\<close>

text \<open>
  C5. The ring handed to the hardware describes the burst: the driver takes the longest
  leading run of packets whose segments fit into the ring, and the \<open>i\<close>th descriptor carries
  the length and the bus address of the \<open>i\<close>th segment of those packets, with EOP added
  exactly on the last segment of each packet, every link between descriptors kept, and no
  mbuf changed.
\<close>

theorem xmit_prepare_describes_burst:
  assumes "tx_request p a e r w pkts nb"
  shows "\<exists>w' r' u ps. xmit_prepare p pkts nb w = Inr (length ps, w') \<and>
    engine_at p a (e\<lparr>desc_used := u\<rparr>) r' w' \<and> mbufs w' = mbufs w \<and>
    ps = take (length ps) pkts \<and> length ps \<le> unat nb \<and> length (burst_segs (mbufs w) ps) \<le> 32 \<and>
    (length ps < unat nb \<longrightarrow> 32 < length (burst_segs (mbufs w) (take (Suc (length ps)) pkts))) \<and>
    (\<forall>i < length (burst_segs (mbufs w) ps).
       len (r' ! i) = ucast (data_len (burst_segs (mbufs w) ps ! i)) \<and>
       src_addr (r' ! i) = data_iova (burst_segs (mbufs w) ps ! i) \<and>
       (bit (control (r' ! i)) 4 \<longleftrightarrow> bit (control (r ! i)) 4 \<or> burst_flags (mbufs w) ps ! i)) \<and>
    (\<forall>i < 32. next_addr (r' ! i) = next_addr (r ! i))"
proof -
  define ps where "ps = taken w e pkts nb"
  define r' where "r' = tx_ring (length ps) (burst_fills (mbufs w) ps) r"
  note req = assms(1) [unfolded tx_request_def]
  have len: "length r = 32" by (rule tx_request_len [OF assms(1)])
  obtain w' u where w': "xmit_prepare p pkts nb w = Inr (length ps, w')"
    "engine_at p a (e\<lparr>desc_used := u\<rparr>) r' w'" "mbufs w' = mbufs w"
    using tx_request_prepare [OF assms(1)] unfolding ps_def r'_def by blast
  have k: "length ps = fitting (mbufs w) 32 (take (unat nb) pkts)" and pre: "ps = take (length ps) pkts"
    using length_taken [of nb pkts w e] taken_eq_take [of nb pkts w e] req by (simp_all add: ps_def)
  have le: "length ps \<le> unat nb"
    using fitting_le [of "mbufs w" 32 "take (unat nb) pkts"] k req by simp
  have segs: "length (burst_segs (mbufs w) ps) \<le> 32"
    unfolding ps_def by (rule tx_request_segs [OF assms(1)])
  have "length ps \<le> 32" using tx_request_taken [OF assms(1)] segs by (simp add: ps_def)
  note cell = tx_ring_cell [of _ "mbufs w" ps r "length ps", unfolded len, OF _ segs this, folded r'_def]
  have more: "length ps < unat nb \<longrightarrow> 32 < length (burst_segs (mbufs w) (take (Suc (length ps)) pkts))"
  proof
    assume lt: "length ps < unat nb"
    with k req have "32 < length (burst_segs (mbufs w) (take (Suc (length ps)) (take (unat nb) pkts)))"
      using fitting_maximal [of "mbufs w" 32 "take (unat nb) pkts"] by simp
    then show "32 < length (burst_segs (mbufs w) (take (Suc (length ps)) pkts))"
      using lt by (simp add: min_absorb1)
  qed
  have nxt: "\<forall>i < 32. next_addr (r' ! i) = next_addr (r ! i)"
    using tx_ring_next [of _ r] len by (simp add: r'_def)
  have cells: "\<forall>i < length (burst_segs (mbufs w) ps).
      len (r' ! i) = ucast (data_len (burst_segs (mbufs w) ps ! i)) \<and>
      src_addr (r' ! i) = data_iova (burst_segs (mbufs w) ps ! i) \<and>
      (bit (control (r' ! i)) 4 \<longleftrightarrow> bit (control (r ! i)) 4 \<or> burst_flags (mbufs w) ps ! i)"
    using cell by blast
  show ?thesis using w' pre le segs more cells nxt by blast
qed

text \<open>
  C31. Where the engine stops.  The terminator goes to the slot after the last segment, so a
  burst of \<open>t < 32\<close> segments gives a chain of \<open>t + 1\<close> descriptors, the last of which
  describes no transfer.  A burst that fills the ring wraps around: the terminator lands on
  descriptor 0, the chain is one descriptor long, and the other 31 are never fetched.
\<close>

theorem xmit_terminator:
  assumes "tx_request p a e r w pkts nb" and "\<forall>d \<in> set r. blank d" and "\<forall>j < 31. \<not> stopped (r ! j)"
  defines "t \<equiv> length (burst_segs (mbufs w) (taken w e pkts nb))"
  shows "\<exists>c w' r' u. xmit_prepare p pkts nb w = Inr (c, w') \<and> engine_at p a (e\<lparr>desc_used := u\<rparr>) r' w' \<and>
    (t < 32 \<longrightarrow> chain r' = take (Suc t) r' \<and> blank (r' ! t)) \<and>
    (t = 32 \<longrightarrow> chain r' = take 1 r') \<and> t \<le> 32"
proof -
  define ps where "ps = taken w e pkts nb"
  define r' where "r' = tx_ring (length ps) (burst_fills (mbufs w) ps) r"
  have len: "length r = 32" "length r' = 32"
    using tx_request_len [OF assms(1)] by (simp_all add: r'_def)
  obtain w' u where w': "xmit_prepare p pkts nb w = Inr (length ps, w')"
    "engine_at p a (e\<lparr>desc_used := u\<rparr>) r' w'"
    using tx_request_prepare [OF assms(1)] unfolding ps_def r'_def by blast
  have st: "stopped (r' ! i) \<longleftrightarrow> stopped (r ! i) \<or> i = t mod 32" if "i < 32" for i
    using tx_ring_stopped [of i r "length ps" "mbufs w" ps] that
    by (simp add: r'_def len(1) t_def ps_def)
  have le: "t \<le> 32" unfolding t_def by (rule tx_request_segs [OF assms(1)])
  have lt: "chain r' = take (Suc t) r' \<and> blank (r' ! t)" if "t < 32"
  proof
    show "chain r' = take (Suc t) r'"
      using that assms(3) by (intro chain_first_stop) (auto simp: st len)
    have "length (burst_segs (mbufs w) ps) = t" by (simp add: t_def ps_def)
    moreover from that have "blank (r ! t)" using assms(2) len by simp
    ultimately show "blank (r' ! t)" using that
      by (simp add: r'_def nth_tx_ring len(1) Let_def nth_apply_fills length_burst_fills blank_def)
  qed
  have full: "chain r' = take 1 r'" if "t = 32"
    using that chain_first_stop [of 0 r'] by (simp add: st len)
  from w' le lt full show ?thesis by blast
qed

text \<open>
  The adjacency counts of a prepared burst of \<open>c\<close> packets: descriptor \<open>i < c - 1\<close>
  promises \<open>c - 2 - i\<close> adjacent successors, exactly the descriptors up to the last packet's,
  so no count ever reaches past the ring.
\<close>

theorem xmit_adjacency:
  assumes "tx_request p a e r w pkts nb"
  shows "\<exists>c w' r' u. xmit_prepare p pkts nb w = Inr (c, w') \<and> engine_at p a (e\<lparr>desc_used := u\<rparr>) r' w' \<and>
    c \<le> 32 \<and> (\<forall>i. Suc i < c \<longrightarrow> unat (nxt_adj (r' ! i)) = c - 2 - i \<and> i + 1 + unat (nxt_adj (r' ! i)) < c)"
proof -
  define ps where "ps = taken w e pkts nb"
  define r' where "r' = tx_ring (length ps) (burst_fills (mbufs w) ps) r"
  have len: "length r = 32" by (rule tx_request_len [OF assms(1)])
  obtain w' u where w': "xmit_prepare p pkts nb w = Inr (length ps, w')"
    "engine_at p a (e\<lparr>desc_used := u\<rparr>) r' w'"
    using tx_request_prepare [OF assms(1)] unfolding ps_def r'_def by blast
  have c: "length ps \<le> 32"
    using tx_request_taken [OF assms(1)] tx_request_segs [OF assms(1)] by (simp add: ps_def)
  have "unat (nxt_adj (r' ! i)) = length ps - 2 - i" if i: "Suc i < length ps" for i
  proof -
    have "length ps - 2 - i < 64" using c by linarith
    then have "(of_nat (length ps - 2 - i) :: u32) < 64" "unat (of_nat (length ps - 2 - i) :: u32) = length ps - 2 - i"
      by (simp_all add: word_less_nat_alt)
    moreover have "i < length r" "i < length ps - 1" using i c len by simp_all
    ultimately show ?thesis by (simp add: r'_def nth_tx_ring Let_def nxt_adj_set)
  qed
  with w' c show ?thesis by (intro exI [of _ "length ps"] exI [of _ w'] exI [of _ r'] exI [of _ u]) auto
qed

text \<open>
  C15. A burst sent to an idle engine returns as soon as the hardware reports \<open>nb\<close>
  completions, and returns \<open>nb\<close>: the engine is idle again, the RUN bit is off, the ring is
  blank and linked as before, the completion count is reset, and the packets' mbufs are
  untouched (in particular not freed).
\<close>

theorem xmit_returns_idle:
  assumes "tx_request p a e r w pkts nb" and "linked v (desc_ring e) r"
    and "\<exists>k. hw k AND 0xFFFFFF = ucast nb"
  shows "\<exists>w' r'. xdma_xmit_pkts hw p pkts nb w = Inr (nb, w') \<and>
    engine_at p a (e\<lparr>running := False, desc_used := 0\<rparr>) r' w' \<and>
    linked v (desc_ring e) r' \<and> (\<forall>d \<in> set r'. blank d) \<and>
    words w' (poll_mode_addr_virt e) = Some 0 \<and>
    \<not> hw_running (a + ucast (chan_reg H2C_CHANNEL_CTRL e)) w' \<and> mbufs w' = mbufs w"
proof -
  note req = assms(1) [unfolded tx_request_def]
  define r' where "r' = tx_ring (length (taken w e pkts nb)) (burst_fills (mbufs w) (taken w e pkts nb)) r"
  from assms(3) tx_wait_None_iff [of hw nb] obtain j where j: "tx_wait hw nb 0 = Some j" by fastforce
  from req j obtain u e3 w3 where x:
    "xdma_xmit_pkts hw p pkts nb w = Inr (nb, halted H2C_CHANNEL_CTRL p a e3 r' w3)"
    "engine_at p a e3 r' w3" "e3 = e\<lparr>running := True, desc_used := u\<rparr>" "mbufs w3 = mbufs w"
    using xmit_cases(2) [of p a e r w pkts nb, OF _ _ _ _ _ _ r'_def] by blast
  have lk: "linked v (desc_ring e) (map (clear_desc (dir e)) r')"
    using tx_ring_linked [OF assms(2)] by (simp add: r'_def linked_def)
  have e: "e3\<lparr>running := False, desc_used := 0\<rparr> = e\<lparr>running := False, desc_used := 0\<rparr>"
    by (simp add: x(3))
  have ch: "chan_reg H2C_CHANNEL_CTRL e3 = chan_reg H2C_CHANNEL_CTRL e"
    by (rule chan_reg_cong) (simp add: x(3))
  from engine_at_halted [OF x(2), of H2C_CHANNEL_CTRL]
  have "engine_at p a (e\<lparr>running := False, desc_used := 0\<rparr>) (map (clear_desc (dir e)) r')
      (halted H2C_CHANNEL_CTRL p a e3 r' w3)"
    unfolding e by (simp add: x(3))
  with x lk show ?thesis
    by (intro exI [of _ "halted H2C_CHANNEL_CTRL p a e3 r' w3"] exI [of _ "map (clear_desc (dir e)) r'"])
       (use ch [unfolded x(3)] in \<open>simp add: hw_running_def\<close>)
qed

text \<open>
  C32. The wait has no bound: a burst sent to an idle engine hangs exactly when the device
  never reports the number of packets asked for.
\<close>

theorem xmit_hang_iff:
  assumes "tx_request p a e r w pkts nb"
  shows "xdma_xmit_pkts hw p pkts nb w = Inl Hang \<longleftrightarrow> (\<forall>k. hw k AND 0xFFFFFF \<noteq> ucast nb)"
proof -
  note req = assms(1) [unfolded tx_request_def]
  show ?thesis
  proof (cases "tx_wait hw nb 0")
    case None
    with req have "xdma_xmit_pkts hw p pkts nb w = Inl Hang"
      by (intro xmit_cases(1) [OF _ _ _ _ _ _ refl None]) auto
    with None show ?thesis by (simp add: tx_wait_None_iff)
  next
    case (Some k)
    from req obtain w' where "xdma_xmit_pkts hw p pkts nb w = Inr (nb, w')"
      using xmit_cases(2) [OF _ _ _ _ _ _ refl Some] by blast
    moreover have "\<not> (\<forall>k. hw k AND 0xFFFFFF \<noteq> ucast nb)"
      using Some tx_wait_None_iff [of hw nb] by auto
    ultimately show ?thesis by simp
  qed
qed


text \<open>
  A call on a running engine changes nothing and reports 65535 packets sent: its \<open>-1\<close>
  does not survive the unsigned return type.
\<close>

theorem xmit_busy:
  assumes "engine_at p a e r w" and "running e"
  shows "\<exists>n. xdma_xmit_pkts hw p pkts nb w = Inr (n, w) \<and> unat n = 65535"
  using assms by (simp add: xdma_xmit_pkts_def engine_at_def Let_def unsigned_minus_1_eq_mask mask_eq_exp_minus_1)

section \<open>Sequences of bursts\<close>

text \<open>
  A client sends bursts one after the other; between two bursts it may change mbufs in any
  way.  \<open>tx_steps p w w'\<close> relates the states before and after such a sequence in which
  every call returns.
\<close>

inductive tx_steps :: "u64 \<Rightarrow> world \<Rightarrow> world \<Rightarrow> bool" for p :: u64 where
  none: "tx_steps p w w"
| refill: "tx_steps p w w' \<Longrightarrow> tx_steps p w (w'\<lparr>mbufs := m\<rparr>)"
| burst: "tx_steps p w w' \<Longrightarrow> (\<forall>mb \<in> set pkts. pkt_ok (mbufs w') mb) \<Longrightarrow> unat nb \<le> length pkts \<Longrightarrow>
    xdma_xmit_pkts hw p pkts nb w' = Inr (n, w'') \<Longrightarrow> tx_steps p w w''"

lemma tx_idle_mbufs: "tx_idle p a v (w\<lparr>mbufs := m\<rparr>) = tx_idle p a v w"
  by (simp add: tx_idle_def engine_at_mbufs)

lemma tx_idle_returns:
  assumes "tx_idle p a v w" and "\<forall>mb \<in> set pkts. pkt_ok (mbufs w) mb" and "unat nb \<le> length pkts"
    and "xdma_xmit_pkts hw p pkts nb w = Inr (n, w')"
  shows "tx_idle p a v w'"
proof -
  from assms(1) obtain e r where e: "engine_at p a e r w" "\<not> running e" "desc_used e = 0" "desc_max e = 32"
    by (rule tx_idleE)
  have "tx_wait hw nb 0 \<noteq> None"
    using xmit_cases(1) [OF e assms(2,3) refl, of hw] assms(4) by auto
  then obtain k where "hw k AND 0xFFFFFF = ucast nb" by (auto simp: tx_wait_None_iff)
  from tx_idle_xmit [where hw = hw, OF assms(1-3) this] assms(4) show ?thesis by auto
qed

text \<open>Over any sequence of bursts the transmit engine stays idle between calls.\<close>

lemma tx_steps_idle:
  assumes "tx_steps p w w'" and "tx_idle p a v w"
  shows "tx_idle p a v w'"
  using assms
proof (induction rule: tx_steps.induct)
  case (none w)
  then show ?case by simp
next
  case (refill w w' m)
  then show ?case by (simp add: tx_idle_mbufs)
next
  case (burst w w' pkts nb hw n w'')
  then show ?case using tx_idle_returns by blast
qed

text \<open>
  C7. The loops that fill the ring are equivalent to their reference, a declarative description
  of the burst: \<open>taken\<close> is the longest leading run of packets whose segments fit into the
  ring, and \<open>prepared\<close> is the state in which the concatenated segments of these packets are
  written over the leading descriptors, the descriptor after them is the terminator, and the
  adjacent counts descend.  The driver gets there one descriptor at a time, through the
  counter in its engine structure, and writes nothing else.
\<close>

theorem xmit_prepare_is_reference:
  assumes "tx_request p a e r w pkts nb"
  shows "xmit_prepare p pkts nb w = Inr (length (taken w e pkts nb), prepared p e r (taken w e pkts nb) w)"
  using assms unfolding tx_request_def by (intro xmit_prepare_eq) auto

end
