(* ===== verification/Rx.thy ===== *)
theory Rx
  imports Tx
begin

text \<open>
  The receive path of \<open>xdma_rxtx.c\<close>: posting empty mbufs to the C2H ring, polling the
  completion count a bounded number of times, and handing the completed mbufs over.

  \<open>hw i\<close> is the value of the \<open>i\<close>th load of the completion count; a polling round makes two
  of them.  \<open>swb id\<close> is what the stream write-back words (control, length) hold when the
  packet in slot \<open>id\<close> is prepared.
\<close>

section \<open>Posting\<close>

text \<open>
  The address of the stream write-back words: the offset is computed with
  \<open>XDMA_DESC_SIZE\<close> in 32 bits.
\<close>

definition stream_wb_addr :: "xdma_engine \<Rightarrow> u64" where
  "stream_wb_addr engine =
     desc_ring engine + ucast (ucast XDMA_DESC_SIZE * desc_max engine) + XDMA_POLL_MODE_WB_SIZE"

definition c2h_fill :: "xdma_engine \<Rightarrow> rte_mbuf \<Rightarrow> xdma_desc \<Rightarrow> xdma_desc" where
  "c2h_fill engine mb desc =
     (let vir2phy = buf_iova mb - buf_addr mb;
          dst_addr = data_iova mb;
          src_addr = stream_wb_addr engine + vir2phy;
          desc = desc\<lparr>dst_addr_lo := addr_lo dst_addr, dst_addr_hi := addr_hi dst_addr,
                      src_addr_lo := addr_lo src_addr, src_addr_hi := addr_hi src_addr,
                      len := 64\<rparr>
      in xdma_desc_control_set desc XDMA_DESC_COMPLETED)"

definition xdma_c2h_desc_set :: "u64 \<Rightarrow> u64 \<Rightarrow> world \<Rightarrow> fault + world" where
  "xdma_c2h_desc_set dev_hndl mb w =
     andThen (deref (mbufs w) mb) (\<lambda>m.
     andThen (deref (engines w) dev_hndl) (\<lambda>engine.
     andThen (get_desc dev_hndl w) (\<lambda>(i, w).
     desc_at dev_hndl i (c2h_fill engine m) w)))"

definition rx_fill :: "u64 list \<Rightarrow> nat \<Rightarrow> u64 \<Rightarrow> world \<Rightarrow> fault + world" where
  "rx_fill rx_pkts n p =
     for_loop 0 n (\<lambda>count w. andThen (load_idx rx_pkts count) (\<lambda>mb. xdma_c2h_desc_set p mb w))"

text \<open>The block of \<open>xdma_recv_pkts\<close> for an engine that is not running.\<close>

definition rx_post :: "u64 \<Rightarrow> u64 list \<Rightarrow> u16 \<Rightarrow> world \<Rightarrow> fault + u16 \<times> world" where
  "rx_post p rx_pkts nb_pkts w =
     andThen (deref (engines w) p) (\<lambda>engine.
     let nb_pkts = ucast (min (ucast nb_pkts) (desc_max engine)) in
     andThen (rx_fill rx_pkts (unat nb_pkts) p w) (\<lambda>w.
     andThen (call_rx_start (xdev engine) p (desc_addr (desc_ring engine) 0) w) (\<lambda>w.
     Inr (nb_pkts, w))))"

section \<open>Preparing packets\<close>

text \<open>The loop of \<open>prepare_segmented_packet\<close> is left by \<open>break\<close> in its first round.\<close>

definition packet_of :: "u32 \<Rightarrow> u32 \<Rightarrow> rte_mbuf \<Rightarrow> rte_mbuf" where
  "packet_of n port mb = mb\<lparr>nb_segs := 1, pkt_len := n, data_len := ucast n, packet_type := 0,
     ol_flags := 0, mb_port := ucast port, vlan_tci := 0, hash_rss := 0, mb_next := 0\<rparr>"

definition prepare_segmented_packet :: "(nat \<Rightarrow> u32 \<times> u32) \<Rightarrow> u64 \<Rightarrow> nat \<Rightarrow> u64 list \<Rightarrow> world
    \<Rightarrow> fault + u64 \<times> world" where
  "prepare_segmented_packet swb p i rx_pkts w =
     andThen (deref (engines w) p) (\<lambda>engine.
     andThen (load_idx rx_pkts i) (\<lambda>mb.
     let wb = stream_wb_addr engine in
     andThen (store_word wb (fst (swb i)) w) (\<lambda>w.
     andThen (deref (mbufs w) mb) (\<lambda>m.
     andThen (store_word (wb + 4) (snd (swb i)) w) (\<lambda>w.
     Inr (mb, w\<lparr>mbufs := (mbufs w)(mb \<mapsto> packet_of (snd (swb i)) (port_id engine) m)\<rparr>))))))"

text \<open>One round: the prefetch of the next entry loads the pointer after the current one.\<close>

definition prepare_round :: "(nat \<Rightarrow> u32 \<times> u32) \<Rightarrow> u64 \<Rightarrow> nat \<Rightarrow> u64 list \<times> world
    \<Rightarrow> fault + u64 list \<times> world" where
  "prepare_round swb p count_desc s =
     (let (rx_pkts, w) = s in
      andThen (prepare_segmented_packet swb p count_desc rx_pkts w) (\<lambda>(mb, w).
      andThen (load_idx rx_pkts (count_desc + 1)) (\<lambda>_.
      andThen (store_idx rx_pkts count_desc mb) (\<lambda>rx_pkts. Inr (rx_pkts, w)))))"

definition prepare_packets :: "(nat \<Rightarrow> u32 \<times> u32) \<Rightarrow> u64 \<Rightarrow> u64 list \<Rightarrow> u16 \<Rightarrow> u16 \<Rightarrow> world
    \<Rightarrow> fault + u16 \<times> u64 list \<times> world" where
  "prepare_packets swb p rx_pkts nb_pkts nb_cmpt_desc w =
     andThen (for_loop (unat nb_cmpt_desc) (unat nb_pkts - unat nb_cmpt_desc) (prepare_round swb p)
                (rx_pkts, w))
     (\<lambda>(rx_pkts, w). Inr (0, rx_pkts, w))"

section \<open>Receiving\<close>

text \<open>
  A round sees a new count when two successive loads agree on a value that differs from
  \<open>used\<close>; the result is the number of the first such round among the \<open>n\<close> from \<open>t\<close>.
\<close>

fun rx_poll :: "(nat \<Rightarrow> u32) \<Rightarrow> u32 \<Rightarrow> nat \<Rightarrow> nat \<Rightarrow> nat option" where
  "rx_poll hw used 0 t = None"
| "rx_poll hw used (Suc n) t =
     (let old = hw (2 * t) in
      if old = hw (2 * t + 1) \<and> old \<noteq> used then Some t else rx_poll hw used n (Suc t))"

definition RX_RETRY :: nat where "RX_RETRY = 100"
definition POLL_RETRY :: nat where "POLL_RETRY = 1000"

definition rx_collect :: "(nat \<Rightarrow> u32) \<Rightarrow> (nat \<Rightarrow> u32 \<times> u32) \<Rightarrow> u64 \<Rightarrow> u64 list \<Rightarrow> world
    \<Rightarrow> fault + u16 \<times> u64 list \<times> world" where
  "rx_collect hw swb p rx_pkts w =
     andThen (deref (engines w) p) (\<lambda>engine.
     let wb_status = poll_mode_addr_virt engine in
     case rx_poll hw (desc_used engine) (Suc RX_RETRY) 0 of
       None \<Rightarrow> andThen (store_word wb_status (hw (2 * RX_RETRY + 1)) w) (\<lambda>w. Inr (0, rx_pkts, w))
     | Some t \<Rightarrow>
         let old = hw (2 * t) in
         andThen (store_word wb_status old w) (\<lambda>w.
         andThen (prepare_packets swb p rx_pkts (ucast old) (ucast (desc_used engine)) w) (\<lambda>(_, rx_pkts, w).
         Inr (ucast (old - desc_used engine), rx_pkts, w\<lparr>engines := (engines w)(p \<mapsto>
                engine\<lparr>desc_used := old, status := RX_COMMPLETED\<rparr>)\<rparr>))))"

text \<open>
  The rest of the call after posting: collect, stop the engine when \<open>nb_pkts\<close> are
  complete, return the number of new packets.
\<close>

definition rx_tail :: "(nat \<Rightarrow> u32) \<Rightarrow> (nat \<Rightarrow> u32 \<times> u32) \<Rightarrow> u64 \<Rightarrow> u64 \<Rightarrow> u64 list \<Rightarrow> u16 \<Rightarrow> world
    \<Rightarrow> fault + u16 \<times> u64 list \<times> world" where
  "rx_tail hw swb xdma_dev p rx_pkts nb_pkts w =
     andThen (rx_collect hw swb p rx_pkts w) (\<lambda>(nb_cmpt_desc, rx_pkts, w).
     andThen (deref (engines w) p) (\<lambda>engine.
     andThen (if desc_used engine = ucast nb_pkts then call_rx_stop xdma_dev p w else Inr w) (\<lambda>w.
     Inr (nb_cmpt_desc, rx_pkts, w))))"

definition xdma_recv_pkts :: "(nat \<Rightarrow> u32) \<Rightarrow> (nat \<Rightarrow> u32 \<times> u32) \<Rightarrow> u64 \<Rightarrow> u64 list \<Rightarrow> u16 \<Rightarrow> world
    \<Rightarrow> fault + u16 \<times> u64 list \<times> world" where
  "xdma_recv_pkts hw swb p rx_pkts nb_pkts w =
     andThen (deref (engines w) p) (\<lambda>engine.
     let xdma_dev = xdev engine;
         w = w\<lparr>engines := (engines w)(p \<mapsto> engine\<lparr>status := 0\<rparr>)\<rparr>
     in andThen (if running engine then Inr (nb_pkts, w) else rx_post p rx_pkts nb_pkts w) (\<lambda>(nb_pkts, w).
     rx_tail hw swb xdma_dev p rx_pkts nb_pkts w))"

section \<open>Polling for completion\<close>

text \<open>Both look at the copy of the engine structure that the device holds.\<close>

definition xdma_poll_rx_complete :: "(nat \<Rightarrow> u32) \<Rightarrow> u64 \<Rightarrow> int \<Rightarrow> world \<Rightarrow> fault + u32 \<times> world" where
  "xdma_poll_rx_complete hw dev_hndl queue_id w =
     andThen (deref (xdevs w) dev_hndl) (\<lambda>xdma_dev.
     andThen (load_int (engine_c2h xdma_dev) queue_id) (\<lambda>engine.
     let wb_status = poll_mode_addr_virt engine in
     case rx_poll hw (desc_used engine) (Suc POLL_RETRY) 0 of
       None \<Rightarrow> andThen (store_word wb_status (hw (2 * POLL_RETRY + 1)) w) (\<lambda>w. Inr (hw (2 * POLL_RETRY), w))
     | Some t \<Rightarrow>
         andThen (store_word wb_status (hw (2 * t)) w) (\<lambda>w.
         andThen (store_int (engine_c2h xdma_dev) queue_id (engine\<lparr>status := RX_COMMPLETED\<rparr>)) (\<lambda>es.
         Inr (hw (2 * t), w\<lparr>xdevs := (xdevs w)(dev_hndl \<mapsto> xdma_dev\<lparr>engine_c2h := es\<rparr>)\<rparr>)))))"

definition xdma_poll_tx_complete :: "(nat \<Rightarrow> u32) \<Rightarrow> u64 \<Rightarrow> u16 \<Rightarrow> int \<Rightarrow> world \<Rightarrow> fault + u16 \<times> world" where
  "xdma_poll_tx_complete hw dev_hndl nb_pkts queue_id w =
     andThen (deref (xdevs w) dev_hndl) (\<lambda>xdma_dev.
     andThen (load_int (engine_h2c xdma_dev) queue_id) (\<lambda>engine.
     andThen (deref (words w) (poll_mode_addr_virt engine)) (\<lambda>_.
     case tx_wait hw nb_pkts 0 of None \<Rightarrow> Inl Hang
     | Some k \<Rightarrow> Inr (nb_pkts, w\<lparr>words := (words w)(poll_mode_addr_virt engine \<mapsto> hw k)\<rparr>))))"

definition xdma_set_tx_function :: "u64 \<Rightarrow> world \<Rightarrow> fault + world" where
  "xdma_set_tx_function dev w =
     andThen (deref (eth_devs w) dev) (\<lambda>d.
     Inr (w\<lparr>eth_devs := (eth_devs w)(dev \<mapsto> d\<lparr>tx_pkt_burst := Some Fn_xdma_xmit_pkts\<rparr>)\<rparr>))"

definition xdma_set_rx_function :: "u64 \<Rightarrow> world \<Rightarrow> fault + world" where
  "xdma_set_rx_function dev w =
     andThen (deref (eth_devs w) dev) (\<lambda>d.
     Inr (w\<lparr>eth_devs := (eth_devs w)(dev \<mapsto> d\<lparr>rx_pkt_burst := Some Fn_xdma_recv_pkts\<rparr>)\<rparr>))"

section \<open>The polling rounds\<close>

lemma rx_poll_Some:
  "rx_poll hw used n t = Some k \<Longrightarrow>
   t \<le> k \<and> k < t + n \<and> hw (2 * k) = hw (2 * k + 1) \<and> hw (2 * k) \<noteq> used"
  by (induction hw used n t rule: rx_poll.induct) (auto simp: Let_def split: if_splits)

lemma rx_poll_None:
  "rx_poll hw used n t = None \<longleftrightarrow>
   (\<forall>k. t \<le> k \<and> k < t + n \<longrightarrow> hw (2 * k) \<noteq> hw (2 * k + 1) \<or> hw (2 * k) = used)"
proof (induction hw used n t rule: rx_poll.induct)
  case (1 hw used t)
  then show ?case by auto
next
  case (2 hw used n t)
  have split: "(\<forall>k. t \<le> k \<and> k < t + Suc n \<longrightarrow> P k) \<longleftrightarrow> P t \<and> (\<forall>k. Suc t \<le> k \<and> k < Suc t + n \<longrightarrow> P k)"
    for P by (metis Suc_leI Suc_le_lessD add_Suc add_Suc_right le_eq_less_or_eq less_add_Suc1)
  show ?case unfolding split using 2 by (auto simp: Let_def)
qed

declare rx_poll.simps [simp del]

section \<open>Posting a burst\<close>

text \<open>An array whose entries point to mbufs.\<close>

definition mbufs_ok :: "(u64 \<rightharpoonup> rte_mbuf) \<Rightarrow> u64 list \<Rightarrow> bool" where
  "mbufs_ok m pkts \<longleftrightarrow> distinct pkts \<and> (\<forall>mb \<in> set pkts. mb \<noteq> 0 \<and> m mb \<noteq> None)"

lemma mbufs_okD: "mbufs_ok m pkts \<Longrightarrow> i < length pkts \<Longrightarrow> pkts ! i \<noteq> 0 \<and> (\<exists>x. m (pkts ! i) = Some x)"
  by (auto simp: mbufs_ok_def)

definition rx_fills :: "xdma_engine \<Rightarrow> (u64 \<rightharpoonup> rte_mbuf) \<Rightarrow> u64 list \<Rightarrow> (xdma_desc \<Rightarrow> xdma_desc) list" where
  "rx_fills e m pkts = map (\<lambda>mb. c2h_fill e (the (m mb))) pkts"

lemma c2h_fill_engine [simp]:
  "c2h_fill (e\<lparr>desc_used := u\<rparr>) = c2h_fill e" "c2h_fill (e\<lparr>status := s\<rparr>) = c2h_fill e"
  "c2h_fill (e\<lparr>running := b\<rparr>) = c2h_fill e"
  by (simp_all add: c2h_fill_def stream_wb_addr_def fun_eq_iff)

lemma stream_wb_engine [simp]:
  "stream_wb_addr (e\<lparr>desc_used := u\<rparr>) = stream_wb_addr e"
  "stream_wb_addr (e\<lparr>status := s\<rparr>) = stream_wb_addr e"
  "stream_wb_addr (e\<lparr>running := b\<rparr>) = stream_wb_addr e"
  by (simp_all add: stream_wb_addr_def)

lemma c2h_set_fills:
  assumes at: "engine_at p a e r w" and mb: "mb \<noteq> 0" "mbufs w mb = Some m"
    and room: "length fs < unat (desc_max e)"
  shows "xdma_c2h_desc_set p mb (filled p e r fs w) = Inr (filled p e r (fs @ [c2h_fill e m]) w)"
proof -
  from one_slot [OF at room, of "c2h_fill e m"] obtain u where
    u: "get_desc p (filled p e r fs w) = Inr (length fs, u)"
       "desc_at p (length fs) (c2h_fill e m) u = Inr (filled p e r (fs @ [c2h_fill e m]) w)" by blast
  have "p \<noteq> 0" using at by (simp add: engine_at_def)
  moreover have "engines (filled p e r fs w) p
      = Some (e\<lparr>desc_used := of_nat (length fs mod unat (desc_max e))\<rparr>)"
    by (simp add: filled_def)
  ultimately show ?thesis using u mb by (simp add: xdma_c2h_desc_set_def)
qed

lemma rx_fill_fills:
  assumes at: "engine_at p a e r w" and ok: "mbufs_ok (mbufs w) pkts"
  shows "i + n \<le> length pkts \<Longrightarrow> i + n \<le> unat (desc_max e) \<Longrightarrow>
    for_loop i n (\<lambda>count w. andThen (load_idx pkts count) (\<lambda>mb. xdma_c2h_desc_set p mb w))
      (filled p e r (rx_fills e (mbufs w) (take i pkts)) w)
    = Inr (filled p e r (rx_fills e (mbufs w) (take (i + n) pkts)) w)"
proof (induction n arbitrary: i)
  case 0
  then show ?case by simp
next
  case (Suc n)
  from ok Suc.prems(1) obtain m where m: "pkts ! i \<noteq> 0" "mbufs w (pkts ! i) = Some m"
    using mbufs_okD [of "mbufs w" pkts i] by auto
  have "take (Suc i) pkts = take i pkts @ [pkts ! i]"
    using Suc.prems(1) by (simp add: take_Suc_conv_app_nth)
  then have fs: "rx_fills e (mbufs w) (take (Suc i) pkts) = rx_fills e (mbufs w) (take i pkts) @ [c2h_fill e m]"
    by (simp add: rx_fills_def m)
  have "xdma_c2h_desc_set p (pkts ! i) (filled p e r (rx_fills e (mbufs w) (take i pkts)) w)
      = Inr (filled p e r (rx_fills e (mbufs w) (take (Suc i) pkts)) w)"
    unfolding fs using Suc.prems by (intro c2h_set_fills [OF at m]) (simp add: rx_fills_def)
  then show ?case using Suc.prems Suc.IH [of "Suc i"] by simp
qed

lemma rx_post_eq:
  assumes at: "engine_at p a e r w" and idle: "desc_used e = 0" and max: "desc_max e = 32"
    and ok: "mbufs_ok (mbufs w) pkts" and n: "n = min (unat nb) 32" and len: "n \<le> length pkts"
  shows "\<exists>regs. rx_post p pkts nb w = Inr (of_nat n, started p a (e\<lparr>desc_used := of_nat (n mod 32)\<rparr>)
      (regs @ [(C2H_CHANNEL_CTRL, start_ctrl)]) (filled p e r (rx_fills e (mbufs w) (take n pkts)) w))"
proof -
  let ?f = "filled p e r (rx_fills e (mbufs w) (take n pkts)) w"
  let ?e = "e\<lparr>desc_used := of_nat (n mod 32)\<rparr>"
  have nb: "ucast (min (ucast nb) (32 :: u32)) = (of_nat n :: u16)"
  proof -
    have "unat (ucast nb :: u32) = unat nb"
      using unat_u16_less [of nb] by (simp add: unsigned_ucast_eq take_bit_nat_eq_self)
    then have "unat (min (ucast nb) (32 :: u32)) = n"
      by (simp add: n min_def word_le_nat_alt)
    then show ?thesis by (metis of_nat_unat)
  qed
  have un: "unat (of_nat n :: u16) = n" using n by simp
  have at': "engine_at p a ?e (apply_fills (rx_fills e (mbufs w) (take n pkts)) r) ?f"
    using engine_at_filled [OF at, of "rx_fills e (mbufs w) (take n pkts)"] len max
    by (simp add: rx_fills_def min_absorb2)
  have "rx_fill pkts n p w = Inr ?f"
    using rx_fill_fills [OF at ok, of 0 n] n len max filled_Nil [OF at idle]
    by (simp add: rx_fill_def rx_fills_def)
  moreover from rx_ops.start_law [OF at'] obtain regs where
    "xdma_rx_engine_start p (desc_addr (desc_ring e) 0) ?f
      = Inr (started p a ?e (regs @ [(C2H_CHANNEL_CTRL, start_ctrl)]) ?f)" by blast
  moreover have "call_rx_start (xdev e) p f ?f = xdma_rx_engine_start p f ?f" for f
    using call_rx_start_eq [OF at'] by simp
  ultimately show ?thesis
    using at max unfolding rx_post_def by (auto simp: engine_at_def nb un Let_def)
qed

section \<open>Collecting completed packets\<close>

text \<open>The mbufs after the packets of slots \<open>ids\<close> were prepared.\<close>

definition deliver :: "(nat \<Rightarrow> u32 \<times> u32) \<Rightarrow> u32 \<Rightarrow> u64 list \<Rightarrow> nat list \<Rightarrow> (u64 \<rightharpoonup> rte_mbuf) \<Rightarrow> (u64 \<rightharpoonup> rte_mbuf)" where
  "deliver swb port pkts ids m =
     fold (\<lambda>i m. m(pkts ! i \<mapsto> packet_of (snd (swb i)) port (the (m (pkts ! i))))) ids m"

lemma deliver_other:
  "(\<And>i. i \<in> set ids \<Longrightarrow> pkts ! i \<noteq> mb) \<Longrightarrow> deliver swb port pkts ids m mb = m mb"
  by (induction ids arbitrary: m) (auto simp: deliver_def)

lemma deliver_at:
  assumes "distinct pkts" and "distinct ids" and "set ids \<subseteq> {..<length pkts}" and "i \<in> set ids"
  shows "deliver swb port pkts ids m (pkts ! i) = Some (packet_of (snd (swb i)) port (the (m (pkts ! i))))"
  using assms(2-)
proof (induction ids arbitrary: m)
  case Nil
  then show ?case by simp
next
  case (Cons j ids)
  have neq: "pkts ! j \<noteq> pkts ! k" if "k \<in> set ids" for k
    using Cons.prems that assms(1) by (auto simp: nth_eq_iff_index_eq)
  let ?m = "m(pkts ! j \<mapsto> packet_of (snd (swb j)) port (the (m (pkts ! j))))"
  have step: "deliver swb port pkts (j # ids) m = deliver swb port pkts ids ?m" by (simp add: deliver_def)
  show ?case
  proof (cases "i = j")
    case True
    have "\<And>k. k \<in> set ids \<Longrightarrow> pkts ! k \<noteq> pkts ! j" using neq by metis
    then show ?thesis unfolding step using True by (simp add: deliver_other)
  next
    case False
    with Cons.prems have i: "i \<in> set ids" by simp
    then have "?m (pkts ! i) = m (pkts ! i)" using neq [OF i] by simp
    moreover have "deliver swb port pkts ids ?m (pkts ! i)
        = Some (packet_of (snd (swb i)) port (the (?m (pkts ! i))))"
      by (rule Cons.IH) (use Cons.prems i in auto)
    ultimately show ?thesis unfolding step by (simp only:)
  qed
qed

text \<open>The stream write-back words are mapped.\<close>

definition stream_mapped :: "xdma_engine \<Rightarrow> world \<Rightarrow> bool" where
  "stream_mapped e w \<longleftrightarrow> stream_wb_addr e \<noteq> 0 \<and> stream_wb_addr e + 4 \<noteq> 0 \<and>
     words w (stream_wb_addr e) \<noteq> None \<and> words w (stream_wb_addr e + 4) \<noteq> None"

definition words_kept :: "(u64 \<rightharpoonup> u32) \<Rightarrow> (u64 \<rightharpoonup> u32) \<Rightarrow> bool" where
  "words_kept ws ws' \<longleftrightarrow> (\<forall>x. ws x \<noteq> None \<longrightarrow> ws' x \<noteq> None)"

lemma words_kept_refl [simp]: "words_kept ws ws"
  by (simp add: words_kept_def)

lemma words_kept_upd: "words_kept ws ws' \<Longrightarrow> words_kept ws (ws'(a \<mapsto> v))"
  by (simp add: words_kept_def)

lemma words_kept_trans: "words_kept a b \<Longrightarrow> words_kept b c \<Longrightarrow> words_kept a c"
  by (simp add: words_kept_def)

lemma engine_at_words:
  "engine_at p a e r w \<Longrightarrow> words_kept (words w) ws \<Longrightarrow> engine_at p a e r (w\<lparr>words := ws\<rparr>)"
  by (simp add: engine_at_def words_kept_def)

lemma prepare_one:
  assumes "p \<noteq> 0" "engines w p = Some e" and "i < length pkts" and "pkts ! i \<noteq> 0"
    and "mbufs w (pkts ! i) = Some m" and "stream_mapped e w"
  shows "\<exists>ws. words_kept (words w) ws \<and> prepare_segmented_packet swb p i pkts w = Inr (pkts ! i,
    w\<lparr>words := ws, mbufs := (mbufs w)(pkts ! i \<mapsto> packet_of (snd (swb i)) (port_id e) m)\<rparr>)"
proof -
  let ?s = "stream_wb_addr e"
  from assms(6) obtain x y where xy: "?s \<noteq> 0" "?s + 4 \<noteq> 0" "words w ?s = Some x" "words w (?s + 4) = Some y"
    by (auto simp: stream_mapped_def)
  have ne: "?s + 4 \<noteq> ?s" by simp
  show ?thesis
    using assms xy ne
    by (intro exI [of _ "(words w)(?s \<mapsto> fst (swb i), ?s + 4 \<mapsto> snd (swb i))"])
       (simp add: prepare_segmented_packet_def store_word_def words_kept_def Let_def)
qed

lemma prepare_loop:
  "p \<noteq> 0 \<Longrightarrow> engines w p = Some e \<Longrightarrow> stream_mapped e w \<Longrightarrow> mbufs_ok (mbufs w) pkts \<Longrightarrow>
   i + n < length pkts \<Longrightarrow>
   \<exists>ws. words_kept (words w) ws \<and> for_loop i n (prepare_round swb p) (pkts, w)
    = Inr (pkts, w\<lparr>words := ws, mbufs := deliver swb (port_id e) pkts [i..<i + n] (mbufs w)\<rparr>)"
proof (induction n arbitrary: i w)
  case 0
  then show ?case by (intro exI [of _ "words w"]) (simp add: deliver_def)
next
  case (Suc n)
  obtain m where m: "pkts ! i \<noteq> 0" "mbufs w (pkts ! i) = Some m"
    using mbufs_okD [OF Suc.prems(4), of i] Suc.prems(5) by auto
  let ?m = "(mbufs w)(pkts ! i \<mapsto> packet_of (snd (swb i)) (port_id e) m)"
  obtain ws where ws: "words_kept (words w) ws"
    "prepare_segmented_packet swb p i pkts w = Inr (pkts ! i, w\<lparr>words := ws, mbufs := ?m\<rparr>)"
    using prepare_one [OF Suc.prems(1,2) _ m Suc.prems(3)] Suc.prems(5) by auto
  let ?w = "w\<lparr>words := ws, mbufs := ?m\<rparr>"
  have round: "prepare_round swb p i (pkts, w) = Inr (pkts, ?w)"
    using ws(2) Suc.prems(5) by (simp add: prepare_round_def)
  have "engines ?w p = Some e" "stream_mapped e ?w" "mbufs_ok (mbufs ?w) pkts" "Suc i + n < length pkts"
    using Suc.prems ws(1) by (simp_all add: stream_mapped_def words_kept_def mbufs_ok_def)
  from Suc.IH [OF Suc.prems(1) this] obtain ws' where ws': "words_kept (words ?w) ws'"
    "for_loop (Suc i) n (prepare_round swb p) (pkts, ?w) = Inr (pkts,
      ?w\<lparr>words := ws', mbufs := deliver swb (port_id e) pkts [Suc i..<Suc i + n] (mbufs ?w)\<rparr>)"
    by blast
  have "[i..<i + Suc n] = i # [Suc i..<Suc i + n]" by (simp add: upt_conv_Cons del: upt_Suc)
  then have dl: "deliver swb (port_id e) pkts [i..<i + Suc n] (mbufs w)
      = deliver swb (port_id e) pkts [Suc i..<Suc i + n] ?m"
    by (simp add: deliver_def m del: upt_Suc)
  have "for_loop i (Suc n) (prepare_round swb p) (pkts, w) = Inr (pkts,
      ?w\<lparr>words := ws', mbufs := deliver swb (port_id e) pkts [Suc i..<Suc i + n] (mbufs ?w)\<rparr>)"
    using round ws'(2) by simp
  also have "\<dots> = Inr (pkts, w\<lparr>words := ws', mbufs := deliver swb (port_id e) pkts [i..<i + Suc n] (mbufs w)\<rparr>)"
    unfolding dl by simp
  finally show ?case using words_kept_trans [OF ws(1)] ws'(1) by auto
qed

section \<open>A whole receive call\<close>

text \<open>
  A C2H engine whose ring has the driver's size, whose stream words are mapped, and an array
  of mbufs.
\<close>

definition rx_ready :: "u64 \<Rightarrow> u64 \<Rightarrow> xdma_engine \<Rightarrow> xdma_desc list \<Rightarrow> u64 list \<Rightarrow> world \<Rightarrow> bool" where
  "rx_ready p a e r pkts w \<longleftrightarrow>
     engine_at p a e r w \<and> desc_max e = 32 \<and> stream_mapped e w \<and> mbufs_ok (mbufs w) pkts"

lemma rx_collect_None:
  assumes "engine_at p a e r w" and "rx_poll hw (desc_used e) (Suc RX_RETRY) 0 = None"
  shows "\<exists>ws. words_kept (words w) ws \<and> rx_collect hw swb p pkts w = Inr (0, pkts, w\<lparr>words := ws\<rparr>)"
proof -
  from assms(1) obtain v where v: "p \<noteq> 0" "engines w p = Some e" "poll_mode_addr_virt e \<noteq> 0"
    "words w (poll_mode_addr_virt e) = Some v" by (auto simp: engine_at_def)
  then show ?thesis
    using assms(2)
    by (intro exI [of _ "(words w)(poll_mode_addr_virt e \<mapsto> hw (2 * RX_RETRY + 1))"])
       (simp add: rx_collect_def store_word_def words_kept_def Let_def)
qed

lemma unat_ucast16: "unat (x :: u32) < 65536 \<Longrightarrow> unat (ucast x :: u16) = unat x"
  by (simp add: unsigned_ucast_eq take_bit_nat_eq_self)

lemma rx_collect_Some:
  assumes ready: "rx_ready p a e r pkts w" and poll: "rx_poll hw (desc_used e) (Suc RX_RETRY) 0 = Some t"
    and c: "desc_used e \<le> hw (2 * t)" "unat (hw (2 * t)) < length pkts" "unat (hw (2 * t)) < 65536"
  shows "\<exists>ws. words_kept (words w) ws \<and>
    rx_collect hw swb p pkts w = Inr (ucast (hw (2 * t) - desc_used e), pkts,
      w\<lparr>words := ws, mbufs := deliver swb (port_id e) pkts [unat (desc_used e)..<unat (hw (2 * t))] (mbufs w),
        engines := (engines w)(p \<mapsto> e\<lparr>desc_used := hw (2 * t), status := RX_COMMPLETED\<rparr>)\<rparr>)"
proof -
  let ?c = "hw (2 * t)" and ?u = "desc_used e"
  from ready obtain v where v: "p \<noteq> 0" "engines w p = Some e" "poll_mode_addr_virt e \<noteq> 0"
    "words w (poll_mode_addr_virt e) = Some v" "stream_mapped e w" "mbufs_ok (mbufs w) pkts"
    by (auto simp: rx_ready_def engine_at_def)
  have le: "unat ?u \<le> unat ?c" using c(1) by (simp add: word_le_nat_alt)
  then have u: "unat (ucast ?u :: u16) = unat ?u" "unat (ucast ?c :: u16) = unat ?c"
    using c(3) by (simp_all add: unat_ucast16)
  let ?w = "w\<lparr>words := (words w)(poll_mode_addr_virt e \<mapsto> ?c)\<rparr>"
  have "stream_mapped e ?w" using v(5) by (simp add: stream_mapped_def)
  from prepare_loop [OF v(1) _ this, where i = "unat ?u" and n = "unat ?c - unat ?u" and pkts = pkts and swb = swb]
  obtain ws where ws: "words_kept (words ?w) ws"
    "for_loop (unat ?u) (unat ?c - unat ?u) (prepare_round swb p) (pkts, ?w)
      = Inr (pkts, ?w\<lparr>words := ws, mbufs := deliver swb (port_id e) pkts [unat ?u..<unat ?c] (mbufs w)\<rparr>)"
    using v le c(2) by auto
  have "rx_collect hw swb p pkts w = Inr (ucast (?c - ?u), pkts,
      w\<lparr>words := ws, mbufs := deliver swb (port_id e) pkts [unat ?u..<unat ?c] (mbufs w),
        engines := (engines w)(p \<mapsto> e\<lparr>desc_used := ?c, status := RX_COMMPLETED\<rparr>)\<rparr>)"
    using v ws(2) by (simp add: rx_collect_def prepare_packets_def poll store_word_def u Let_def)
  moreover have "words_kept (words w) ws"
    using ws(1) words_kept_trans [OF words_kept_upd [OF words_kept_refl]] by simp
  ultimately show ?thesis by blast
qed

end
