(* ===== verification/Rx_Correct.thy ===== *)
theory Rx_Correct
  imports Rx
begin

text \<open>
  What the receive path guarantees: how a burst is posted, which packets a call delivers, when
  the engine stops, and what happens over a sequence of calls.
\<close>

section \<open>Calls on running and on idle engines\<close>

lemma engine_at_status:
  "engine_at p a e r w \<Longrightarrow>
   engine_at p a (e\<lparr>status := s\<rparr>) r (w\<lparr>engines := (engines w)(p \<mapsto> e\<lparr>status := s\<rparr>)\<rparr>)"
  by (simp add: engine_at_def)

lemma recv_running_eq:
  assumes ready: "rx_ready p a e r pkts w" and run: "running e"
  shows "\<exists>w1. xdma_recv_pkts hw swb p pkts nb w = rx_tail hw swb (xdev e) p pkts nb w1 \<and>
    rx_ready p a (e\<lparr>status := 0\<rparr>) r pkts w1 \<and> mbufs w1 = mbufs w \<and> mmio w1 = mmio w"
proof (intro exI [of _ "w\<lparr>engines := (engines w)(p \<mapsto> e\<lparr>status := 0\<rparr>)\<rparr>"] conjI)
  let ?w = "w\<lparr>engines := (engines w)(p \<mapsto> e\<lparr>status := 0\<rparr>)\<rparr>"
  show "xdma_recv_pkts hw swb p pkts nb w = rx_tail hw swb (xdev e) p pkts nb ?w"
    using assms by (simp add: rx_ready_def engine_at_def xdma_recv_pkts_def Let_def)
  show "rx_ready p a (e\<lparr>status := 0\<rparr>) r pkts ?w"
    using ready engine_at_status [of p a e r w 0] by (simp add: rx_ready_def stream_mapped_def)
qed simp_all

lemma recv_idle_eq:
  assumes ready: "rx_ready p a e r pkts w" and idle: "\<not> running e" "desc_used e = 0"
    and n: "n = min (unat nb) 32" and len: "n \<le> length pkts"
  shows "\<exists>w1. xdma_recv_pkts hw swb p pkts nb w = rx_tail hw swb (xdev e) p pkts (of_nat n) w1 \<and>
    rx_ready p a (e\<lparr>status := 0, desc_used := of_nat (n mod 32), running := True\<rparr>)
      (apply_fills (rx_fills e (mbufs w) (take n pkts)) r) pkts w1 \<and>
    mbufs w1 = mbufs w \<and> hw_running (a + ucast (chan_reg C2H_CHANNEL_CTRL e)) w1"
proof -
  note rdy = ready [unfolded rx_ready_def]
  let ?e = "e\<lparr>status := 0\<rparr>"
  let ?w = "w\<lparr>engines := (engines w)(p \<mapsto> ?e)\<rparr>"
  let ?fs = "rx_fills e (mbufs w) (take n pkts)"
  have at: "engine_at p a ?e r ?w" using rdy by (intro engine_at_status) simp
  have fs: "rx_fills ?e (mbufs ?w) (take n pkts) = ?fs" by (simp add: rx_fills_def)
  have lf: "length ?fs = n" using len by (simp add: rx_fills_def)
  from rx_post_eq [OF at _ _ _ n len] obtain regs where post: "rx_post p pkts nb ?w
    = Inr (of_nat n, started p a (?e\<lparr>desc_used := of_nat (n mod 32)\<rparr>)
        (regs @ [(C2H_CHANNEL_CTRL, start_ctrl)]) (filled p ?e r ?fs ?w))"
    unfolding fs using rdy idle by auto
  let ?w1 = "started p a (?e\<lparr>desc_used := of_nat (n mod 32)\<rparr>)
        (regs @ [(C2H_CHANNEL_CTRL, start_ctrl)]) (filled p ?e r ?fs ?w)"
  have "engine_at p a (?e\<lparr>desc_used := of_nat (n mod 32)\<rparr>) (apply_fills ?fs r) (filled p ?e r ?fs ?w)"
    using engine_at_filled [OF at, of ?fs] rdy lf by simp
  from engine_at_started [OF this]
  have at1: "engine_at p a (e\<lparr>status := 0, desc_used := of_nat (n mod 32), running := True\<rparr>)
      (apply_fills ?fs r) ?w1" .
  have "words ?w1 = words w" "mbufs ?w1 = mbufs w" by (simp_all add: filled_def)
  moreover have "hw_running (a + ucast (chan_reg C2H_CHANNEL_CTRL e)) ?w1"
    by (simp add: hw_running_def chan_reg_def)
  moreover have "xdma_recv_pkts hw swb p pkts nb w = rx_tail hw swb (xdev e) p pkts (of_nat n) ?w1"
    using rdy idle post by (simp add: engine_at_def xdma_recv_pkts_def Let_def)
  ultimately show ?thesis
    using at1 rdy by (intro exI [of _ ?w1]) (simp add: rx_ready_def stream_mapped_def)
qed

text \<open>The end of a call: \<open>e\<close> is the engine after collecting.\<close>

definition rx_end :: "u64 \<Rightarrow> u64 \<Rightarrow> xdma_engine \<Rightarrow> xdma_desc list \<Rightarrow> u16 \<Rightarrow> u64 list \<Rightarrow> world \<Rightarrow> bool" where
  "rx_end p a e r nb pkts w \<longleftrightarrow>
     (if desc_used e = ucast nb
      then rx_ready p a (e\<lparr>running := False, desc_used := 0\<rparr>) (map (clear_desc (dir e)) r) pkts w \<and>
           \<not> hw_running (a + ucast (chan_reg C2H_CHANNEL_CTRL e)) w
      else rx_ready p a e r pkts w)"

lemma rx_stop_end:
  assumes "rx_ready p a e r pkts w" and "desc_used e = ucast nb" and "xd = xdev e"
  shows "\<exists>w'. call_rx_stop xd p w = Inr w' \<and> rx_end p a e r nb pkts w' \<and> mbufs w' = mbufs w"
proof -
  let ?w = "halted C2H_CHANNEL_CTRL p a e r w"
  have at: "engine_at p a e r w" using assms(1) by (simp add: rx_ready_def)
  have "call_rx_stop (xdev e) p w = Inr ?w"
    using call_rx_stop_eq [OF at] rx_ops.stop_law [OF at] by simp
  moreover have "rx_end p a e r nb pkts ?w"
    using assms engine_at_halted [OF at, of C2H_CHANNEL_CTRL]
    by (simp add: rx_end_def rx_ready_def stream_mapped_def hw_running_def)
  ultimately show ?thesis using assms(3) by (intro exI [of _ ?w]) simp
qed

lemma rx_tail_None:
  assumes ready: "rx_ready p a e r pkts w" and poll: "rx_poll hw (desc_used e) (Suc RX_RETRY) 0 = None"
  shows "\<exists>w'. rx_tail hw swb (xdev e) p pkts nb w = Inr (0, pkts, w') \<and> rx_end p a e r nb pkts w' \<and>
    mbufs w' = mbufs w"
proof -
  note rdy = ready [unfolded rx_ready_def]
  from rx_collect_None [OF _ poll] rdy obtain ws where ws: "words_kept (words w) ws"
    "rx_collect hw swb p pkts w = Inr (0, pkts, w\<lparr>words := ws\<rparr>)" by blast
  let ?w = "w\<lparr>words := ws\<rparr>"
  have r1: "rx_ready p a e r pkts ?w"
    using rdy ws(1) engine_at_words [of p a e r w ws]
    by (simp add: rx_ready_def stream_mapped_def words_kept_def)
  have p: "p \<noteq> 0" "engines w p = Some e" using rdy by (simp_all add: engine_at_def)
  show ?thesis
  proof (cases "desc_used e = ucast nb")
    case True
    from rx_stop_end [OF r1 this refl] ws(2) p True show ?thesis by (auto simp: rx_tail_def)
  next
    case False
    then show ?thesis using ws(2) p r1 by (intro exI [of _ ?w]) (simp add: rx_tail_def rx_end_def)
  qed
qed

lemma mbufs_ok_deliver:
  assumes "mbufs_ok m pkts"
  shows "mbufs_ok (deliver swb port pkts ids m) pkts"
proof -
  have "deliver swb port pkts ids m mb \<noteq> None" if "m mb \<noteq> None" for mb and m :: "u64 \<rightharpoonup> rte_mbuf"
    using that by (induction ids arbitrary: m) (auto simp: deliver_def)
  with assms show ?thesis by (auto simp: mbufs_ok_def)
qed

lemma rx_tail_Some:
  assumes ready: "rx_ready p a e r pkts w" and poll: "rx_poll hw (desc_used e) (Suc RX_RETRY) 0 = Some t"
    and c: "desc_used e \<le> hw (2 * t)" "hw (2 * t) \<le> 32" "unat (hw (2 * t)) < length pkts"
  shows "\<exists>w'. rx_tail hw swb (xdev e) p pkts nb w = Inr (ucast (hw (2 * t) - desc_used e), pkts, w') \<and>
    rx_end p a (e\<lparr>desc_used := hw (2 * t), status := RX_COMMPLETED\<rparr>) r nb pkts w' \<and>
    mbufs w' = deliver swb (port_id e) pkts [unat (desc_used e)..<unat (hw (2 * t))] (mbufs w)"
proof -
  note rdy = ready [unfolded rx_ready_def]
  let ?e = "e\<lparr>desc_used := hw (2 * t), status := RX_COMMPLETED\<rparr>"
  let ?m = "deliver swb (port_id e) pkts [unat (desc_used e)..<unat (hw (2 * t))] (mbufs w)"
  have "unat (hw (2 * t)) < 65536" using c(2) by (simp add: word_le_nat_alt)
  from rx_collect_Some [OF ready poll c(1,3) this, of swb] obtain ws where ws: "words_kept (words w) ws"
    "rx_collect hw swb p pkts w = Inr (ucast (hw (2 * t) - desc_used e), pkts,
      w\<lparr>words := ws, mbufs := ?m, engines := (engines w)(p \<mapsto> ?e)\<rparr>)" by blast
  let ?w = "w\<lparr>words := ws, mbufs := ?m, engines := (engines w)(p \<mapsto> ?e)\<rparr>"
  have "engine_at p a ?e r ?w"
    using rdy c(2) ws(1) by (simp add: engine_at_def words_kept_def)
  then have r1: "rx_ready p a ?e r pkts ?w"
    using rdy ws(1) mbufs_ok_deliver by (simp add: rx_ready_def stream_mapped_def words_kept_def)
  have p: "p \<noteq> 0" using rdy by (simp add: engine_at_def)
  show ?thesis
  proof (cases "desc_used ?e = ucast nb")
    case True
    from rx_stop_end [OF r1 this, of "xdev e"] ws(2) p True show ?thesis by (auto simp: rx_tail_def)
  next
    case False
    then show ?thesis using ws(2) p r1 by (intro exI [of _ ?w]) (simp add: rx_tail_def rx_end_def)
  qed
qed

section \<open>Calls that return\<close>

text \<open>None of the faults of a call is a hang.\<close>

definition returns :: "fault + 'a \<Rightarrow> bool" where
  "returns m \<longleftrightarrow> m \<noteq> Inl Hang"

lemma returns_simps [simp, intro!]: "returns (Inr x)" "returns (Inl NullDeref)" "returns (Inl BadAccess)"
  "returns (Inl OutOfBounds)" "returns (Inl DivByZero)"
  by (simp_all add: returns_def)

lemma returns_andThen [intro!]: "returns m \<Longrightarrow> (\<And>x. returns (f x)) \<Longrightarrow> returns (andThen m f)"
  by (cases m) (auto simp: returns_def)

lemma returns_prod [intro!]: "(\<And>a b. x = (a, b) \<Longrightarrow> returns (f a b)) \<Longrightarrow> returns (case x of (a, b) \<Rightarrow> f a b)"
  by (cases x) auto

lemma returns_for_loop [intro!]: "(\<And>i s. returns (body i s)) \<Longrightarrow> returns (for_loop a n body s)"
  by (induction n arbitrary: a s) auto

lemma returns_bus [intro!]: "(\<And>a v w. returns (wr a v w)) \<Longrightarrow> returns (bus_program wr xs w)"
  by (induction xs arbitrary: w) (auto simp: bus_program.simps)

lemma returns_access [intro!]:
  "returns (deref m q)" "returns (load_idx xs i)" "returns (store_idx xs i x)" "returns (load_int xs j)"
  by (auto simp: deref_def load_idx_def store_idx_def load_int_def split: option.splits)

lemma returns_modify [intro!]: "returns (modify_idx i f xs)"
  by (auto simp: modify_idx_def)

lemma returns_update_ring [intro!]: "(\<And>r. returns (f r)) \<Longrightarrow> returns (update_ring b f w)"
  by (auto simp: update_ring_def)

lemma returns_store_word [intro!]: "returns (store_word b v w)"
  by (auto simp: store_word_def)

lemma returns_reg_write [intro!]: "returns (xdma_reg_write h off v w)"
  unfolding xdma_reg_write_def bar_base_def by (auto split: if_splits)

lemma returns_desc_at [intro!]: "returns (desc_at q i f w)"
  by (auto simp: desc_at_def)

lemma returns_c2h [intro!]: "returns (xdma_c2h_desc_set q mb w)"
  unfolding xdma_c2h_desc_set_def get_desc_def Let_def
  by (intro returns_andThen returns_access) (auto split: prod.splits)

lemma returns_rx_start [intro!]: "returns (call_rx_start xd q f w)"
  unfolding call_rx_start_def hw_access_of_def xdma_rx_engine_start_def Let_def
  by (intro returns_andThen returns_access) (auto split: option.splits rx_start_fn.splits)

lemma returns_rx_stop [intro!]: "returns (call_rx_stop xd q w)"
  unfolding call_rx_stop_def hw_access_of_def engine_stop_fn_def xdma_tx_engine_stop_def
    xdma_rx_engine_stop_def xdma_desc_ring_clear_def Let_def
  by (intro returns_andThen returns_access) (auto split: option.splits engine_stop_fn.splits)

lemma returns_prepare [intro!]: "returns (prepare_packets swb q pkts n u w)"
  unfolding prepare_packets_def prepare_round_def prepare_segmented_packet_def Let_def
  by (intro returns_andThen returns_for_loop) (auto split: prod.splits)

lemma returns_collect [intro!]: "returns (rx_collect hw swb q pkts w)"
  unfolding rx_collect_def Let_def
  by (intro returns_andThen returns_access) (auto split: option.splits prod.splits)

lemma returns_tail [intro!]: "returns (rx_tail hw swb xd q pkts nb w)"
  unfolding rx_tail_def
  by (auto split: prod.splits)

lemma returns_post [intro!]: "returns (rx_post q pkts nb w)"
  unfolding rx_post_def rx_fill_def Let_def
  by (intro returns_andThen returns_access returns_for_loop) auto

lemma recv_some:
  assumes "rx_ready p a e r pkts w" and "running e"
    and "rx_poll hw (desc_used e) (Suc RX_RETRY) 0 = Some t" and "c = hw (2 * t)"
    and "desc_used e \<le> c" and "c \<le> 32" and "unat c < length pkts"
  shows "\<exists>n w' e' r'. xdma_recv_pkts hw swb p pkts nb w = Inr (n, pkts, w') \<and>
    unat n = unat c - unat (desc_used e) \<and>
    (\<forall>i. unat (desc_used e) \<le> i \<and> i < unat c \<longrightarrow>
       mbufs w' (pkts ! i) = Some (packet_of (snd (swb i)) (port_id e) (the (mbufs w (pkts ! i))))) \<and>
    (\<forall>mb. mb \<notin> (!) pkts ` {unat (desc_used e)..<unat c} \<longrightarrow> mbufs w' mb = mbufs w mb) \<and>
    rx_ready p a e' r' pkts w' \<and> port_id e' = port_id e \<and>
    (if c = ucast nb then \<not> running e' \<and> desc_used e' = 0 \<and> r' = map (clear_desc (dir e)) r \<and>
       \<not> hw_running (a + ucast (chan_reg C2H_CHANNEL_CTRL e)) w'
     else running e' \<and> desc_used e' = c \<and> r' = r)"
proof -
  let ?u = "unat (desc_used e)" and ?c = "unat c"
  obtain w1 where w1: "xdma_recv_pkts hw swb p pkts nb w = rx_tail hw swb (xdev e) p pkts nb w1"
    "rx_ready p a (e\<lparr>status := 0\<rparr>) r pkts w1" "mbufs w1 = mbufs w"
    using recv_running_eq [OF assms(1,2)] by blast
  obtain w' where w': "rx_tail hw swb (xdev e) p pkts nb w1 = Inr (ucast (c - desc_used e), pkts, w')"
    "rx_end p a (e\<lparr>desc_used := c, status := RX_COMMPLETED\<rparr>) r nb pkts w'"
    "mbufs w' = deliver swb (port_id e) pkts [?u..<?c] (mbufs w)"
    using rx_tail_Some [OF w1(2), of hw t swb nb] assms(3-7) w1(3) by auto
  have le: "?u \<le> ?c" "?c \<le> 32" using assms(5,6) by (simp_all add: word_le_nat_alt)
  have n: "unat (ucast (c - desc_used e) :: u16) = ?c - ?u"
    using le assms(5) by (simp add: unat_ucast16 unat_sub)
  have dist: "distinct pkts" using assms(1) by (simp add: rx_ready_def mbufs_ok_def)
  have "mbufs w' (pkts ! i) = Some (packet_of (snd (swb i)) (port_id e) (the (mbufs w (pkts ! i))))"
    if "?u \<le> i \<and> i < ?c" for i
    unfolding w'(3) using that assms(7) by (intro deliver_at [OF dist]) auto
  moreover have "mbufs w' mb = mbufs w mb" if "mb \<notin> (!) pkts ` {?u..<?c}" for mb
    unfolding w'(3) using that by (intro deliver_other) auto
  moreover have "\<exists>e' r'. rx_ready p a e' r' pkts w' \<and> port_id e' = port_id e \<and>
    (if c = ucast nb then \<not> running e' \<and> desc_used e' = 0 \<and> r' = map (clear_desc (dir e)) r \<and>
       \<not> hw_running (a + ucast (chan_reg C2H_CHANNEL_CTRL e)) w'
     else running e' \<and> desc_used e' = c \<and> r' = r)"
  proof (cases "c = ucast nb")
    case True
    let ?e = "e\<lparr>desc_used := c, status := RX_COMMPLETED\<rparr>"
    from True w'(2) show ?thesis unfolding rx_end_def
      by (intro exI [of _ "?e\<lparr>running := False, desc_used := 0\<rparr>"] exI [of _ "map (clear_desc (dir e)) r"])
         (simp add: chan_reg_def)
  next
    case False
    with w'(2) assms(2) show ?thesis unfolding rx_end_def
      by (intro exI [of _ "e\<lparr>desc_used := c, status := RX_COMMPLETED\<rparr>"] exI [of _ r]) simp
  qed
  ultimately show ?thesis using w1(1) w'(1) n by metis
qed

lemma recv_none:
  assumes "rx_ready p a e r pkts w" and "running e" and "rx_poll hw (desc_used e) (Suc RX_RETRY) 0 = None"
    and "desc_used e \<noteq> ucast nb"
  shows "\<exists>w'. xdma_recv_pkts hw swb p pkts nb w = Inr (0, pkts, w') \<and>
    rx_ready p a (e\<lparr>status := 0\<rparr>) r pkts w' \<and> mbufs w' = mbufs w"
proof -
  obtain w1 where w1: "xdma_recv_pkts hw swb p pkts nb w = rx_tail hw swb (xdev e) p pkts nb w1"
    "rx_ready p a (e\<lparr>status := 0\<rparr>) r pkts w1" "mbufs w1 = mbufs w"
    using recv_running_eq [OF assms(1,2)] by blast
  from rx_tail_None [OF w1(2), of hw swb nb] assms(3,4) w1 show ?thesis
    by (auto simp: rx_end_def)
qed

section \<open>Properties\<close>

lemma ucast_minus_u32: "(ucast (- (x :: u32)) :: u16) = - ucast x"
proof -
  have "take_bit 16 (- x) = take_bit 16 (- take_bit 32 x)" for x :: int
    using take_bit_minus [of 16 "take_bit 32 x"] take_bit_minus [of 16 x] by simp
  then show ?thesis by transfer simp
qed

lemma unat_minus_u16:
  assumes "nb \<noteq> (0 :: u16)"
  shows "unat (- nb) = 65536 - unat nb"
proof -
  have "unat nb \<noteq> 0" using assms by (simp add: unat_eq_0)
  moreover have "(of_nat (65536 - unat nb) :: u16) = - nb" using unat_u16_less [of nb] by simp
  moreover have "unat (of_nat (65536 - unat nb) :: u16) = 65536 - unat nb"
    using calculation(1) by (intro unat_of_nat_u16) simp
  ultimately show ?thesis by simp
qed

lemma chain_full_cong: "map stopped r' = map stopped r \<Longrightarrow> chain r' = r' \<longleftrightarrow> chain r = r"
proof (induction r' arbitrary: r)
  case Nil
  then show ?case by simp
next
  case (Cons d ds)
  from Cons.prems obtain x xs where "r = x # xs" "stopped x = stopped d" "map stopped ds = map stopped xs"
    by (cases r) auto
  moreover from this have "ds = [] \<longleftrightarrow> xs = []" by auto
  ultimately show ?case using Cons.IH [of xs] by auto
qed

lemma c2h_fill_sel:
  "len (c2h_fill e m d) = 64" "dst_addr (c2h_fill e m d) = data_iova m"
  "src_addr (c2h_fill e m d) = stream_wb_addr e + (buf_iova m - buf_addr m)"
  "next_addr (c2h_fill e m d) = next_addr d" "stopped (c2h_fill e m d) \<longleftrightarrow> stopped d"
  "control (c2h_fill e m d) = control d OR 0x2"
  by (simp_all add: c2h_fill_def Let_def XDMA_DESC_COMPLETED_def)
     (simp_all add: dst_addr_def src_addr_def next_addr_def stopped_iff_bit bit_simps)

text \<open>
  C18. Posting a burst of \<open>n\<close> mbufs (at most 32) to an idle C2H engine: descriptor \<open>i < n\<close>
  tells the card to write 64 bytes to the data area of the \<open>i\<close>th mbuf and its stream
  write-back to the address the driver will read; the other descriptors, the links and the
  chain, which always spans the whole ring, stay; and the engine runs.
\<close>

theorem recv_posts_burst:
  assumes "rx_ready p a e r pkts w" and "\<not> running e" and "desc_used e = 0"
    and "n = min (unat nb) 32" and "n \<le> length pkts" and "chain r = r"
  shows "\<exists>w' r'. rx_post p pkts nb w = Inr (of_nat n, w') \<and>
    rx_ready p a (e\<lparr>desc_used := of_nat (n mod 32), running := True\<rparr>) r' pkts w' \<and>
    hw_running (a + ucast (chan_reg C2H_CHANNEL_CTRL e)) w' \<and>
    (\<forall>i < n. \<exists>m. mbufs w (pkts ! i) = Some m \<and> dst_addr (r' ! i) = data_iova m \<and> len (r' ! i) = 64 \<and>
       src_addr (r' ! i) = stream_wb_addr e + (buf_iova m - buf_addr m) \<and> bit (control (r' ! i)) 1) \<and>
    (\<forall>i < 32. n \<le> i \<longrightarrow> r' ! i = r ! i) \<and> (\<forall>i < 32. next_addr (r' ! i) = next_addr (r ! i)) \<and>
    chain r' = r' \<and> mbufs w' = mbufs w"
proof -
  note rdy = assms(1) [unfolded rx_ready_def]
  define fs where "fs = rx_fills e (mbufs w) (take n pkts)"
  define r' where "r' = apply_fills fs r"
  have len: "length r = 32" "length r' = 32" "length fs = n"
    using rdy assms(5) by (simp_all add: engine_at_def r'_def fs_def rx_fills_def)
  have nth: "r' ! i = (if i < n then c2h_fill e (the (mbufs w (pkts ! i))) (r ! i) else r ! i)"
    if "i < 32" for i
    using that len assms(5) by (simp add: r'_def nth_apply_fills) (simp add: fs_def rx_fills_def)
  from rx_post_eq [of p a e r w pkts n nb] rdy assms obtain regs where
    post: "rx_post p pkts nb w = Inr (of_nat n, started p a (e\<lparr>desc_used := of_nat (n mod 32)\<rparr>)
      (regs @ [(C2H_CHANNEL_CTRL, start_ctrl)]) (filled p e r fs w))" unfolding fs_def by auto
  let ?w = "started p a (e\<lparr>desc_used := of_nat (n mod 32)\<rparr>)
      (regs @ [(C2H_CHANNEL_CTRL, start_ctrl)]) (filled p e r fs w)"
  have "engine_at p a (e\<lparr>desc_used := of_nat (n mod 32)\<rparr>) r' (filled p e r fs w)"
    using engine_at_filled [of p a e r w fs] rdy len by (simp add: r'_def)
  from engine_at_started [OF this] rdy
  have ready: "rx_ready p a (e\<lparr>desc_used := of_nat (n mod 32), running := True\<rparr>) r' pkts ?w"
    by (simp add: rx_ready_def stream_mapped_def filled_def)
  have hw: "hw_running (a + ucast (chan_reg C2H_CHANNEL_CTRL e)) ?w"
    by (simp add: hw_running_def chan_reg_def)
  have "stopped (r' ! i) \<longleftrightarrow> stopped (r ! i)" if "i < 32" for i
    using that by (simp add: nth c2h_fill_sel)
  then have "map stopped r' = map stopped r" using len by (intro nth_equalityI) simp_all
  then have ch: "chain r' = r'" using chain_full_cong assms(6) by metis
  have cells: "\<forall>i < n. \<exists>m. mbufs w (pkts ! i) = Some m \<and> dst_addr (r' ! i) = data_iova m \<and> len (r' ! i) = 64 \<and>
      src_addr (r' ! i) = stream_wb_addr e + (buf_iova m - buf_addr m) \<and> bit (control (r' ! i)) 1"
  proof (intro allI impI)
    fix i assume "i < n"
    then have i: "i < 32" "i < length pkts" using assms(4,5) by linarith+
    obtain m where "mbufs w (pkts ! i) = Some m" using mbufs_okD [of "mbufs w" pkts i] rdy i by auto
    moreover from this have "r' ! i = c2h_fill e m (r ! i)" using nth [OF i(1)] \<open>i < n\<close> by simp
    ultimately show "\<exists>m. mbufs w (pkts ! i) = Some m \<and> dst_addr (r' ! i) = data_iova m \<and> len (r' ! i) = 64 \<and>
      src_addr (r' ! i) = stream_wb_addr e + (buf_iova m - buf_addr m) \<and> bit (control (r' ! i)) 1"
      by (simp add: c2h_fill_sel bit_or_iff)
  qed
  have rest: "\<forall>i < 32. n \<le> i \<longrightarrow> r' ! i = r ! i" "\<forall>i < 32. next_addr (r' ! i) = next_addr (r ! i)"
    by (simp_all add: nth c2h_fill_sel)
  have "mbufs ?w = mbufs w" by simp
  with post ready hw cells rest ch show ?thesis by blast
qed

text \<open>
  C17. What a receive call on a running engine delivers: when a polling round sees the count
  \<open>c\<close>, exactly the mbufs of the slots from the last count up to \<open>c\<close> become packets, their
  length taken from the stream write-back, and no other mbuf changes; the result is their
  number.  The engine stops, and is idle again, exactly when \<open>c\<close> is the burst size;
  otherwise it keeps running with \<open>c\<close> as the new count.
\<close>

theorem recv_delivers:
  assumes "rx_ready p a e r pkts w" and "running e"
    and "rx_poll hw (desc_used e) (Suc RX_RETRY) 0 = Some t" and "c = hw (2 * t)"
    and "desc_used e \<le> c" and "c \<le> 32" and "unat c < length pkts"
  shows "\<exists>n w' e' r'. xdma_recv_pkts hw swb p pkts nb w = Inr (n, pkts, w') \<and>
    unat n = unat c - unat (desc_used e) \<and>
    (\<forall>i. unat (desc_used e) \<le> i \<and> i < unat c \<longrightarrow>
       mbufs w' (pkts ! i) = Some (packet_of (snd (swb i)) (port_id e) (the (mbufs w (pkts ! i))))) \<and>
    (\<forall>mb. mb \<notin> (!) pkts ` {unat (desc_used e)..<unat c} \<longrightarrow> mbufs w' mb = mbufs w mb) \<and>
    rx_ready p a e' r' pkts w' \<and>
    (if c = ucast nb then \<not> running e' \<and> desc_used e' = 0 \<and> r' = map (clear_desc (dir e)) r \<and>
       \<not> hw_running (a + ucast (chan_reg C2H_CHANNEL_CTRL e)) w'
     else running e' \<and> desc_used e' = c \<and> r' = r)"
  using recv_some [OF assms, of swb nb] by blast

text \<open>
  A receive call is bounded: whatever the device reports and whatever state the driver
  is in, the call ends after at most 101 polling rounds, it never hangs.
\<close>

theorem recv_returns:
  "xdma_recv_pkts hw swb p pkts nb w \<noteq> Inl Hang"
proof -
  have "returns (xdma_recv_pkts hw swb p pkts nb w)"
    unfolding xdma_recv_pkts_def Let_def by (auto split: prod.splits)
  then show ?thesis by (simp add: returns_def)
qed

text \<open>
  When no round sees a new stable count, a call on a running engine delivers nothing: it
  returns 0, no mbuf changes, and the engine keeps running with its ring and count.
\<close>

theorem recv_timeout:
  assumes "rx_ready p a e r pkts w" and "running e" and "desc_used e \<noteq> ucast nb"
    and "\<forall>k \<le> 100. hw (2 * k) \<noteq> hw (2 * k + 1) \<or> hw (2 * k) = desc_used e"
  shows "\<exists>w'. xdma_recv_pkts hw swb p pkts nb w = Inr (0, pkts, w') \<and>
    rx_ready p a (e\<lparr>status := 0\<rparr>) r pkts w' \<and> mbufs w' = mbufs w"
proof -
  have "rx_poll hw (desc_used e) (Suc RX_RETRY) 0 = None"
    using assms(4) by (simp add: rx_poll_None RX_RETRY_def)
  then show ?thesis using recv_none [OF assms(1,2) _ assms(3)] by blast
qed

text \<open>
  The first call with a burst of fewer than 32 mbufs goes wrong: posting leaves the
  number of posted slots in \<open>desc_used\<close>, the polling loop takes the still unchanged count 0
  for news, and the call returns \<open>65536 - nb\<close> although no packet arrived.
\<close>

theorem recv_short_burst:
  assumes "rx_ready p a e r pkts w" and "\<not> running e" and "desc_used e = 0"
    and "0 < nb" and "nb < 32" and "unat nb \<le> length pkts" and "hw 0 = 0" and "hw 1 = 0"
  shows "\<exists>n w' e' r'. xdma_recv_pkts hw swb p pkts nb w = Inr (n, pkts, w') \<and>
    unat n = 65536 - unat nb \<and> mbufs w' = mbufs w \<and>
    rx_ready p a e' r' pkts w' \<and> running e' \<and> desc_used e' = 0"
proof -
  define r' where "r' = apply_fills (rx_fills e (mbufs w) (take (unat nb) pkts)) r"
  have lt: "unat nb < 32" "unat nb \<noteq> 0" using assms(4,5) by (auto simp: word_less_nat_alt)
  then have min: "unat nb = min (unat nb) 32" and self: "(of_nat (unat nb) :: u16) = nb" by simp_all
  let ?u = "of_nat (unat nb mod 32) :: u32"
  let ?e = "e\<lparr>status := 0, desc_used := ?u, running := True\<rparr>"
  obtain w1 where w1: "xdma_recv_pkts hw swb p pkts nb w = rx_tail hw swb (xdev e) p pkts nb w1"
    "rx_ready p a ?e r' pkts w1" "mbufs w1 = mbufs w"
    using recv_idle_eq [OF assms(1-3) min assms(6), of hw swb] unfolding self r'_def by blast
  have u: "?u \<noteq> 0" "ucast ?u = nb" "?u = ucast nb"
  proof -
    show "?u = ucast nb" using lt by simp
    moreover have "(ucast (ucast nb :: u32) :: u16) = nb"
      by (rule bit_word_eqI) (auto simp: bit_simps)
    ultimately show "ucast ?u = nb" by simp
    have "unat ?u = unat nb mod 32" by (rule unat_of_nat_u32) simp
    then have "unat ?u = unat nb" using lt by simp
    then show "?u \<noteq> 0" using lt(2) by (metis unat_0)
  qed
  note rdy = w1(2) [unfolded rx_ready_def]
  from rdy obtain v where v: "p \<noteq> 0" "engines w1 p = Some ?e" "poll_mode_addr_virt e \<noteq> 0"
    "words w1 (poll_mode_addr_virt e) = Some v" by (auto simp: engine_at_def)
  have poll: "rx_poll hw ?u (Suc RX_RETRY) 0 = Some 0"
    using assms(7,8) u(1) by (simp add: rx_poll.simps)
  let ?e2 = "?e\<lparr>desc_used := 0, status := RX_COMMPLETED\<rparr>"
  let ?w2 = "w1\<lparr>words := (words w1)(poll_mode_addr_virt e \<mapsto> 0), engines := (engines w1)(p \<mapsto> ?e2)\<rparr>"
  have "rx_collect hw swb p pkts w1 = Inr (- nb, pkts, ?w2)"
    using v poll u assms(7)
    by (simp add: rx_collect_def prepare_packets_def store_word_def ucast_minus_u32 Let_def)
  moreover have "rx_ready p a ?e2 r' pkts ?w2"
    using rdy by (simp add: rx_ready_def engine_at_def stream_mapped_def)
  moreover have "(0 :: u32) \<noteq> ucast nb" using u(1) unfolding u(3) by (rule not_sym)
  moreover have "unat (- nb) = 65536 - unat nb"
    using lt by (intro unat_minus_u16) auto
  ultimately show ?thesis
    using w1 v by (intro exI [of _ "- nb"] exI [of _ ?w2] exI [of _ ?e2] exI [of _ r'])
      (simp add: rx_tail_def)
qed

lemma rx_poll_first:
  "rx_poll hw used n t = Some k \<Longrightarrow> t \<le> j \<Longrightarrow> j < k \<Longrightarrow> hw (2 * j) \<noteq> hw (2 * j + 1) \<or> hw (2 * j) = used"
proof (induction hw used n t rule: rx_poll.induct)
  case (1 hw used t)
  then show ?case by (simp add: rx_poll.simps)
next
  case (2 hw used n t)
  then show ?case
    by (cases "j = t") (auto simp: rx_poll.simps Let_def split: if_splits)
qed

lemma for_loop_add:
  "for_loop i (m + n) body s = andThen (for_loop i m body s) (for_loop (i + m) n body)"
proof (induction m arbitrary: i s)
  case 0
  then show ?case by simp
next
  case (Suc m)
  have "for_loop (Suc i) (m + n) body = (\<lambda>t. andThen (for_loop (Suc i) m body t) (for_loop (i + Suc m) n body))"
    using Suc.IH [of "Suc i"] by auto
  then show ?case by (simp add: andThen_assoc)
qed

lemma prepare_overrun:
  assumes "p \<noteq> 0" "engines w p = Some e" "stream_mapped e w" "mbufs_ok (mbufs w) pkts" "u < length pkts"
  shows "for_loop u (length pkts - u) (prepare_round swb p) (pkts, w) = Inl OutOfBounds"
proof -
  define k where "k = length pkts - u - 1"
  have k: "length pkts - u = k + 1" "u + k < length pkts" "u + k + 1 = length pkts"
    using assms(5) by (simp_all add: k_def)
  obtain ws where ws: "words_kept (words w) ws" "for_loop u k (prepare_round swb p) (pkts, w)
      = Inr (pkts, w\<lparr>words := ws, mbufs := deliver swb (port_id e) pkts [u..<u + k] (mbufs w)\<rparr>)"
    using prepare_loop [OF assms(1-4) k(2)] by blast
  let ?w = "w\<lparr>words := ws, mbufs := deliver swb (port_id e) pkts [u..<u + k] (mbufs w)\<rparr>"
  have "mbufs_ok (mbufs ?w) pkts" using assms(4) mbufs_ok_deliver by simp
  then obtain m where m: "pkts ! (u + k) \<noteq> 0" "mbufs ?w (pkts ! (u + k)) = Some m"
    using mbufs_okD k(2) by blast
  have "stream_mapped e ?w" using assms(3) ws(1) by (simp add: stream_mapped_def words_kept_def)
  then obtain s where "prepare_segmented_packet swb p (u + k) pkts ?w = Inr (pkts ! (u + k), s)"
    using prepare_one [of p ?w e "u + k" pkts m swb] assms(1,2) k(2) m by auto
  then have "prepare_round swb p (u + k) (pkts, ?w) = Inl OutOfBounds"
    using k(3) by (simp add: prepare_round_def load_idx_def)
  then show ?thesis unfolding k(1) for_loop_add ws(2) by simp
qed

text \<open>
  C34. The prefetch reads one entry too far: when the count reaches the length of the caller's
  array, for example a full burst of 32 received into an array of 32, the call accesses the
  array out of its bounds.
\<close>

theorem recv_prefetch_overrun:
  assumes "rx_ready p a e r pkts w" and "running e"
    and "rx_poll hw (desc_used e) (Suc RX_RETRY) 0 = Some t" and "hw (2 * t) = of_nat (length pkts)"
    and "unat (desc_used e) < length pkts" and "length pkts < 65536"
  shows "xdma_recv_pkts hw swb p pkts nb w = Inl OutOfBounds"
proof -
  obtain w1 where w1: "xdma_recv_pkts hw swb p pkts nb w = rx_tail hw swb (xdev e) p pkts nb w1"
    "rx_ready p a (e\<lparr>status := 0\<rparr>) r pkts w1" using recv_running_eq [OF assms(1,2)] by blast
  note rdy = w1(2) [unfolded rx_ready_def]
  let ?w = "w1\<lparr>words := (words w1)(poll_mode_addr_virt e \<mapsto> hw (2 * t))\<rparr>"
  from rdy obtain v where v: "p \<noteq> 0" "engines w1 p = Some (e\<lparr>status := 0\<rparr>)" "poll_mode_addr_virt e \<noteq> 0"
    "words w1 (poll_mode_addr_virt e) = Some v" by (auto simp: engine_at_def)
  have "unat (ucast (hw (2 * t)) :: u16) = length pkts" "unat (ucast (desc_used e) :: u16) = unat (desc_used e)"
    using assms(4-6) by (simp_all add: unat_ucast16)
  moreover have "for_loop (unat (desc_used e)) (length pkts - unat (desc_used e)) (prepare_round swb p) (pkts, ?w)
      = Inl OutOfBounds"
    using v rdy assms(5) by (intro prepare_overrun [where e = "e\<lparr>status := 0\<rparr>"]) (auto simp: stream_mapped_def)
  ultimately have "rx_collect hw swb p pkts w1 = Inl OutOfBounds"
    using v assms(3) by (simp add: rx_collect_def prepare_packets_def store_word_def Let_def)
  then show ?thesis using w1(1) by (simp add: rx_tail_def)
qed

section \<open>Sequences of calls\<close>

text \<open>
  Calls that follow one another on the same array; a call is given by the count loads, the
  stream write-back contents and the burst size.
\<close>

fun recv_calls :: "((nat \<Rightarrow> u32) \<times> (nat \<Rightarrow> u32 \<times> u32) \<times> u16) list \<Rightarrow> u64 \<Rightarrow> u64 list \<Rightarrow> world
    \<Rightarrow> fault + u16 list \<times> world" where
  "recv_calls [] p pkts w = Inr ([], w)"
| "recv_calls ((hw, swb, nb) # cs) p pkts w =
     andThen (xdma_recv_pkts hw swb p pkts nb w) (\<lambda>(n, pkts, w).
     andThen (recv_calls cs p pkts w) (\<lambda>(ns, w). Inr (n # ns, w)))"

text \<open>
  C35. A receive queue can get stuck: once all 32 slots are complete and the engine was not
  stopped because the burst size is not 32 (it is clipped to 32 only in the call that posts),
  every later call returns 0 and leaves the engine running with nothing posted.
\<close>

theorem recv_stuck:
  assumes "rx_ready p a e r pkts w" and "running e" and "desc_used e = 32"
    and "\<forall>(hw, swb, nb) \<in> set calls. nb \<noteq> 32 \<and> (\<forall>i. hw i = 32)"
  shows "\<exists>w' e'. recv_calls calls p pkts w = Inr (replicate (length calls) 0, w') \<and>
    rx_ready p a e' r pkts w' \<and> running e' \<and> desc_used e' = 32 \<and> mbufs w' = mbufs w"
  using assms
proof (induction calls arbitrary: e w)
  case Nil
  then show ?case by auto
next
  case (Cons c calls)
  obtain hw swb nb where c: "c = (hw, swb, nb)" by (cases c)
  with Cons.prems(4) have "nb \<noteq> 32" and hw: "\<And>i. hw i = 32" by auto
  have "desc_used e \<noteq> ucast nb"
  proof
    assume "desc_used e = ucast nb"
    then have "ucast (ucast nb :: u32) = (32 :: u16)" using Cons.prems(3) by simp
    moreover have "(ucast (ucast nb :: u32) :: u16) = nb" by (rule bit_word_eqI) (auto simp: bit_simps)
    ultimately show False using \<open>nb \<noteq> 32\<close> by simp
  qed
  moreover have "rx_poll hw (desc_used e) (Suc RX_RETRY) 0 = None"
    by (simp add: rx_poll_None hw Cons.prems(3))
  ultimately obtain w1 where w1: "xdma_recv_pkts hw swb p pkts nb w = Inr (0, pkts, w1)"
    "rx_ready p a (e\<lparr>status := 0\<rparr>) r pkts w1" "mbufs w1 = mbufs w"
    using recv_none [OF Cons.prems(1,2)] by blast
  from Cons.IH [OF w1(2)] Cons.prems(2-4) obtain w' e' where
    "recv_calls calls p pkts w1 = Inr (replicate (length calls) 0, w')"
    "rx_ready p a e' r pkts w'" "running e'" "desc_used e' = 32" "mbufs w' = mbufs w1" by auto
  with w1 show ?case unfolding c by (intro exI [of _ w'] exI [of _ e']) simp
qed

text \<open>
  \<open>rx_steps p pkts nb w n w'\<close>: from \<open>w\<close>, calls with burst size \<open>nb\<close> on the running engine
  have delivered \<open>n\<close> packets and reached \<open>w'\<close>.  The device only ever reports counts that do
  not decrease and stay within the ring and the array.
\<close>

inductive rx_steps :: "u64 \<Rightarrow> u64 list \<Rightarrow> u16 \<Rightarrow> world \<Rightarrow> nat \<Rightarrow> world \<Rightarrow> bool"
  for p :: u64 and pkts :: "u64 list" and nb :: u16 and w :: world where
  start: "rx_steps p pkts nb w 0 w"
| call: "rx_steps p pkts nb w n w' \<Longrightarrow> engines w' p = Some e \<Longrightarrow> running e \<Longrightarrow>
    (\<forall>i. desc_used e \<le> hw i \<and> hw i \<le> 32 \<and> unat (hw i) < length pkts) \<Longrightarrow>
    xdma_recv_pkts hw swb p pkts nb w' = Inr (k, pkts', w'') \<Longrightarrow>
    rx_steps p pkts nb w (n + unat k) w''"

text \<open>The state of a session that started with count \<open>u\<close> and has delivered \<open>n\<close> packets.\<close>

definition rx_session :: "u64 \<Rightarrow> u64 \<Rightarrow> u64 list \<Rightarrow> u16 \<Rightarrow> u32 \<Rightarrow> nat \<Rightarrow> nat \<Rightarrow> world \<Rightarrow> world \<Rightarrow> bool" where
  "rx_session p a pkts nb port u n w w' \<longleftrightarrow> (\<exists>e r. rx_ready p a e r pkts w' \<and> port_id e = port \<and>
     (if running e then unat (desc_used e) = u + n \<and> desc_used e \<noteq> ucast nb
      else u + n = unat nb \<and> desc_used e = 0) \<and>
     (\<forall>i. u \<le> i \<and> i < u + n \<longrightarrow> (\<exists>l. mbufs w' (pkts ! i) = Some (packet_of l port (the (mbufs w (pkts ! i)))))) \<and>
     (\<forall>mb. mb \<notin> (!) pkts ` {u..<u + n} \<longrightarrow> mbufs w' mb = mbufs w mb) \<and> (n \<noteq> 0 \<longrightarrow> u + n < length pkts))"

lemma unat_ucast_u16: "unat (ucast (nb :: u16) :: u32) = unat nb"
  using unat_u16_less [of nb] by (simp add: unsigned_ucast_eq take_bit_nat_eq_self)

lemma rx_session_call:
  assumes sess: "rx_session p a pkts nb port u n w w'" and e: "engines w' p = Some e" "running e"
    and hw: "\<forall>i. desc_used e \<le> hw i \<and> hw i \<le> 32 \<and> unat (hw i) < length pkts"
    and call: "xdma_recv_pkts hw swb p pkts nb w' = Inr (k, pkts', w'')"
  shows "rx_session p a pkts nb port u (n + unat k) w w''"
proof -
  from sess e obtain r where s: "rx_ready p a e r pkts w'" "port_id e = port"
    "unat (desc_used e) = u + n" "desc_used e \<noteq> ucast nb"
    "\<forall>i. u \<le> i \<and> i < u + n \<longrightarrow> (\<exists>l. mbufs w' (pkts ! i) = Some (packet_of l port (the (mbufs w (pkts ! i)))))"
    "\<forall>mb. mb \<notin> (!) pkts ` {u..<u + n} \<longrightarrow> mbufs w' mb = mbufs w mb" "n \<noteq> 0 \<longrightarrow> u + n < length pkts"
    by (auto simp: rx_session_def rx_ready_def engine_at_def)
  show ?thesis
  proof (cases "rx_poll hw (desc_used e) (Suc RX_RETRY) 0")
    case None
    from recv_none [OF s(1) e(2) None s(4), of swb] call have
      "k = 0" "rx_ready p a (e\<lparr>status := 0\<rparr>) r pkts w''" "mbufs w'' = mbufs w'" by auto
    then show ?thesis using s e(2) unfolding rx_session_def
      by (intro exI [of _ "e\<lparr>status := 0\<rparr>"] exI [of _ r]) simp
  next
    case (Some t)
    let ?c = "unat (hw (2 * t))"
    from hw have c: "desc_used e \<le> hw (2 * t)" "hw (2 * t) \<le> 32" "?c < length pkts" by blast+
    from recv_some [OF s(1) e(2) Some refl c, of swb nb] obtain k0 w0 e' r' where
      x: "xdma_recv_pkts hw swb p pkts nb w' = Inr (k0, pkts, w0)" "unat k0 = ?c - unat (desc_used e)"
      and new: "\<forall>i. unat (desc_used e) \<le> i \<and> i < ?c \<longrightarrow> mbufs w0 (pkts ! i)
          = Some (packet_of (snd (swb i)) (port_id e) (the (mbufs w' (pkts ! i))))"
      and old: "\<forall>mb. mb \<notin> (!) pkts ` {unat (desc_used e)..<?c} \<longrightarrow> mbufs w0 mb = mbufs w' mb"
      and e': "rx_ready p a e' r' pkts w0" "port_id e' = port_id e"
        "if hw (2 * t) = ucast nb then \<not> running e' \<and> desc_used e' = 0 \<and> r' = map (clear_desc (dir e)) r \<and>
           \<not> hw_running (a + ucast (chan_reg C2H_CHANNEL_CTRL e)) w0
         else running e' \<and> desc_used e' = hw (2 * t) \<and> r' = r"
      by blast
    from call x(1) have eq: "k0 = k" "w0 = w''" by simp_all
    note k = x(2) [unfolded eq] and new = new [unfolded eq s(2,3)] and old = old [unfolded eq s(3)]
      and e' = e' [unfolded eq s(2)]
    have tot: "u + (n + unat k) = ?c" using k c(1) s(3) by (simp add: word_le_nat_alt)
    have dist: "distinct pkts" using s(1) by (simp add: rx_ready_def mbufs_ok_def)
    have inj: "pkts ! i = pkts ! j \<longleftrightarrow> i = j" if "i < length pkts" "j < length pkts" for i j
      using that dist by (simp add: nth_eq_iff_index_eq)
    have "\<exists>l. mbufs w'' (pkts ! i) = Some (packet_of l port (the (mbufs w (pkts ! i))))"
      if i: "u \<le> i" "i < ?c" for i
    proof (cases "i < u + n")
      case True
      then have "pkts ! i \<notin> (!) pkts ` {u + n..<?c}" using inj i c(3) by auto
      then show ?thesis using old s(5) True i by metis
    next
      case False
      then have "pkts ! i \<notin> (!) pkts ` {u..<u + n}" using inj i c(3) by auto
      then have "mbufs w' (pkts ! i) = mbufs w (pkts ! i)" using s(6) by blast
      then show ?thesis using new False i by (metis not_less)
    qed
    moreover have "mbufs w'' mb = mbufs w mb" if "mb \<notin> (!) pkts ` {u..<?c}" for mb
    proof -
      have "mb \<notin> (!) pkts ` {u + n..<?c}" "mb \<notin> (!) pkts ` {u..<u + n}" using that tot by auto
      then show ?thesis using old s(6) by simp
    qed
    moreover have "if running e' then unat (desc_used e') = ?c \<and> desc_used e' \<noteq> ucast nb
        else ?c = unat nb \<and> desc_used e' = 0"
      using e'(3) by (auto simp: unat_ucast_u16 split: if_splits)
    ultimately show ?thesis
      using e'(1,2) c(3) unfolding rx_session_def tot by (intro exI [of _ e'] exI [of _ r']) simp
  qed
qed

text \<open>
  C16. Each posted slot is delivered exactly once, in order.  Over any sequence of calls whose
  counts do not decrease, started at count \<open>u\<close>, the results add up to the slots delivered:
  after \<open>n\<close> packets exactly the mbufs of slots \<open>u\<close> to \<open>u + n - 1\<close> have become packets.  While the
  engine runs its count is \<open>u + n\<close>, and it stops exactly when \<open>u + n\<close> is the burst size.
\<close>

theorem rx_exactly_once:
  assumes "rx_steps p pkts nb w n w'" and "rx_ready p a e r pkts w" and "running e"
    and "desc_used e \<noteq> ucast nb"
  shows "rx_session p a pkts nb (port_id e) (unat (desc_used e)) n w w'"
  using assms
proof (induction rule: rx_steps.induct)
  case start
  then show ?case by (auto simp: rx_session_def)
next
  case (call n w' e' hw swb k pkts' w'')
  then show ?case using rx_session_call by blast
qed

section \<open>Completion polling\<close>

text \<open>
  Polling for receive completion returns after at most 1001 rounds: with the first stable
  count that differs from the one in the device's copy of the engine, or else with the last
  count loaded.  Only that copy's status changes; the live engine of the queue is neither
  consulted nor updated.
\<close>

theorem poll_rx_result:
  assumes "d \<noteq> 0" and "xdevs w d = Some xd" and "0 \<le> q" and "q < int (length (engine_c2h xd))"
    and "cp = engine_c2h xd ! nat q" and "poll_mode_addr_virt cp \<noteq> 0"
    and "words w (poll_mode_addr_virt cp) = Some v"
  shows "\<exists>n w'. xdma_poll_rx_complete hw d q w = Inr (n, w') \<and> engines w' = engines w \<and>
    (\<forall>k \<le> 1000. (hw (2 * k) = hw (2 * k + 1) \<and> hw (2 * k) \<noteq> desc_used cp \<and>
       (\<forall>j < k. hw (2 * j) \<noteq> hw (2 * j + 1) \<or> hw (2 * j) = desc_used cp)) \<longrightarrow>
       n = hw (2 * k) \<and> (\<exists>xd'. xdevs w' d = Some xd' \<and> engine_c2h xd' = (engine_c2h xd)[nat q := cp\<lparr>status := 1\<rparr>])) \<and>
    ((\<forall>k \<le> 1000. hw (2 * k) \<noteq> hw (2 * k + 1) \<or> hw (2 * k) = desc_used cp) \<longrightarrow>
       n = hw 2000 \<and> xdevs w' = xdevs w)"
proof (cases "rx_poll hw (desc_used cp) (Suc POLL_RETRY) 0")
  case None
  then have no: "\<forall>k \<le> 1000. hw (2 * k) \<noteq> hw (2 * k + 1) \<or> hw (2 * k) = desc_used cp"
    by (simp add: rx_poll_None POLL_RETRY_def)
  from None show ?thesis using assms
    by (intro exI [of _ "hw 2000"] exI [of _ "w\<lparr>words := (words w)(poll_mode_addr_virt cp \<mapsto> hw 2001)\<rparr>"])
       (use no in \<open>auto simp: xdma_poll_rx_complete_def store_word_def Let_def POLL_RETRY_def\<close>)
next
  case (Some t)
  have t: "t \<le> 1000" "hw (2 * t) = hw (2 * t + 1)" "hw (2 * t) \<noteq> desc_used cp"
    using rx_poll_Some [OF Some] by (auto simp: POLL_RETRY_def)
  let ?es = "(engine_c2h xd)[nat q := cp\<lparr>status := 1\<rparr>]"
  let ?w = "w\<lparr>words := (words w)(poll_mode_addr_virt cp \<mapsto> hw (2 * t)), xdevs := (xdevs w)(d \<mapsto> xd\<lparr>engine_c2h := ?es\<rparr>)\<rparr>"
  have call: "xdma_poll_rx_complete hw d q w = Inr (hw (2 * t), ?w)"
    using assms Some by (simp add: xdma_poll_rx_complete_def store_word_def Let_def RX_COMMPLETED_def)
  have cp_dev: "\<exists>xd'. xdevs ?w d = Some xd' \<and> engine_c2h xd' = ?es" by simp
  have first: "k = t" if "k \<le> 1000" "hw (2 * k) = hw (2 * k + 1)" "hw (2 * k) \<noteq> desc_used cp"
    "\<forall>j < k. hw (2 * j) \<noteq> hw (2 * j + 1) \<or> hw (2 * j) = desc_used cp" for k
    using that t rx_poll_first [OF Some, of k] by (metis linorder_neqE_nat zero_le)
  have one: "\<forall>k \<le> 1000. (hw (2 * k) = hw (2 * k + 1) \<and> hw (2 * k) \<noteq> desc_used cp \<and>
       (\<forall>j < k. hw (2 * j) \<noteq> hw (2 * j + 1) \<or> hw (2 * j) = desc_used cp)) \<longrightarrow>
       hw (2 * t) = hw (2 * k) \<and> (\<exists>xd'. xdevs ?w d = Some xd' \<and> engine_c2h xd' = ?es)"
    using first by (metis (no_types, lifting) cp_dev)
  have "\<not> (\<forall>k \<le> 1000. hw (2 * k) \<noteq> hw (2 * k + 1) \<or> hw (2 * k) = desc_used cp)" using t by metis
  moreover have "engines ?w = engines w" by simp
  ultimately show ?thesis using call one by blast
qed

end
