(* ===== verification/Device.thy ===== *)
theory Device
  imports Engine_Setup
begin

text \<open>
  Device-level operations of \<open>xdma_access_common.c\<close>: interrupt masks, start, stop and close of
  a device with all its queues, and the search for the user BAR.
\<close>

section \<open>Operations\<close>

definition user_interrupts_enable :: "u64 \<Rightarrow> world \<Rightarrow> fault + world" where
  "user_interrupts_enable xdma_dev = xdma_reg_write xdma_dev IRQ_USER_INTERRUPT_ENABLE_MASK_W1S (NOT 0)"

definition user_interrupts_disable :: "u64 \<Rightarrow> world \<Rightarrow> fault + world" where
  "user_interrupts_disable xdma_dev = xdma_reg_write xdma_dev IRQ_USER_INTERRUPT_ENABLE_MASK_W1C (NOT 0)"

definition channel_interrupts_enable :: "u64 \<Rightarrow> world \<Rightarrow> fault + world" where
  "channel_interrupts_enable xdma_dev = xdma_reg_write xdma_dev IRQ_CHANNEL_INTERRUPT_ENABLE_MASK_W1S (NOT 0)"

definition channel_interrupts_disable :: "u64 \<Rightarrow> world \<Rightarrow> fault + world" where
  "channel_interrupts_disable xdma_dev = xdma_reg_write xdma_dev IRQ_CHANNEL_INTERRUPT_ENABLE_MASK_W1C (NOT 0)"

definition xdma_dev_start :: "u64 \<Rightarrow> world \<Rightarrow> fault + world" where
  "xdma_dev_start dev w =
     andThen (eth_data dev w) (\<lambda>dat.
     andThen (user_interrupts_enable (dev_private dat) w) (\<lambda>w.
     channel_interrupts_enable (dev_private dat) w))"

text \<open>The queue pointer \<open>dev->data->tx_queues[i]\<close> and its counterpart.\<close>

definition tx_queue :: "u64 \<Rightarrow> nat \<Rightarrow> world \<Rightarrow> fault + u64" where
  "tx_queue dev i w =
     andThen (eth_data dev w) (\<lambda>dat. andThen (queue_array (tx_queues dat)) (\<lambda>qs. load_idx qs i))"

definition rx_queue :: "u64 \<Rightarrow> nat \<Rightarrow> world \<Rightarrow> fault + u64" where
  "rx_queue dev i w =
     andThen (eth_data dev w) (\<lambda>dat. andThen (queue_array (rx_queues dat)) (\<lambda>qs. load_idx qs i))"

definition xdma_dev_stop :: "u64 \<Rightarrow> world \<Rightarrow> fault + world" where
  "xdma_dev_stop dev w =
     andThen (eth_data dev w) (\<lambda>dat.
     andThen (for_loop 0 (unat (nb_tx_queues dat))
        (\<lambda>i w. andThen (tx_queue dev i w) (\<lambda>p. xdma_tx_engine_stop p w)) w) (\<lambda>w.
     for_loop 0 (unat (nb_rx_queues dat))
        (\<lambda>i w. andThen (rx_queue dev i w) (\<lambda>p. xdma_rx_engine_stop p w)) w))"

definition release_engine :: "dma_data_direction \<Rightarrow> u64 \<Rightarrow> world \<Rightarrow> fault + world" where
  "release_engine d p w =
     andThen (deref (engines w) p) (\<lambda>engine.
     if dir engine = d then
       andThen (if sw_ring engine \<noteq> 0 then rte_free (sw_ring engine) w else Inr w) (\<lambda>w.
       andThen (if mz engine \<noteq> 0 then rte_memzone_free (mz engine) w else Inr w) (\<lambda>w.
       rte_free p w))
     else Inr w)"

definition xdma_dev_close :: "u64 \<Rightarrow> world \<Rightarrow> fault + world" where
  "xdma_dev_close dev w =
     andThen (eth_data dev w) (\<lambda>dat.
     andThen (if dev_started dat then xdma_dev_stop dev w else Inr w) (\<lambda>w.
     andThen (for_loop 0 (unat (nb_rx_queues dat))
        (\<lambda>i w. andThen (rx_queue dev i w) (\<lambda>p. release_engine C2H p w)) w) (\<lambda>w.
     for_loop 0 (unat (nb_tx_queues dat))
        (\<lambda>i w. andThen (tx_queue dev i w) (\<lambda>p. release_engine H2C p w)) w)))"

text \<open>
  The search for the user BAR; the bit mask of candidates is the constant 1.  The result is
  the return value and the index stored through \<open>user_bar\<close>, which callers never pass as NULL.
\<close>

fun user_bar_search :: "u32 \<Rightarrow> nat \<Rightarrow> nat \<Rightarrow> nat option" where
  "user_bar_search user_bar_id i 0 = None"
| "user_bar_search user_bar_id i (Suc n) =
     (if user_bar_id AND push_bit i 1 \<noteq> 0 then Some i else user_bar_search user_bar_id (Suc i) n)"

definition xdma_get_user_bar :: "u64 \<Rightarrow> int \<times> u8 option" where
  "xdma_get_user_bar dev_hndl =
     (if dev_hndl = 0 then (- 1, None)
      else case user_bar_search 1 0 XDMA_BAR_NUM of
             None \<Rightarrow> (- 1, Some 0)
           | Some i \<Rightarrow> (0, Some (of_nat i)))"

section \<open>Loops over the queues\<close>

primrec each :: "(u64 \<Rightarrow> world \<Rightarrow> fault + world) \<Rightarrow> u64 list \<Rightarrow> world \<Rightarrow> fault + world" where
  "each f [] w = Inr w"
| "each f (p # ps) w = andThen (f p w) (each f ps)"

lemma for_loop_each:
  assumes "\<And>i w. P w \<Longrightarrow> i < length qs \<Longrightarrow> body i w = f (qs ! i) w"
    and "\<And>p w w'. P w \<Longrightarrow> f p w = Inr w' \<Longrightarrow> P w'"
  shows "P w \<Longrightarrow> i + n \<le> length qs \<Longrightarrow> for_loop i n body w = each f (take n (drop i qs)) w"
proof (induction n arbitrary: i w)
  case 0
  then show ?case by simp
next
  case (Suc n)
  then have drop: "drop i qs = qs ! i # drop (Suc i) qs" by (simp add: Cons_nth_drop_Suc)
  have body: "body i w = f (qs ! i) w" using Suc.prems assms(1) by simp
  show ?case
  proof (cases "f (qs ! i) w")
    case (Inl e)
    then show ?thesis by (simp add: drop body)
  next
    case (Inr w')
    then have "P w'" using assms(2) Suc.prems(1) by blast
    with Suc Inr show ?thesis by (simp add: drop body)
  qed
qed

lemma each_invariant:
  assumes "\<And>p w. p \<in> set ps \<Longrightarrow> P w \<Longrightarrow> \<exists>w'. f p w = Inr w' \<and> P w'" and "P w"
  shows "\<exists>w'. each f ps w = Inr w' \<and> P w'"
  using assms
proof (induction ps arbitrary: w)
  case Nil
  then show ?case by simp
next
  case (Cons p ps)
  from Cons.prems obtain u where u: "f p w = Inr u" "P u" by (meson list.set_intros(1))
  with Cons.IH [of u] Cons.prems(1) show ?case by auto
qed

lemma eth_data_cong: "eth_devs w' = eth_devs w \<Longrightarrow> eth_data dev w' = eth_data dev w"
  by (simp add: eth_data_def)

lemma reg_write_frame: "xdma_reg_write h off v w = Inr w' \<Longrightarrow> eth_devs w' = eth_devs w \<and> blocks w' = blocks w"
  by (auto simp: xdma_reg_write_def andThen_eq_Inr)

lemma stop_frame:
  "xdma_tx_engine_stop p w = Inr w' \<Longrightarrow> eth_devs w' = eth_devs w"
  "xdma_rx_engine_stop p w = Inr w' \<Longrightarrow> eth_devs w' = eth_devs w"
  by (auto simp: xdma_tx_engine_stop_def xdma_rx_engine_stop_def xdma_desc_ring_clear_def
        andThen_eq_Inr update_ring_eq_Inr store_word_def Let_def dest!: reg_write_frame)

lemma drop_block_sel [simp]:
  "eth_devs (drop_block p n w) = eth_devs w" "xdevs (drop_block p n w) = xdevs w"
  "mmio (drop_block p n w) = mmio w" "mbufs (drop_block p n w) = mbufs w" "zones (drop_block p n w) = zones w"
  "blocks (drop_block p n w) = (blocks w)(p := None)" "engines (drop_block p n w) = (engines w)(p := None)"
  by (simp_all add: drop_block_def)

lemma rte_free_frame: "rte_free p w = Inr w' \<Longrightarrow> eth_devs w' = eth_devs w"
  by (auto simp: rte_free_def split: if_splits option.splits)

lemma memzone_free_frame: "rte_memzone_free p w = Inr w' \<Longrightarrow> eth_devs w' = eth_devs w"
  by (auto simp: rte_memzone_free_def andThen_eq_Inr dest!: rte_free_frame)

lemma release_frame: "release_engine d p w = Inr w' \<Longrightarrow> eth_devs w' = eth_devs w"
  by (auto simp: release_engine_def andThen_eq_Inr split: if_splits
        dest!: rte_free_frame memzone_free_frame)

text \<open>The data a device has, with complete queue arrays.\<close>

definition queues_ok :: "rte_eth_dev_data \<Rightarrow> u64 list \<Rightarrow> u64 list \<Rightarrow> bool" where
  "queues_ok dat tq rq \<longleftrightarrow>
     (\<exists>q. tx_queues dat = Some q \<and> unat (nb_tx_queues dat) \<le> length q \<and> tq = take (unat (nb_tx_queues dat)) q) \<and>
     (\<exists>q. rx_queues dat = Some q \<and> unat (nb_rx_queues dat) \<le> length q \<and> rq = take (unat (nb_rx_queues dat)) q)"

lemma tx_loop_each:
  assumes "eth_data dev w = Inr dat" and "queues_ok dat tq rq"
    and "\<And>p w w'. f p w = Inr w' \<Longrightarrow> eth_devs w' = eth_devs w"
  shows "for_loop 0 (unat (nb_tx_queues dat)) (\<lambda>i w. andThen (tx_queue dev i w) (\<lambda>p. f p w)) w = each f tq w"
proof -
  from assms(2) obtain q where q: "tx_queues dat = Some q" "unat (nb_tx_queues dat) \<le> length q"
    "tq = take (unat (nb_tx_queues dat)) q" by (auto simp: queues_ok_def)
  have inv: "eth_data dev u' = Inr dat" if "eth_data dev u = Inr dat" "f p u = Inr u'" for p u u'
    using assms(3) [OF that(2)] that(1) by (simp add: eth_data_def)
  have "for_loop 0 (unat (nb_tx_queues dat)) (\<lambda>i w. andThen (tx_queue dev i w) (\<lambda>p. f p w)) w
      = each f (take (unat (nb_tx_queues dat)) (drop 0 q)) w"
    by (rule for_loop_each [where P = "\<lambda>w. eth_data dev w = Inr dat"])
       (use q assms(1) inv in \<open>auto simp: tx_queue_def queue_array_def\<close>)
  then show ?thesis by (simp add: q(3))
qed

lemma rx_loop_each:
  assumes "eth_data dev w = Inr dat" and "queues_ok dat tq rq"
    and "\<And>p w w'. f p w = Inr w' \<Longrightarrow> eth_devs w' = eth_devs w"
  shows "for_loop 0 (unat (nb_rx_queues dat)) (\<lambda>i w. andThen (rx_queue dev i w) (\<lambda>p. f p w)) w = each f rq w"
proof -
  from assms(2) obtain q where q: "rx_queues dat = Some q" "unat (nb_rx_queues dat) \<le> length q"
    "rq = take (unat (nb_rx_queues dat)) q" by (auto simp: queues_ok_def)
  have inv: "eth_data dev u' = Inr dat" if "eth_data dev u = Inr dat" "f p u = Inr u'" for p u u'
    using assms(3) [OF that(2)] that(1) by (simp add: eth_data_def)
  have "for_loop 0 (unat (nb_rx_queues dat)) (\<lambda>i w. andThen (rx_queue dev i w) (\<lambda>p. f p w)) w
      = each f (take (unat (nb_rx_queues dat)) (drop 0 q)) w"
    by (rule for_loop_each [where P = "\<lambda>w. eth_data dev w = Inr dat"])
       (use q assms(1) inv in \<open>auto simp: rx_queue_def queue_array_def\<close>)
  then show ?thesis by (simp add: q(3))
qed

section \<open>Stopping all queues\<close>

definition engine_live :: "u64 \<Rightarrow> u64 \<Rightarrow> world \<Rightarrow> bool" where
  "engine_live p a w \<longleftrightarrow> (\<exists>e r. engine_at p a e r w)"

definition engine_idle :: "u64 \<Rightarrow> world \<Rightarrow> bool" where
  "engine_idle p w \<longleftrightarrow> (\<exists>e. engines w p = Some e \<and> \<not> running e \<and> desc_used e = 0)"

text \<open>The address of the control register of the engine at \<open>p\<close>.\<close>

definition ctrl_addr :: "u32 \<Rightarrow> u64 \<Rightarrow> world \<Rightarrow> u64 \<Rightarrow> u64" where
  "ctrl_addr ctrl a w p = (case engines w p of None \<Rightarrow> 0 | Some e \<Rightarrow> a + ucast (chan_reg ctrl e))"

lemma halted_keeps:
  assumes "engine_at p a e r w"
  shows "engine_live q b w \<Longrightarrow> engine_live q b (halted ctrl p a e r w)"
    and "engine_idle q w \<or> q = p \<Longrightarrow> engine_idle q (halted ctrl p a e r w)"
    and "ctrl_addr c a (halted ctrl p a e r w) = ctrl_addr c a w"
    and "eth_devs (halted ctrl p a e r w) = eth_devs w"
    and "ctrl_addr ctrl a w p = a + ucast (chan_reg ctrl e)"
proof -
  show "engine_live q b (halted ctrl p a e r w)" if live: "engine_live q b w"
  proof -
    from live obtain f s where f: "engine_at q b f s w" by (auto simp: engine_live_def)
    show ?thesis
    proof (cases "q = p")
      case True
      with f assms have "f = e" "s = r" by (simp_all add: engine_at_def)
      with f True show ?thesis
        unfolding engine_live_def halted_def
        by (intro exI [of _ "e\<lparr>running := False, desc_used := 0\<rparr>"] exI [of _ "map (clear_desc (dir e)) r"])
           (simp add: engine_at_def)
    next
      case False
      from f assms have "desc_ring f = desc_ring e \<Longrightarrow> s = r" by (simp add: engine_at_def)
      with f False show ?thesis
        unfolding engine_live_def halted_def
        by (intro exI [of _ f] exI [of _ "if desc_ring f = desc_ring e then map (clear_desc (dir e)) r else s"])
           (auto simp: engine_at_def)
    qed
  qed
  show "engine_idle q w \<or> q = p \<Longrightarrow> engine_idle q (halted ctrl p a e r w)"
    by (auto simp: engine_idle_def)
  show "ctrl_addr c a (halted ctrl p a e r w) = ctrl_addr c a w"
    using assms by (rule_tac ext) (simp add: ctrl_addr_def engine_at_def chan_reg_def)
  show "eth_devs (halted ctrl p a e r w) = eth_devs w" by (simp add: halted_def)
  show "ctrl_addr ctrl a w p = a + ucast (chan_reg ctrl e)"
    using assms by (simp add: ctrl_addr_def engine_at_def)
qed

lemma each_stop:
  assumes law: "\<And>p e r w. engine_at p a e r w \<Longrightarrow> stop p w = Inr (halted ctrl p a e r w)"
  shows "\<forall>p \<in> set ps. engine_live p a w \<Longrightarrow> \<exists>w'. each stop ps w = Inr w' \<and>
    (\<forall>q b. engine_live q b w \<longrightarrow> engine_live q b w') \<and>
    (\<forall>q. engine_idle q w \<or> q \<in> set ps \<longrightarrow> engine_idle q w') \<and>
    (\<forall>c. ctrl_addr c a w' = ctrl_addr c a w) \<and> eth_devs w' = eth_devs w \<and>
    mmio w' = mmio w @ map (\<lambda>p. (ctrl_addr ctrl a w p, stop_ctrl)) ps"
proof (induction ps arbitrary: w)
  case Nil
  then show ?case by simp
next
  case (Cons p ps)
  then obtain e r where at: "engine_at p a e r w" by (auto simp: engine_live_def)
  let ?w = "halted ctrl p a e r w"
  note keep = halted_keeps [OF at, where ctrl = ctrl]
  have "\<forall>q \<in> set ps. engine_live q a ?w" using Cons.prems keep(1) by simp
  from Cons.IH [OF this] obtain w' where w': "each stop ps ?w = Inr w'"
    "\<forall>q b. engine_live q b ?w \<longrightarrow> engine_live q b w'"
    "\<forall>q. engine_idle q ?w \<or> q \<in> set ps \<longrightarrow> engine_idle q w'"
    "\<forall>c. ctrl_addr c a w' = ctrl_addr c a ?w" "eth_devs w' = eth_devs ?w"
    "mmio w' = mmio ?w @ map (\<lambda>p. (ctrl_addr ctrl a ?w p, stop_ctrl)) ps" by blast
  have "each stop (p # ps) w = Inr w'" using law [OF at] w'(1) by simp
  moreover have "\<forall>q b. engine_live q b w \<longrightarrow> engine_live q b w'" using w'(2) keep(1) by blast
  moreover have "\<forall>q. engine_idle q w \<or> q \<in> set (p # ps) \<longrightarrow> engine_idle q w'" using w'(3) keep(2) by auto
  moreover have "\<forall>c. ctrl_addr c a w' = ctrl_addr c a w" using w'(4) keep(3) by simp
  moreover have "eth_devs w' = eth_devs w" using w'(5) keep(4) by simp
  moreover have "mmio w' = mmio w @ map (\<lambda>p. (ctrl_addr ctrl a w p, stop_ctrl)) (p # ps)"
    using w'(6) keep(3,5) by simp
  ultimately show ?case by blast
qed

section \<open>Releasing all queues\<close>

text \<open>The three blocks of a queue: software ring, DMA memory, engine structure.\<close>

definition queue_blocks :: "world \<Rightarrow> u64 \<Rightarrow> u64 list" where
  "queue_blocks w p = (case engines w p of None \<Rightarrow> [] | Some e \<Rightarrow> [sw_ring e, mz e, p])"

definition queue_owned :: "dma_data_direction \<Rightarrow> world \<Rightarrow> u64 \<Rightarrow> bool" where
  "queue_owned d w p \<longleftrightarrow> (\<exists>e. engines w p = Some e \<and> dir e = d) \<and>
     (\<forall>b \<in> set (queue_blocks w p). b \<noteq> 0 \<and> blocks w b \<noteq> None)"

definition all_blocks :: "world \<Rightarrow> u64 list \<Rightarrow> u64 list" where
  "all_blocks w ps = concat (map (queue_blocks w) ps)"

lemma release_one:
  assumes own: "queue_owned d w p" and dist: "distinct (queue_blocks w p)"
  shows "\<exists>w'. release_engine d p w = Inr w' \<and> eth_devs w' = eth_devs w \<and> mmio w' = mmio w \<and> xdevs w' = xdevs w \<and>
    blocks w' = blocks w |` (- set (queue_blocks w p)) \<and> engines w' = engines w |` (- set (queue_blocks w p))"
proof -
  from own obtain e where e: "engines w p = Some e" "dir e = d" by (auto simp: queue_owned_def)
  have live: "q \<noteq> 0 \<and> blocks w q \<noteq> None" if "q \<in> {sw_ring e, mz e, p}" for q
    using own that e unfolding queue_owned_def queue_blocks_def by auto
  obtain x y z where b: "sw_ring e \<noteq> 0" "mz e \<noteq> 0" "p \<noteq> 0" "blocks w (sw_ring e) = Some x"
      "blocks w (mz e) = Some y" "blocks w p = Some z"
    using live [of "sw_ring e"] live [of "mz e"] live [of p] by auto
  have ne: "sw_ring e \<noteq> mz e" "sw_ring e \<noteq> p" "mz e \<noteq> p" using dist e by (auto simp: queue_blocks_def)
  have mz: "rte_memzone_free (mz e) (drop_block (sw_ring e) x w)
      = Inr ((drop_block (mz e) y (drop_block (sw_ring e) x w))\<lparr>zones := filter (\<lambda>z. snd z \<noteq> mz e) (zones w)\<rparr>)"
    using b ne by (simp add: rte_memzone_free_def rte_free_def)
  show ?thesis
    using e b ne mz
    by (auto simp: release_engine_def rte_free_def queue_blocks_def fun_eq_iff restrict_map_def)
qed

lemma each_release:
  "\<forall>p \<in> set ps. queue_owned d w p \<Longrightarrow> distinct (all_blocks w ps) \<Longrightarrow>
   \<exists>w'. each (release_engine d) ps w = Inr w' \<and> eth_devs w' = eth_devs w \<and> mmio w' = mmio w \<and> xdevs w' = xdevs w \<and>
     blocks w' = blocks w |` (- set (all_blocks w ps)) \<and> engines w' = engines w |` (- set (all_blocks w ps))"
proof (induction ps arbitrary: w)
  case Nil
  then show ?case by (simp add: all_blocks_def)
next
  case (Cons p ps)
  have cons: "all_blocks w (p # ps) = queue_blocks w p @ all_blocks w ps" by (simp add: all_blocks_def)
  obtain u where u: "release_engine d p w = Inr u" "eth_devs u = eth_devs w" "mmio u = mmio w"
    "blocks u = blocks w |` (- set (queue_blocks w p))" "engines u = engines w |` (- set (queue_blocks w p))"
    "xdevs u = xdevs w"
    using release_one [of d w p] Cons.prems by (auto simp: cons)
  have self: "q \<in> set (queue_blocks w q)" if "queue_owned d w q" for q
    using that by (auto simp: queue_owned_def queue_blocks_def)
  have same: "queue_blocks u q = queue_blocks w q" "queue_owned d u q" if q: "q \<in> set ps" for q
  proof -
    have sub: "set (queue_blocks w q) \<subseteq> set (all_blocks w ps)" using q by (auto simp: all_blocks_def)
    then have new: "x \<notin> set (queue_blocks w p)" if "x \<in> set (queue_blocks w q)" for x
      using that Cons.prems(2) by (auto simp: cons)
    have own: "queue_owned d w q" using Cons.prems(1) q by simp
    then have "engines u q = engines w q" using new [OF self] by (simp add: u(5))
    then show blk: "queue_blocks u q = queue_blocks w q" by (simp add: queue_blocks_def)
    have "blocks u x = blocks w x" if "x \<in> set (queue_blocks w q)" for x
      using new [OF that] by (simp add: u(4))
    then show "queue_owned d u q"
      using own \<open>engines u q = engines w q\<close> by (simp add: queue_owned_def blk)
  qed
  have all: "all_blocks u ps = all_blocks w ps"
    unfolding all_blocks_def by (rule arg_cong [where f = concat]) (simp add: same)
  have "\<forall>q \<in> set ps. queue_owned d u q" "distinct (all_blocks u ps)"
    using same Cons.prems(2) by (auto simp: all cons)
  from Cons.IH [OF this] obtain w' where w': "each (release_engine d) ps u = Inr w'"
    "eth_devs w' = eth_devs u" "mmio w' = mmio u" "blocks w' = blocks u |` (- set (all_blocks w ps))"
    "engines w' = engines u |` (- set (all_blocks w ps))" "xdevs w' = xdevs u" unfolding all by blast
  have "blocks w' = blocks w |` (- set (all_blocks w (p # ps)))"
    "engines w' = engines w |` (- set (all_blocks w (p # ps)))"
    unfolding w'(4,5) u(4,5) cons by (auto simp: restrict_map_def fun_eq_iff)
  with u w' show ?case by simp
qed

lemma dev_close_blocks:
  assumes "eth_data dev w = Inr dat" and "queues_ok dat tq rq" and "\<not> dev_started dat"
    and "\<forall>p \<in> set tq. queue_owned H2C w p" and "\<forall>p \<in> set rq. queue_owned C2H w p"
    and "distinct (all_blocks w (rq @ tq))"
  shows "\<exists>w'. xdma_dev_close dev w = Inr w' \<and>
    blocks w' = blocks w |` (- set (all_blocks w (rq @ tq))) \<and> mmio w' = mmio w \<and> eth_devs w' = eth_devs w \<and>
    xdevs w' = xdevs w"
proof -
  have app: "all_blocks v (xs @ ys) = all_blocks v xs @ all_blocks v ys" for v xs ys
    by (simp add: all_blocks_def)
  obtain u where u: "each (release_engine C2H) rq w = Inr u" "eth_devs u = eth_devs w" "mmio u = mmio w"
    "blocks u = blocks w |` (- set (all_blocks w rq))" "engines u = engines w |` (- set (all_blocks w rq))"
    "xdevs u = xdevs w"
    using each_release [OF assms(5)] assms(6) by (auto simp: app)
  have same: "queue_blocks u q = queue_blocks w q \<and> queue_owned H2C u q" if q: "q \<in> set tq" for q
  proof -
    have own: "queue_owned H2C w q" using assms(4) q by simp
    have "set (queue_blocks w q) \<subseteq> set (all_blocks w tq)" using q by (auto simp: all_blocks_def)
    then have new: "x \<notin> set (all_blocks w rq)" if "x \<in> set (queue_blocks w q)" for x
      using that assms(6) by (auto simp: app)
    moreover have "q \<in> set (queue_blocks w q)" using own by (auto simp: queue_owned_def queue_blocks_def)
    ultimately have e: "engines u q = engines w q" by (simp add: u(5))
    then have blk: "queue_blocks u q = queue_blocks w q" by (simp add: queue_blocks_def)
    have "blocks u x = blocks w x" if "x \<in> set (queue_blocks w q)" for x
      using new [OF that] by (simp add: u(4))
    then show ?thesis using own e by (simp add: queue_owned_def blk)
  qed
  have all: "all_blocks u tq = all_blocks w tq"
    unfolding all_blocks_def by (rule arg_cong [where f = concat]) (simp add: same)
  obtain w' where w': "each (release_engine H2C) tq u = Inr w'" "mmio w' = mmio u" "eth_devs w' = eth_devs u"
    "blocks w' = blocks u |` (- set (all_blocks u tq))" "xdevs w' = xdevs u"
    using each_release [of tq H2C u] same assms(6) by (auto simp: all app)
  have dat: "eth_data dev u = Inr dat" using assms(1) u(2) by (simp add: eth_data_def)
  have "xdma_dev_close dev w = Inr w'"
    using rx_loop_each [OF assms(1,2) release_frame] tx_loop_each [OF dat assms(2) release_frame]
      assms(1,3) u(1) w'(1)
    by (simp add: xdma_dev_close_def)
  moreover have "blocks w' = blocks w |` (- set (all_blocks w (rq @ tq)))"
    unfolding w'(4) u(4) all app by (auto simp: restrict_map_def fun_eq_iff)
  ultimately show ?thesis using w'(2,3,5) u(2,3,6) by simp
qed

section \<open>Stopping all queues\<close>

text \<open>Stopping an engine keeps the heap and the blocks of every queue.\<close>

definition heap_kept :: "world \<Rightarrow> world \<Rightarrow> bool" where
  "heap_kept w w' \<longleftrightarrow> eth_devs w' = eth_devs w \<and> blocks w' = blocks w \<and> queue_blocks w' = queue_blocks w \<and>
     (\<forall>d. queue_owned d w' = queue_owned d w)"

lemma heap_kept_trans: "heap_kept u v \<Longrightarrow> heap_kept v w \<Longrightarrow> heap_kept u w"
  by (simp add: heap_kept_def)

lemma heap_kept_refl [simp]: "heap_kept w w"
  by (simp add: heap_kept_def)

lemma halted_heap:
  assumes "engine_at p a e r w"
  shows "heap_kept w (halted c p a e r w)"
proof -
  have "engines w p = Some e" using assms by (simp add: engine_at_def)
  then have "queue_blocks (halted c p a e r w) = queue_blocks w"
    by (simp add: fun_eq_iff queue_blocks_def)
  moreover have "(\<exists>f. engines (halted c p a e r w) q = Some f \<and> dir f = d) = (\<exists>f. engines w q = Some f \<and> dir f = d)" for d q
    using \<open>engines w p = Some e\<close> by auto
  ultimately have "queue_owned d (halted c p a e r w) q = queue_owned d w q" for d q
    by (simp only: queue_owned_def halted_sel)
  moreover have "eth_devs (halted c p a e r w) = eth_devs w" using halted_keeps(4) [OF assms] .
  ultimately show ?thesis
    using \<open>queue_blocks (halted c p a e r w) = queue_blocks w\<close> by (simp add: heap_kept_def ext)
qed

lemma each_stop_heap:
  assumes law: "\<And>p e r w. engine_at p a e r w \<Longrightarrow> stop p w = Inr (halted ctrl p a e r w)"
  shows "\<forall>p \<in> set ps. engine_live p a w \<Longrightarrow> each stop ps w = Inr w' \<Longrightarrow> heap_kept w w'"
proof (induction ps arbitrary: w)
  case Nil
  then show ?case by simp
next
  case (Cons p ps)
  then obtain e r where at: "engine_at p a e r w" by (auto simp: engine_live_def)
  have "\<forall>q \<in> set ps. engine_live q a (halted ctrl p a e r w)"
    using Cons.prems(1) halted_keeps(1) [OF at] by simp
  moreover have "each stop ps (halted ctrl p a e r w) = Inr w'" using Cons.prems(2) law [OF at] by simp
  ultimately have "heap_kept (halted ctrl p a e r w) w'" by (rule Cons.IH)
  then show ?case using heap_kept_trans halted_heap [OF at] by blast
qed

lemma dev_stop_eq:
  assumes "eth_data dev w = Inr dat" and "queues_ok dat tq rq"
    and "\<forall>p \<in> set tq \<union> set rq. engine_live p a w"
  shows "\<exists>w'. xdma_dev_stop dev w = Inr w' \<and>
    (\<forall>p \<in> set tq \<union> set rq. engine_idle p w' \<and> engine_live p a w') \<and>
    mmio w' = mmio w @ map (\<lambda>p. (ctrl_addr H2C_CHANNEL_CTRL a w p, stop_ctrl)) tq
                     @ map (\<lambda>p. (ctrl_addr C2H_CHANNEL_CTRL a w p, stop_ctrl)) rq \<and>
    heap_kept w w'"
proof -
  have "\<forall>p \<in> set tq. engine_live p a w" using assms(3) by simp
  from each_stop [where stop = xdma_tx_engine_stop, OF tx_stop_eq this] obtain w1 where
    w1: "each xdma_tx_engine_stop tq w = Inr w1" "\<forall>q b. engine_live q b w \<longrightarrow> engine_live q b w1"
      "\<forall>q. engine_idle q w \<or> q \<in> set tq \<longrightarrow> engine_idle q w1"
      "\<forall>c. ctrl_addr c a w1 = ctrl_addr c a w" "eth_devs w1 = eth_devs w"
      "mmio w1 = mmio w @ map (\<lambda>p. (ctrl_addr H2C_CHANNEL_CTRL a w p, stop_ctrl)) tq" by blast
  then have "\<forall>p \<in> set rq. engine_live p a w1" using assms(3) by simp
  from each_stop [where stop = xdma_rx_engine_stop, OF rx_stop_eq this] obtain w2 where
    w2: "each xdma_rx_engine_stop rq w1 = Inr w2" "\<forall>q b. engine_live q b w1 \<longrightarrow> engine_live q b w2"
      "\<forall>q. engine_idle q w1 \<or> q \<in> set rq \<longrightarrow> engine_idle q w2"
      "mmio w2 = mmio w1 @ map (\<lambda>p. (ctrl_addr C2H_CHANNEL_CTRL a w1 p, stop_ctrl)) rq" by blast
  have dat1: "eth_data dev w1 = Inr dat" using assms(1) w1(5) by (simp add: eth_data_def)
  have "xdma_dev_stop dev w = Inr w2"
    using tx_loop_each [OF assms(1,2) stop_frame(1)] rx_loop_each [OF dat1 assms(2) stop_frame(2)]
      assms(1) w1(1) w2(1)
    by (simp add: xdma_dev_stop_def)
  moreover have "heap_kept w w2"
    using heap_kept_trans each_stop_heap [OF tx_stop_eq _ w1(1)] each_stop_heap [OF rx_stop_eq _ w2(1)]
      \<open>\<forall>p \<in> set rq. engine_live p a w1\<close> assms(3) by blast
  ultimately show ?thesis using w1 w2 assms(3) by auto
qed

section \<open>Properties\<close>

text \<open>
  Starting a device enables all user and all channel interrupts, in this order, and
  touches nothing else; in particular no engine is started.
\<close>

theorem dev_start_enables:
  assumes "eth_data dev w = Inr dat" and "bar_mapped config_bar_idx (dev_private dat) a w"
  shows "xdma_dev_start dev w = Inr (w\<lparr>mmio := mmio w @
    [(a + 0x2008, 0xFFFFFFFF), (a + 0x2014, 0xFFFFFFFF)]\<rparr>)"
  using assms
  by (simp add: xdma_dev_start_def user_interrupts_enable_def channel_interrupts_enable_def
      config_bus.wr_mapped [of "dev_private dat" a] mmio_store_def c_consts)

text \<open>
  Stopping a device stops every queue: first the transmit, then the receive queues, one
  control register write each, after which every engine is idle and still well-formed.
\<close>

theorem dev_stop_all_queues:
  assumes "eth_data dev w = Inr dat" and "queues_ok dat tq rq"
    and "\<forall>p \<in> set tq \<union> set rq. engine_live p a w"
  shows "\<exists>w'. xdma_dev_stop dev w = Inr w' \<and>
    (\<forall>p \<in> set tq \<union> set rq. engine_idle p w' \<and> engine_live p a w') \<and>
    mmio w' = mmio w @ map (\<lambda>p. (ctrl_addr H2C_CHANNEL_CTRL a w p, stop_ctrl)) tq
                     @ map (\<lambda>p. (ctrl_addr C2H_CHANNEL_CTRL a w p, stop_ctrl)) rq"
  using dev_stop_eq [OF assms] by blast

text \<open>
  Closing a stopped device releases, for every queue, exactly its software ring, its
  memzone and its engine structure, and nothing else; it writes no register.
\<close>

theorem dev_close_releases:
  assumes "eth_data dev w = Inr dat" and "queues_ok dat tq rq" and "\<not> dev_started dat"
    and "\<forall>p \<in> set tq. queue_owned H2C w p" and "\<forall>p \<in> set rq. queue_owned C2H w p"
    and "distinct (all_blocks w (rq @ tq))"
  shows "\<exists>w'. xdma_dev_close dev w = Inr w' \<and>
    blocks w' = blocks w |` (- set (all_blocks w (rq @ tq))) \<and> mmio w' = mmio w"
  using dev_close_blocks [OF assms] by blast

end
