(* ===== verification/Probe.thy ===== *)
theory Probe
  imports Device Rx
begin

text \<open>
  Probing and removing a device: device arguments and BAR assignment (\<open>xdma_common.c\<close>), the
  ethdev operations that only fill in fields (\<open>xdma_devops.c\<close>) and the init and uninit
  functions the PCI driver registers (\<open>xdma_ethdev.c\<close>).
\<close>

section \<open>Device identification\<close>

definition PCI_VENDOR_ID_XILINX :: u16 where "PCI_VENDOR_ID_XILINX = 0x10ee"

definition xdma_pci_ids :: "u16 list" where
  "xdma_pci_ids =
    [0x9011, 0x9111, 0x9211, 0x9311, 0x9014, 0x9114, 0x9214, 0x9314,
     0x9018, 0x9118, 0x9218, 0x9318, 0x901f, 0x911f, 0x921f, 0x931f,
     0x9021, 0x9121, 0x9221, 0x9321, 0x9024, 0x9124, 0x9224, 0x9324,
     0x9028, 0x9128, 0x9228, 0x9328, 0x902f, 0x912f, 0x922f, 0x932f,
     0x9031, 0x9131, 0x9231, 0x9331, 0x9034, 0x9134, 0x9234, 0x9334,
     0x9038, 0x9138, 0x9238, 0x9338, 0x903f, 0x913f, 0x923f, 0x933f,
     0x9041, 0x9141, 0x9241, 0x9341, 0x9044, 0x9144, 0x9244, 0x9344,
     0x9048, 0x9148, 0x9248, 0x9348, 0xb011, 0xb111, 0xb211, 0xb311,
     0xb014, 0xb114, 0xb214, 0xb314, 0xb018, 0xb118, 0xb218, 0xb318,
     0xb01f, 0xb11f, 0xb21f, 0xb31f, 0xb021, 0xb121, 0xb221, 0xb321,
     0xb024, 0xb124, 0xb224, 0xb324, 0xb028, 0xb128, 0xb228, 0xb328,
     0xb02f, 0xb12f, 0xb22f, 0xb32f, 0xb031, 0xb131, 0xb231, 0xb331,
     0xb034, 0xb134, 0xb234, 0xb334, 0xb038, 0xb138, 0xb238, 0xb338,
     0xb03f, 0xb13f, 0xb23f, 0xb33f, 0xb041, 0xb141, 0xb241, 0xb341,
     0xb044, 0xb144, 0xb244, 0xb344, 0xb048, 0xb148, 0xb248, 0xb348,
     0xb058, 0xb158, 0xb258, 0xb358]"

text \<open>The table ends in a sentinel with vendor 0.\<close>

definition xdma_pci_id_tbl :: "(u16 \<times> u16) list" where
  "xdma_pci_id_tbl = map (\<lambda>d. (PCI_VENDOR_ID_XILINX, d)) xdma_pci_ids @ [(0, 0)]"

section \<open>Numbers in device arguments\<close>

text \<open>
  \<open>strtoul(s, \<dots>, 10)\<close> of the C library: white space, an optional sign, digits; 0 when there
  is no digit, \<open>ULONG_MAX\<close> on overflow, and negation modulo \<open>2^64\<close> after a minus sign.
\<close>

definition is_space :: "char \<Rightarrow> bool" where
  "is_space c \<longleftrightarrow> c = CHR '' '' \<or> (9 \<le> (of_char c :: nat) \<and> (of_char c :: nat) \<le> 13)"

definition is_digit :: "char \<Rightarrow> bool" where
  "is_digit c \<longleftrightarrow> 48 \<le> (of_char c :: nat) \<and> (of_char c :: nat) \<le> 57"

definition strtoul :: "string \<Rightarrow> u64" where
  "strtoul s =
     (let s = dropWhile is_space s;
          (neg, s) = (case s of [] \<Rightarrow> (False, s)
                      | c # cs \<Rightarrow> if c = CHR ''-'' then (True, cs) else if c = CHR ''+'' then (False, cs) else (False, s));
          n = undec 0 (takeWhile is_digit s)
      in if n \<ge> 2 ^ 64 then 0xFFFFFFFFFFFFFFFF else if neg then - of_nat n else of_nat n)"

text \<open>The conversion \<open>(int)\<close> keeps 32 bits.\<close>

definition to_int :: "u64 \<Rightarrow> int" where
  "to_int v = sint (ucast v :: u32)"

section \<open>Device arguments\<close>

definition config_bar_idx_handler :: "string \<Rightarrow> xdma_dev \<Rightarrow> int \<times> xdma_dev" where
  "config_bar_idx_handler value xdma_dev =
     (let xdma_dev = xdma_dev\<lparr>config_bar_idx := to_int (strtoul value)\<rparr> in
      if config_bar_idx xdma_dev \<ge> int XDMA_BAR_NUM \<or> config_bar_idx xdma_dev < 0 then (- 1, xdma_dev)
      else (0, xdma_dev))"

text \<open>The \<open>rte_kvargs\<close> library: parsing, counting a key, applying a handler to a key's values.\<close>

type_synonym kvlist = "(string \<times> string) list"

record kvargs =
  kv_parse :: "string \<Rightarrow> kvlist option"
  kv_count :: "kvlist \<Rightarrow> string \<Rightarrow> nat"
  kv_process :: "kvlist \<Rightarrow> string \<Rightarrow> (string \<Rightarrow> xdma_dev \<Rightarrow> int \<times> xdma_dev) \<Rightarrow> xdma_dev \<Rightarrow> int \<times> xdma_dev"

definition xdma_check_kvargs :: "kvargs \<Rightarrow> string option \<Rightarrow> xdma_dev \<Rightarrow> int \<times> xdma_dev" where
  "xdma_check_kvargs kv devargs d =
     (case devargs of None \<Rightarrow> (0, d)
      | Some args \<Rightarrow>
        (case kv_parse kv args of None \<Rightarrow> (0, d)
         | Some kvl \<Rightarrow>
             if kv_count kv kvl ''config_bar'' \<noteq> 0
             then kv_process kv kvl ''config_bar'' config_bar_idx_handler d
             else (0, d)))"

section \<open>BARs\<close>

definition call_get_user_bar :: "u64 \<Rightarrow> xdma_dev \<Rightarrow> world \<Rightarrow> fault + int \<times> u8 option" where
  "call_get_user_bar dev d w =
     andThen (deref (hw_tables w) (hw_access d)) (\<lambda>t.
     case hw_get_user_bar t of None \<Rightarrow> Inl NullDeref
     | Some Fn_xdma_get_user_bar \<Rightarrow> Inr (xdma_get_user_bar dev))"

text \<open>The first enabled BAR that is neither the user nor the configuration BAR.\<close>

fun bypass_search :: "mem_resource list \<Rightarrow> int \<Rightarrow> int \<Rightarrow> nat \<Rightarrow> nat \<Rightarrow> fault + nat option" where
  "bypass_search res user config i 0 = Inr None"
| "bypass_search res user config i (Suc n) =
     andThen (load_idx res i) (\<lambda>b.
     if res_len b = 0 then bypass_search res user config (Suc i) n
     else if user \<noteq> int i \<and> config \<noteq> int i then Inr (Some i)
     else bypass_search res user config (Suc i) n)"

text \<open>The assignment of the user and the bypass BAR, once the configuration BAR is known to exist.\<close>

definition assign_bars :: "mem_resource list \<Rightarrow> int \<times> u8 option \<Rightarrow> xdma_dev \<Rightarrow> fault + xdma_dev" where
  "assign_bars res ub d =
     (let (ret, usr_bar) = ub; usr = (case usr_bar of None \<Rightarrow> 0 | Some b \<Rightarrow> unat b) in
     andThen (if ret \<noteq> 0 then Inr True else andThen (load_idx res usr) (\<lambda>b. Inr (res_len b = 0))) (\<lambda>none.
     andThen (if none then andThen (load_idx res 1) (\<lambda>b. Inr (if res_len b = 0 then 2 else 1)) else Inr (int usr))
       (\<lambda>user.
     let d = d\<lparr>user_bar_idx := user\<rparr> in
     andThen (bypass_search res user (config_bar_idx d) 0 XDMA_BAR_NUM) (\<lambda>bp.
     Inr (case bp of None \<Rightarrow> d | Some i \<Rightarrow> d\<lparr>bypass_bar_idx := int i\<rparr>)))))"

definition pci_resources :: "u64 \<Rightarrow> world \<Rightarrow> fault + mem_resource list" where
  "pci_resources dev w =
     andThen (deref (eth_devs w) dev) (\<lambda>d. case device d of None \<Rightarrow> Inl NullDeref | Some r \<Rightarrow> Inr r)"

definition xdma_identify_bars :: "u64 \<Rightarrow> world \<Rightarrow> fault + int \<times> world" where
  "xdma_identify_bars dev w =
     andThen (eth_data dev w) (\<lambda>dat.
     andThen (pci_resources dev w) (\<lambda>res.
     andThen (deref (xdevs w) (dev_private dat)) (\<lambda>d.
     andThen (load_int res (config_bar_idx d)) (\<lambda>cb.
     if res_len cb = 0 then Inr (- 1, w)
     else andThen (call_get_user_bar dev d w) (\<lambda>ub.
          andThen (assign_bars res ub d) (\<lambda>d.
          Inr (0, w\<lparr>xdevs := (xdevs w)(dev_private dat \<mapsto> d)\<rparr>)))))))"

section \<open>Ethdev operations without hardware access\<close>

definition xdma_dev_configure :: "u64 \<Rightarrow> world \<Rightarrow> fault + world" where
  "xdma_dev_configure dev w =
     andThen (eth_data dev w) (\<lambda>dat.
     andThen (deref (xdevs w) (dev_private dat)) (\<lambda>d.
     Inr (w\<lparr>xdevs := (xdevs w)(dev_private dat \<mapsto> d\<lparr>dev_configured := True\<rparr>)\<rparr>)))"

record rte_eth_dev_info =
  max_rx_queues :: u16
  max_tx_queues :: u16
  min_rx_bufsize :: u32
  max_rx_pktlen :: u32
  max_mac_addrs :: u32

text \<open>A definition of the build file.\<close>

definition DMA_BRAM_SIZE :: u32 where "DMA_BRAM_SIZE = 524288"

definition xdma_dev_infos_get :: "u64 \<Rightarrow> rte_eth_dev_info \<Rightarrow> world \<Rightarrow> fault + rte_eth_dev_info" where
  "xdma_dev_infos_get dev dev_info w =
     andThen (eth_data dev w) (\<lambda>dat.
     andThen (deref (xdevs w) (dev_private dat)) (\<lambda>d.
     Inr (dev_info\<lparr>max_rx_queues := of_nat (c2h_channel_max d), max_tx_queues := of_nat (h2c_channel_max d),
            min_rx_bufsize := XDMA_MIN_RXBUFF_SIZE, max_rx_pktlen := DMA_BRAM_SIZE, max_mac_addrs := 1\<rparr>)))"

definition xdma_dev_link_update :: "u64 \<Rightarrow> world \<Rightarrow> fault + world" where
  "xdma_dev_link_update dev w =
     andThen (eth_data dev w) (\<lambda>dat.
     set_eth_data dev (dat\<lparr>dev_link := \<lparr>link_speed = 200000, link_duplex = True, link_status = True\<rparr>\<rparr>) w)"

definition xdma_eth_dev_ops :: eth_dev_ops where
  "xdma_eth_dev_ops = \<lparr>op_dev_configure = Some Op_xdma_dev_configure,
     op_dev_infos_get = Some Op_xdma_dev_infos_get, op_dev_start = Some Op_xdma_dev_start,
     op_dev_stop = Some Op_xdma_dev_stop, op_dev_close = Some Op_xdma_dev_close, op_dev_reset = None,
     op_link_update = Some Op_xdma_dev_link_update, op_rx_queue_setup = Some Op_xdma_rx_engine_setup,
     op_tx_queue_setup = Some Op_xdma_tx_engine_setup, op_rx_queue_start = Some Op_xdma_rx_engine_start,
     op_rx_queue_stop = Some Op_xdma_rx_engine_stop, op_tx_queue_start = Some Op_xdma_tx_engine_start,
     op_tx_queue_stop = Some Op_xdma_tx_engine_stop\<rparr>"

definition xdma_dev_ops_init :: "u64 \<Rightarrow> world \<Rightarrow> fault + world" where
  "xdma_dev_ops_init dev w =
     andThen (deref (eth_devs w) dev) (\<lambda>d.
     andThen (xdma_set_rx_function dev (w\<lparr>eth_devs := (eth_devs w)(dev \<mapsto> d\<lparr>dev_ops := Some xdma_eth_dev_ops\<rparr>)\<rparr>)) (\<lambda>w.
     xdma_set_tx_function dev w))"

section \<open>Init and uninit\<close>

definition EPERM :: int where "EPERM = 1"
definition ENOMEM :: int where "ENOMEM = 12"
definition EINVAL :: int where "EINVAL = 22"
definition ENOTSUP :: int where "ENOTSUP = 95"
definition RTE_ETHER_ADDR_LEN :: nat where "RTE_ETHER_ADDR_LEN = 6"

text \<open>The completion trigger modes, numbered in order.\<close>

datatype rte_pmd_qdma_trigger_mode = RTE_PMD_QDMA_TRIG_MODE_DISABLE | RTE_PMD_QDMA_TRIG_MODE_EVERY
  | RTE_PMD_QDMA_TRIG_MODE_USER_COUNT | RTE_PMD_QDMA_TRIG_MODE_USER | RTE_PMD_QDMA_TRIG_MODE_USER_TIMER
  | RTE_PMD_QDMA_TRIG_MODE_USER_TIMER_COUNT | RTE_PMD_QDMA_TRIG_MODE_MAX

primrec trig_value :: "rte_pmd_qdma_trigger_mode \<Rightarrow> u8" where
  "trig_value RTE_PMD_QDMA_TRIG_MODE_DISABLE = 0"
| "trig_value RTE_PMD_QDMA_TRIG_MODE_EVERY = 1"
| "trig_value RTE_PMD_QDMA_TRIG_MODE_USER_COUNT = 2"
| "trig_value RTE_PMD_QDMA_TRIG_MODE_USER = 3"
| "trig_value RTE_PMD_QDMA_TRIG_MODE_USER_TIMER = 4"
| "trig_value RTE_PMD_QDMA_TRIG_MODE_USER_TIMER_COUNT = 5"
| "trig_value RTE_PMD_QDMA_TRIG_MODE_MAX = 6"

definition sizeof_xdma_hw_access :: nat where "sizeof_xdma_hw_access = 80"

definition dummy_mac :: "u8 list" where
  "dummy_mac = map (\<lambda>i. 0x15 + of_nat i) [0..<RTE_ETHER_ADDR_LEN]"

definition set_xdev :: "u64 \<Rightarrow> xdma_dev \<Rightarrow> world \<Rightarrow> world" where
  "set_xdev p d w = w\<lparr>xdevs := (xdevs w)(p \<mapsto> d)\<rparr>"

text \<open>\<open>dma_priv->bar[i] = pci_dev->mem_resource[i].addr\<close>.\<close>

definition map_bar :: "mem_resource list \<Rightarrow> int \<Rightarrow> xdma_dev \<Rightarrow> fault + xdma_dev" where
  "map_bar res i d =
     andThen (load_int res i) (\<lambda>b.
     andThen (store_int (bar d) i (res_addr b)) (\<lambda>bs. Inr (d\<lparr>bar := bs\<rparr>)))"

text \<open>The user and the bypass BAR, where there is one.\<close>

definition map_other_bars :: "mem_resource list \<Rightarrow> xdma_dev \<Rightarrow> fault + xdma_dev" where
  "map_other_bars res d =
     andThen (if user_bar_idx d \<ge> 0 then map_bar res (user_bar_idx d) d else Inr d) (\<lambda>d.
     if bypass_bar_idx d \<ge> 0 then map_bar res (bypass_bar_idx d) d else Inr d)"

definition default_bars :: "xdma_dev \<Rightarrow> xdma_dev" where
  "default_bars d = d\<lparr>config_bar_idx := DEFAULT_CONFIG_BAR, bypass_bar_idx := BAR_ID_INVALID,
     user_bar_idx := BAR_ID_INVALID, c2h_channel_max := XDMA_CHANNEL_NUM_MAX,
     h2c_channel_max := XDMA_CHANNEL_NUM_MAX\<rparr>"

text \<open>\<open>xdma_hw_access_init\<close> as a call: it fills the table and returns 0.\<close>

definition hw_access_fill :: "u64 \<Rightarrow> world \<Rightarrow> int \<times> world" where
  "hw_access_fill p w = (0, w\<lparr>hw_tables := (hw_tables w)(p \<mapsto> xdma_hw_access_init)\<rparr>)"

text \<open>
  The part of \<open>xdma_eth_dev_init\<close> after the allocation of the MAC address \<open>mac\<close>, on the
  private data at \<open>p\<close>.
\<close>

definition init_bars :: "env \<Rightarrow> u64 \<Rightarrow> u64 \<Rightarrow> mem_resource list \<Rightarrow> u64 \<Rightarrow> xdma_dev \<Rightarrow> world
    \<Rightarrow> fault + int \<times> world" where
  "init_bars ev dev mac res p d w =
     andThen (map_bar res (config_bar_idx d) d) (\<lambda>d.
     let (h, w) = rte_alloc ev sizeof_xdma_hw_access w;
         w = set_xdev p (d\<lparr>hw_access := h\<rparr>) w
     in if h = 0 then andThen (rte_free mac w) (\<lambda>w. Inr (- ENOMEM, w)) else
     let (idx, w) = hw_access_fill h w in
     if idx < 0 then andThen (rte_free h w) (\<lambda>w. andThen (rte_free mac w) (\<lambda>w. Inr (- EINVAL, w))) else
     andThen (xdma_identify_bars dev w) (\<lambda>(idx, w).
     if idx < 0 then andThen (rte_free h w) (\<lambda>w. andThen (rte_free mac w) (\<lambda>w. Inr (- EINVAL, w))) else
     andThen (deref (xdevs w) p) (\<lambda>d.
     andThen (map_other_bars res d) (\<lambda>d.
     andThen (xdma_dev_ops_init dev (set_xdev p d w)) (\<lambda>w.
     Inr (0, set_xdev p (d\<lparr>trigger_mode := trig_value RTE_PMD_QDMA_TRIG_MODE_USER_TIMER\<rparr>) w))))))"

definition init_primary :: "env \<Rightarrow> kvargs \<Rightarrow> string option \<Rightarrow> u64 \<Rightarrow> rte_eth_dev_data \<Rightarrow> mem_resource list
    \<Rightarrow> world \<Rightarrow> fault + int \<times> world" where
  "init_primary ev kv devargs dev dat res w =
     (let p = dev_private dat; (mac, w) = rte_alloc ev (RTE_ETHER_ADDR_LEN * 1) w in
      andThen (set_eth_data dev (dat\<lparr>mac_addrs := mac\<rparr>) w) (\<lambda>w.
      if mac = 0 then Inr (- ENOMEM, w) else
      let w = w\<lparr>macs := (macs w)(mac \<mapsto> dummy_mac)\<rparr> in
      andThen (deref (xdevs w) p) (\<lambda>d.
      let (r, d) = xdma_check_kvargs kv devargs (default_bars d); w = set_xdev p d w in
      if r \<noteq> 0 then andThen (rte_free mac w) (\<lambda>w. Inr (- EINVAL, w))
      else init_bars ev dev mac res p d w)))"

text \<open>\<open>primary\<close> tells whether this is the primary process.\<close>

definition xdma_eth_dev_init :: "env \<Rightarrow> kvargs \<Rightarrow> bool \<Rightarrow> string option \<Rightarrow> u64 \<Rightarrow> world
    \<Rightarrow> fault + int \<times> world" where
  "xdma_eth_dev_init ev kv primary devargs dev w =
     (if dev = 0 then Inr (- EINVAL, w) else
      andThen (deref (eth_devs w) dev) (\<lambda>ed.
      (case data ed of
         None \<Rightarrow> Inr (- EINVAL, w)
       | Some dat \<Rightarrow>
           if dev_private dat = 0 then Inr (- EINVAL, w) else
           (case device ed of
              None \<Rightarrow> Inr (- EINVAL, w)
            | Some res \<Rightarrow>
                if primary then init_primary ev kv devargs dev dat res w
                else andThen (xdma_dev_ops_init dev w) (\<lambda>w. Inr (0, w))))))"

definition xdma_eth_dev_uninit :: "bool \<Rightarrow> u64 \<Rightarrow> world \<Rightarrow> fault + int \<times> world" where
  "xdma_eth_dev_uninit primary dev w =
     andThen (eth_data dev w) (\<lambda>dat.
     if \<not> primary then Inr (- EPERM, w) else
     let p = dev_private dat in
     andThen (deref (xdevs w) p) (\<lambda>d.
     andThen (if dev_configured d then xdma_dev_close dev w else Inr w) (\<lambda>w.
     andThen (deref (eth_devs w) dev) (\<lambda>ed.
     let w = w\<lparr>eth_devs := (eth_devs w)(dev \<mapsto> ed\<lparr>dev_ops := None, rx_pkt_burst := None,
               tx_pkt_burst := None\<rparr>)\<rparr> in
     andThen (eth_data dev w) (\<lambda>dat.
     andThen (set_eth_data dev (dat\<lparr>nb_rx_queues := 0, nb_tx_queues := 0\<rparr>) w) (\<lambda>w.
     andThen (if mac_addrs dat \<noteq> 0
              then andThen (rte_free (mac_addrs dat) w) (\<lambda>w.
                   set_eth_data dev (dat\<lparr>nb_rx_queues := 0, nb_tx_queues := 0, mac_addrs := 0\<rparr>) w)
              else Inr w) (\<lambda>w.
     andThen (deref (xdevs w) p) (\<lambda>d.
     andThen (if hw_access d \<noteq> 0
              then andThen (rte_free (hw_access d) w) (\<lambda>w. Inr (set_xdev p (d\<lparr>hw_access := 0\<rparr>) w))
              else Inr w) (\<lambda>w. Inr (0, w))))))))))"

section \<open>The PCI driver\<close>

text \<open>
  DPDK's generic probe and remove functions for PCI devices are parameters: \<open>gprobe\<close> takes the
  PCI device, the size of the private data and the init function, \<open>gremove\<close> the device and the
  uninit function.  \<open>devargs\<close> gives the device arguments of a device.
\<close>

definition sizeof_xdma_dev :: nat where "sizeof_xdma_dev = 1408"

type_synonym dev_fun = "u64 \<Rightarrow> world \<Rightarrow> fault + int \<times> world"

definition eth_xdma_pci_probe :: "('pci \<Rightarrow> nat \<Rightarrow> dev_fun \<Rightarrow> world \<Rightarrow> fault + int \<times> world) \<Rightarrow> env \<Rightarrow> kvargs
    \<Rightarrow> bool \<Rightarrow> (u64 \<Rightarrow> string option) \<Rightarrow> 'pci \<Rightarrow> world \<Rightarrow> fault + int \<times> world" where
  "eth_xdma_pci_probe gprobe ev kv primary devargs pci_dev w =
     gprobe pci_dev sizeof_xdma_dev (\<lambda>dev. xdma_eth_dev_init ev kv primary (devargs dev) dev) w"

definition eth_xdma_pci_remove :: "('pci \<Rightarrow> dev_fun \<Rightarrow> world \<Rightarrow> fault + int \<times> world) \<Rightarrow> bool \<Rightarrow> 'pci
    \<Rightarrow> world \<Rightarrow> fault + int \<times> world" where
  "eth_xdma_pci_remove gremove primary pci_dev w = gremove pci_dev (xdma_eth_dev_uninit primary) w"

text \<open>\<open>need_mapping\<close> is the DPDK flag \<open>RTE_PCI_DRV_NEED_MAPPING\<close>.\<close>

record 'pci rte_pci_driver =
  id_table :: "(u16 \<times> u16) list"
  drv_flags :: u32
  drv_probe :: "'pci \<Rightarrow> world \<Rightarrow> fault + int \<times> world"
  drv_remove :: "'pci \<Rightarrow> world \<Rightarrow> fault + int \<times> world"

definition rte_xdma_pmd :: "u32 \<Rightarrow> ('pci \<Rightarrow> nat \<Rightarrow> dev_fun \<Rightarrow> world \<Rightarrow> fault + int \<times> world)
    \<Rightarrow> ('pci \<Rightarrow> dev_fun \<Rightarrow> world \<Rightarrow> fault + int \<times> world) \<Rightarrow> env \<Rightarrow> kvargs \<Rightarrow> bool \<Rightarrow> (u64 \<Rightarrow> string option)
    \<Rightarrow> 'pci rte_pci_driver" where
  "rte_xdma_pmd need_mapping gprobe gremove ev kv primary devargs =
     \<lparr>id_table = xdma_pci_id_tbl, drv_flags = need_mapping,
      drv_probe = eth_xdma_pci_probe gprobe ev kv primary devargs,
      drv_remove = eth_xdma_pci_remove gremove primary\<rparr>"

section \<open>Decimal arguments\<close>

lemma dec_is_digit: "c \<in> set (dec n) \<Longrightarrow> is_digit c"
proof (induction n rule: dec.induct)
  case (1 n)
  have d: "is_digit (char_of (48 + d))" if "d < 10" for d :: nat
    using that by (simp add: is_digit_def take_bit_nat_eq_self)
  show ?case
  proof (cases "n < 10")
    case True
    with 1 d [of n] show ?thesis by (simp add: dec.simps [of n])
  next
    case False
    with 1 d [of "n mod 10"] show ?thesis by (auto simp: dec.simps [of n])
  qed
qed

lemma dec_not_Nil: "dec n \<noteq> []"
  by (simp add: dec.simps [of n])

lemma digit_class: "is_digit c \<Longrightarrow> \<not> is_space c \<and> c \<noteq> CHR ''-'' \<and> c \<noteq> CHR ''+''"
  by (auto simp: is_digit_def is_space_def)

lemma strtoul_dec: "n < 2 ^ 64 \<Longrightarrow> strtoul (dec n) = of_nat n"
proof -
  assume n: "n < 2 ^ 64"
  obtain c cs where c: "dec n = c # cs" using dec_not_Nil by (meson list.exhaust)
  have dig: "\<forall>x \<in> set (c # cs). is_digit x" using dec_is_digit [of _ n] unfolding c by blast
  from digit_class [of c] dig have "\<not> is_space c" "c \<noteq> CHR ''-''" "c \<noteq> CHR ''+''" by simp_all
  moreover have "takeWhile is_digit (c # cs) = c # cs" using dig by (simp only: takeWhile_eq_all_conv)
  ultimately have "strtoul (c # cs)
      = (if undec 0 (c # cs) \<ge> 2 ^ 64 then 0xFFFFFFFFFFFFFFFF else of_nat (undec 0 (c # cs)))"
    by (simp add: strtoul_def Let_def del: takeWhile.simps takeWhile_eq_all_conv undec.simps)
  moreover have "undec 0 (c # cs) = n" using undec_dec [of n] unfolding c .
  ultimately show ?thesis using n unfolding c by simp
qed

lemma to_int_of_nat: "n < 2 ^ 31 \<Longrightarrow> to_int (of_nat (n + k * 2 ^ 32)) = int n"
proof -
  assume n: "n < 2 ^ 31"
  have "(ucast (of_nat (n + k * 2 ^ 32) :: u64) :: u32) = of_nat n"
  proof -
    have "(ucast (of_nat m :: u64) :: u32) = of_nat m" for m
      by (simp add: word_unat_eq_iff unsigned_ucast_eq unsigned_of_nat)
    then have "(ucast (of_nat (n + k * 2 ^ 32) :: u64) :: u32) = of_nat (n + k * 2 ^ 32)" .
    also have "\<dots> = of_nat n + of_nat k * (4294967296 :: u32)" by simp
    also have "(4294967296 :: u32) = 0" by simp
    finally have "(ucast (of_nat (n + k * 2 ^ 32) :: u64) :: u32) = of_nat n + of_nat k * 0" .
    also have "\<dots> = of_nat n" by simp
    finally show ?thesis .
  qed
  moreover have "sint (of_nat n :: u32) = int n"
    using n by (simp add: signed_of_nat signed_take_bit_int_eq_self)
  ultimately show ?thesis by (simp add: to_int_def)
qed

section \<open>BAR assignment\<close>

lemma bypass_search_find:
  "i + n \<le> length res \<Longrightarrow> bypass_search res user config i n =
     Inr (find (\<lambda>k. res_len (res ! k) \<noteq> 0 \<and> user \<noteq> int k \<and> config \<noteq> int k) [i..<i + n])"
proof (induction n arbitrary: i)
  case 0
  then show ?case by simp
next
  case (Suc n)
  have "[i..<i + Suc n] = i # [Suc i..<Suc i + n]" by (simp add: upt_conv_Cons del: upt_Suc)
  with Suc show ?case by (simp del: upt_Suc)
qed

lemma user_bar_0: "d \<noteq> 0 \<Longrightarrow> xdma_get_user_bar d = (0, Some 0)"
  by (simp add: xdma_get_user_bar_def XDMA_BAR_NUM_def eval_nat_numeral)

text \<open>The user BAR the driver settles on.\<close>

definition chosen_user :: "mem_resource list \<Rightarrow> int" where
  "chosen_user res = (if res_len (res ! 0) \<noteq> 0 then 0 else if res_len (res ! 1) \<noteq> 0 then 1 else 2)"

definition chosen_bypass :: "mem_resource list \<Rightarrow> int \<Rightarrow> nat option" where
  "chosen_bypass res config =
     find (\<lambda>k. res_len (res ! k) \<noteq> 0 \<and> chosen_user res \<noteq> int k \<and> config \<noteq> int k) [0..<6]"

definition with_bars :: "mem_resource list \<Rightarrow> xdma_dev \<Rightarrow> xdma_dev" where
  "with_bars res d = (let d = d\<lparr>user_bar_idx := chosen_user res\<rparr> in
     case chosen_bypass res (config_bar_idx d) of None \<Rightarrow> d | Some i \<Rightarrow> d\<lparr>bypass_bar_idx := int i\<rparr>)"

lemma assign_bars_eq: "length res = 6 \<Longrightarrow> assign_bars res (0, Some 0) d = Inr (with_bars res d)"
  by (simp add: assign_bars_def with_bars_def chosen_user_def chosen_bypass_def bypass_search_find
      XDMA_BAR_NUM_def Let_def)

lemma identify_bars_eq:
  assumes "eth_data dev w = Inr dat" and "pci_resources dev w = Inr res" and "length res = 6"
    and "deref (xdevs w) (dev_private dat) = Inr d"
    and "0 \<le> config_bar_idx d" and "config_bar_idx d < 6"
    and "deref (hw_tables w) (hw_access d) = Inr xdma_hw_access_init"
  shows "xdma_identify_bars dev w =
    (if res_len (res ! nat (config_bar_idx d)) = 0 then Inr (- 1, w)
     else Inr (0, set_xdev (dev_private dat) (with_bars res d) w))"
proof -
  have "dev \<noteq> 0" using assms(1) by (auto simp: eth_data_def andThen_eq_Inr deref_eq_Inr)
  then have "call_get_user_bar dev d w = Inr (0, Some 0)"
    using assms(7) by (simp add: call_get_user_bar_def xdma_hw_access_init_def user_bar_0)
  then show ?thesis
    using assms by (simp add: xdma_identify_bars_def assign_bars_eq set_xdev_def)
qed

lemma find_first:
  "find P [0..<n] = Some k \<longleftrightarrow> k < n \<and> P k \<and> (\<forall>j < k. \<not> P j)"
  by (auto simp: find_Some_iff)

lemma with_bars_sel [simp]:
  "config_bar_idx (with_bars res d) = config_bar_idx d" "bar (with_bars res d) = bar d"
  "user_bar_idx (with_bars res d) = chosen_user res" "hw_access (with_bars res d) = hw_access d"
  "bypass_bar_idx (with_bars res d) =
     (case chosen_bypass res (config_bar_idx d) of None \<Rightarrow> bypass_bar_idx d | Some i \<Rightarrow> int i)"
  by (simp_all add: with_bars_def Let_def split: option.splits)

section \<open>Properties\<close>

text \<open>
  A decimal \<open>config_bar\<close> argument is read back as the number it prints: an index below 6
  is accepted and stored, every other number that fits an \<open>int\<close> is rejected.
\<close>

theorem config_bar_decimal:
  assumes "n < 2 ^ 31"
  shows "config_bar_idx_handler (dec n) d = (if n < 6 then 0 else - 1, d\<lparr>config_bar_idx := int n\<rparr>)"
proof -
  have "strtoul (dec n) = of_nat (n + 0 * 2 ^ 32)" using assms strtoul_dec [of n] by simp
  then have "to_int (strtoul (dec n)) = int n" using to_int_of_nat [OF assms, of 0] by simp
  then show ?thesis by (simp add: config_bar_idx_handler_def XDMA_BAR_NUM_def Let_def)
qed

text \<open>
  The validation of \<open>config_bar\<close> lets wrong arguments through: text that starts with
  neither white space, sign nor digit is accepted as BAR 0, and a number that differs from a
  valid index by a multiple of \<open>2^32\<close> is accepted as that index.
\<close>

theorem config_bar_accepts_garbage:
  assumes "\<not> is_digit c" and "\<not> is_space c" and "c \<notin> set ''-+''"
    and "n < 6" and "k < 2 ^ 31"
  shows "config_bar_idx_handler (c # cs) d = (0, d\<lparr>config_bar_idx := 0\<rparr>) \<and>
    config_bar_idx_handler (dec (n + k * 2 ^ 32)) d = (0, d\<lparr>config_bar_idx := int n\<rparr>)"
proof
  have "strtoul (c # cs) = 0" using assms(1-3) by (simp add: strtoul_def Let_def)
  then show "config_bar_idx_handler (c # cs) d = (0, d\<lparr>config_bar_idx := 0\<rparr>)"
    by (simp add: config_bar_idx_handler_def to_int_def XDMA_BAR_NUM_def)
  have "n + k * 2 ^ 32 < 2 ^ 64"
  proof -
    have "k * 2 ^ 32 \<le> (2 ^ 31 - 1) * (2 ^ 32 :: nat)" using assms(5) by (intro mult_le_mono1) simp
    then show ?thesis using assms(4) by simp
  qed
  then have "to_int (strtoul (dec (n + k * 2 ^ 32))) = int n"
    using strtoul_dec to_int_of_nat [of n k] assms(4) by simp
  then show "config_bar_idx_handler (dec (n + k * 2 ^ 32)) d = (0, d\<lparr>config_bar_idx := int n\<rparr>)"
    using assms(4) by (simp add: config_bar_idx_handler_def XDMA_BAR_NUM_def Let_def)
qed


end
