(* ===== verification/Lifecycle.thy ===== *)
theory Lifecycle
  imports Probe
begin

text \<open>
  What probing and removing a device guarantee: a successful init leaves a device on which
  queues can be set up, a failed one gives back what it allocated, and uninit undoes init.
\<close>

section \<open>Frames\<close>

lemma rte_alloc_sel [simp]:
  "fst (rte_alloc ev n w) = alloc ev (allocs w)"
  "snd (rte_alloc ev n w) = w\<lparr>allocs := Suc (allocs w), blocks := (if alloc ev (allocs w) = 0 then blocks w
     else (blocks w)(alloc ev (allocs w) \<mapsto> n))\<rparr>"
  by (simp_all add: rte_alloc_def Let_def)

lemma set_eth_data_eq:
  "set_eth_data dev x w = Inr w' \<longleftrightarrow> (\<exists>d. dev \<noteq> 0 \<and> eth_devs w dev = Some d \<and>
     w' = w\<lparr>eth_devs := (eth_devs w)(dev \<mapsto> d\<lparr>data := Some x\<rparr>)\<rparr>)"
  by (auto simp: set_eth_data_def andThen_eq_Inr deref_eq_Inr)

lemma identify_frame:
  assumes "xdma_identify_bars dev w = Inr (r, w')"
  shows "\<exists>x. w' = w\<lparr>xdevs := x\<rparr>" and "r = 0 \<or> r = - 1"
  using assms
  by (auto simp: xdma_identify_bars_def andThen_eq_Inr split: if_splits) (metis world.surjective world.update_convs(2))

lemma rte_free_blocks:
  "rte_free p w = Inr w' \<Longrightarrow> p \<noteq> 0 \<Longrightarrow> blocks w' = (blocks w)(p := None) \<and> allocs w' = allocs w"
  by (auto simp: rte_free_def drop_block_def split: option.splits)

lemma ops_init_frame:
  "xdma_dev_ops_init dev w = Inr w' \<Longrightarrow> \<exists>x. w' = w\<lparr>eth_devs := x\<rparr>"
  by (auto simp: xdma_dev_ops_init_def xdma_set_rx_function_def xdma_set_tx_function_def andThen_eq_Inr)

lemma set_xdev_sel [simp]:
  "blocks (set_xdev p d w) = blocks w" "allocs (set_xdev p d w) = allocs w"
  "eth_devs (set_xdev p d w) = eth_devs w" "hw_tables (set_xdev p d w) = hw_tables w"
  "macs (set_xdev p d w) = macs w" "xdevs (set_xdev p d w) = (xdevs w)(p \<mapsto> d)"
  by (simp_all add: set_xdev_def)

section \<open>Failing init\<close>

lemma init_bars_error:
  assumes init: "init_bars ev dev mac res p d w = Inr (r, w')" and neg: "r < 0" and mac: "mac \<noteq> 0"
    and fresh: "alloc ev (allocs w) \<noteq> 0 \<Longrightarrow> blocks w (alloc ev (allocs w)) = None"
  shows "blocks w' = (blocks w)(mac := None)"
proof -
  let ?h = "alloc ev (allocs w)"
  from init obtain d1 where
    rest: "(let (h, w) = rte_alloc ev sizeof_xdma_hw_access w; w = set_xdev p (d1\<lparr>hw_access := h\<rparr>) w
     in if h = 0 then andThen (rte_free mac w) (\<lambda>w. Inr (- ENOMEM, w)) else
     let (idx, w) = hw_access_fill h w in
     if idx < 0 then andThen (rte_free h w) (\<lambda>w. andThen (rte_free mac w) (\<lambda>w. Inr (- EINVAL, w))) else
     andThen (xdma_identify_bars dev w) (\<lambda>(idx, w).
     if idx < 0 then andThen (rte_free h w) (\<lambda>w. andThen (rte_free mac w) (\<lambda>w. Inr (- EINVAL, w))) else
     andThen (deref (xdevs w) p) (\<lambda>d.
     andThen (map_other_bars res d) (\<lambda>d.
     andThen (xdma_dev_ops_init dev (set_xdev p d w)) (\<lambda>w.
     Inr (0, set_xdev p (d\<lparr>trigger_mode := trig_value RTE_PMD_QDMA_TRIG_MODE_USER_TIMER\<rparr>) w)))))) = Inr (r, w')"
    unfolding init_bars_def andThen_eq_Inr [where y = "(r, w')"] by blast
  show ?thesis
  proof (cases "?h = 0")
    case True
    with rest obtain u where "rte_free mac u = Inr w'" "blocks u = blocks w"
      by (auto simp: Let_def rte_alloc_def andThen_eq_Inr)
    then show ?thesis using rte_free_blocks mac by metis
  next
    case False
    let ?u = "(set_xdev p (d1\<lparr>hw_access := ?h\<rparr>) (snd (rte_alloc ev sizeof_xdma_hw_access w)))
        \<lparr>hw_tables := (hw_tables w)(?h \<mapsto> xdma_hw_access_init)\<rparr>"
    from False rest neg obtain u1 u2 where u: "xdma_identify_bars dev ?u = Inr (- 1, u1)"
      "rte_free ?h u1 = Inr u2" "rte_free mac u2 = Inr w'"
      using identify_frame(2) [of dev ?u]
      by (fastforce simp: Let_def rte_alloc_def hw_access_fill_def andThen_eq_Inr set_xdev_def split: if_splits)
    from identify_frame(1) [OF u(1)] False have "blocks u1 = (blocks w)(?h \<mapsto> sizeof_xdma_hw_access)"
      by auto
    moreover have "blocks w' = (blocks u1)(?h := None, mac := None)"
      using rte_free_blocks [OF u(2) False] rte_free_blocks [OF u(3) mac] by simp
    ultimately show ?thesis using fresh [OF False] by (auto simp: fun_eq_iff)
  qed
qed

section \<open>Successful init\<close>

lemma ops_init_eq:
  assumes "dev \<noteq> 0" and "eth_devs w dev = Some ed"
  shows "xdma_dev_ops_init dev w = Inr (w\<lparr>eth_devs := (eth_devs w)(dev \<mapsto> ed\<lparr>dev_ops := Some xdma_eth_dev_ops,
    rx_pkt_burst := Some Fn_xdma_recv_pkts, tx_pkt_burst := Some Fn_xdma_xmit_pkts\<rparr>)\<rparr>)"
  using assms by (simp add: xdma_dev_ops_init_def xdma_set_rx_function_def xdma_set_tx_function_def)

lemma map_bar_eq:
  "length res = 6 \<Longrightarrow> length (bar d) = 6 \<Longrightarrow> 0 \<le> i \<Longrightarrow> i < 6 \<Longrightarrow>
   map_bar res i d = Inr (d\<lparr>bar := (bar d)[nat i := res_addr (res ! nat i)]\<rparr>)"
  by (simp add: map_bar_def)

lemma chosen_user_range: "0 \<le> chosen_user res \<and> chosen_user res < 6"
  by (simp add: chosen_user_def)

lemma chosen_bypass_range: "chosen_bypass res c = Some i \<Longrightarrow> i < 6"
  by (simp add: chosen_bypass_def find_first del: upt_rec_numeral)

text \<open>What the caller and the environment provide for a successful init.\<close>

definition init_pre :: "env \<Rightarrow> kvargs \<Rightarrow> string option \<Rightarrow> u64 \<Rightarrow> rte_eth_dev \<Rightarrow> rte_eth_dev_data
    \<Rightarrow> mem_resource list \<Rightarrow> xdma_dev \<Rightarrow> xdma_dev \<Rightarrow> world \<Rightarrow> bool" where
  "init_pre ev kv devargs dev ed dat res d0 d1 w \<longleftrightarrow>
     dev \<noteq> 0 \<and> eth_devs w dev = Some ed \<and> data ed = Some dat \<and> device ed = Some res \<and> length res = 6 \<and>
     dev_private dat \<noteq> 0 \<and> xdevs w (dev_private dat) = Some d0 \<and> length (bar d0) = 6 \<and>
     xdma_check_kvargs kv devargs (default_bars d0) = (0, d1) \<and> bar d1 = bar d0 \<and>
     bypass_bar_idx d1 = BAR_ID_INVALID \<and> 0 \<le> config_bar_idx d1 \<and> config_bar_idx d1 < 6 \<and>
     res_len (res ! nat (config_bar_idx d1)) \<noteq> 0 \<and>
     alloc ev (allocs w) \<noteq> 0 \<and> alloc ev (Suc (allocs w)) \<noteq> 0 \<and>
     alloc ev (allocs w) \<noteq> alloc ev (Suc (allocs w)) \<and>
     blocks w (alloc ev (allocs w)) = None \<and> blocks w (alloc ev (Suc (allocs w))) = None"

text \<open>The private data and the state a successful init leaves.\<close>

definition put_bar :: "mem_resource list \<Rightarrow> int \<Rightarrow> u64 list \<Rightarrow> u64 list" where
  "put_bar res i bs = (if 0 \<le> i then bs[nat i := res_addr (res ! nat i)] else bs)"

definition mapped_bars :: "mem_resource list \<Rightarrow> xdma_dev \<Rightarrow> xdma_dev" where
  "mapped_bars res d = d\<lparr>bar := put_bar res (bypass_bar_idx d) (put_bar res (user_bar_idx d) (bar d))\<rparr>"

lemma length_put_bar [simp]: "length (put_bar res i bs) = length bs"
  by (simp add: put_bar_def)

lemma nth_put_bar:
  "0 \<le> i \<Longrightarrow> nat i < length bs \<Longrightarrow>
   put_bar res j bs ! nat i = (if j = i then res_addr (res ! nat i) else bs ! nat i)"
  by (auto simp: put_bar_def nth_list_update nat_eq_iff)

definition init_dev :: "env \<Rightarrow> mem_resource list \<Rightarrow> xdma_dev \<Rightarrow> world \<Rightarrow> xdma_dev" where
  "init_dev ev res d1 w =
     (let d = d1\<lparr>bar := (bar d1)[nat (config_bar_idx d1) := res_addr (res ! nat (config_bar_idx d1))],
                 hw_access := alloc ev (Suc (allocs w))\<rparr>
      in (mapped_bars res (with_bars res d))\<lparr>trigger_mode := trig_value RTE_PMD_QDMA_TRIG_MODE_USER_TIMER\<rparr>)"

definition init_state :: "env \<Rightarrow> u64 \<Rightarrow> rte_eth_dev \<Rightarrow> rte_eth_dev_data \<Rightarrow> mem_resource list \<Rightarrow> xdma_dev
    \<Rightarrow> world \<Rightarrow> world" where
  "init_state ev dev ed dat res d1 w =
     (let m = alloc ev (allocs w); h = alloc ev (Suc (allocs w)) in
      w\<lparr>allocs := Suc (Suc (allocs w)),
        blocks := (blocks w)(m \<mapsto> RTE_ETHER_ADDR_LEN, h \<mapsto> sizeof_xdma_hw_access),
        macs := (macs w)(m \<mapsto> dummy_mac), hw_tables := (hw_tables w)(h \<mapsto> xdma_hw_access_init),
        xdevs := (xdevs w)(dev_private dat \<mapsto> init_dev ev res d1 w),
        eth_devs := (eth_devs w)(dev \<mapsto> ed\<lparr>data := Some (dat\<lparr>mac_addrs := m\<rparr>), dev_ops := Some xdma_eth_dev_ops,
          rx_pkt_burst := Some Fn_xdma_recv_pkts, tx_pkt_burst := Some Fn_xdma_xmit_pkts\<rparr>)\<rparr>)"

lemma mapped_bars_eq:
  assumes "length res = 6" and "length (bar d) = 6" and "user_bar_idx d < 6" and "bypass_bar_idx d < 6"
  shows "map_other_bars res d = Inr (mapped_bars res d)"
  using assms by (simp add: map_bar_eq mapped_bars_def map_other_bars_def put_bar_def)

lemma init_bars_eq:
  assumes res: "length res = 6" "length (bar d) = 6" and cfg: "0 \<le> config_bar_idx d" "config_bar_idx d < 6"
    and len: "res_len (res ! nat (config_bar_idx d)) \<noteq> 0" and byp: "bypass_bar_idx d = BAR_ID_INVALID"
    and dev: "dev \<noteq> 0" "eth_devs w dev = Some ed" "data ed = Some dat" "device ed = Some res"
    and p: "dev_private dat \<noteq> 0" and h: "alloc ev (allocs w) \<noteq> 0"
  shows "init_bars ev dev mac res (dev_private dat) d w = Inr (0, w\<lparr>allocs := Suc (allocs w),
    blocks := (blocks w)(alloc ev (allocs w) \<mapsto> sizeof_xdma_hw_access),
    hw_tables := (hw_tables w)(alloc ev (allocs w) \<mapsto> xdma_hw_access_init),
    xdevs := (xdevs w)(dev_private dat \<mapsto>
      (mapped_bars res (with_bars res (d\<lparr>bar := (bar d)[nat (config_bar_idx d) := res_addr (res ! nat (config_bar_idx d))],
        hw_access := alloc ev (allocs w)\<rparr>)))\<lparr>trigger_mode := trig_value RTE_PMD_QDMA_TRIG_MODE_USER_TIMER\<rparr>),
    eth_devs := (eth_devs w)(dev \<mapsto> ed\<lparr>dev_ops := Some xdma_eth_dev_ops,
      rx_pkt_burst := Some Fn_xdma_recv_pkts, tx_pkt_burst := Some Fn_xdma_xmit_pkts\<rparr>)\<rparr>)"
proof -
  let ?p = "dev_private dat" and ?h = "alloc ev (allocs w)"
  let ?d = "d\<lparr>bar := (bar d)[nat (config_bar_idx d) := res_addr (res ! nat (config_bar_idx d))]\<rparr>"
  let ?d2 = "?d\<lparr>hw_access := ?h\<rparr>"
  let ?w = "(set_xdev ?p ?d2 (w\<lparr>allocs := Suc (allocs w), blocks := (blocks w)(?h \<mapsto> sizeof_xdma_hw_access)\<rparr>))
      \<lparr>hw_tables := (hw_tables w)(?h \<mapsto> xdma_hw_access_init)\<rparr>"
  have "eth_data dev ?w = Inr dat" "pci_resources dev ?w = Inr res" "deref (xdevs ?w) ?p = Inr ?d2"
    "deref (hw_tables ?w) (hw_access ?d2) = Inr xdma_hw_access_init"
    using dev p h by (simp_all add: eth_data_def pci_resources_def)
  then have ident: "xdma_identify_bars dev ?w = Inr (0, set_xdev ?p (with_bars res ?d2) ?w)"
    using identify_bars_eq [of dev ?w dat res ?d2] res(1) cfg len by simp
  have byp: "bypass_bar_idx (with_bars res ?d2) < 6"
    using byp chosen_bypass_range [of res "config_bar_idx d"]
    by (auto simp: BAR_ID_INVALID_def split: option.splits)
  have map': "map_other_bars res (with_bars res ?d2) = Inr (mapped_bars res (with_bars res ?d2))"
    using mapped_bars_eq [of res "with_bars res ?d2"] res byp chosen_user_range [of res] by simp
  have ops: "xdma_dev_ops_init dev (set_xdev ?p x (set_xdev ?p y ?w)) = Inr ((set_xdev ?p x ?w)\<lparr>eth_devs :=
      (eth_devs w)(dev \<mapsto> ed\<lparr>dev_ops := Some xdma_eth_dev_ops, rx_pkt_burst := Some Fn_xdma_recv_pkts,
        tx_pkt_burst := Some Fn_xdma_xmit_pkts\<rparr>)\<rparr>)" for x y
    using ops_init_eq [of dev "set_xdev ?p x (set_xdev ?p y ?w)" ed] dev by (simp add: set_xdev_def)
  show ?thesis
    unfolding init_bars_def map_bar_eq [OF res cfg] Let_def rte_alloc_def
    using h p by (simp add: hw_access_fill_def ident map' ops) (simp add: set_xdev_def)
qed

lemma init_eq:
  assumes "init_pre ev kv devargs dev ed dat res d0 d1 w"
  shows "xdma_eth_dev_init ev kv True devargs dev w = Inr (0, init_state ev dev ed dat res d1 w)"
proof -
  note pre = assms [unfolded init_pre_def]
  let ?m = "alloc ev (allocs w)"
  let ?ed = "ed\<lparr>data := Some (dat\<lparr>mac_addrs := ?m\<rparr>)\<rparr>"
  let ?w = "set_xdev (dev_private dat) d1 (w\<lparr>allocs := Suc (allocs w), blocks := (blocks w)(?m \<mapsto> RTE_ETHER_ADDR_LEN),
      eth_devs := (eth_devs w)(dev \<mapsto> ?ed), macs := (macs w)(?m \<mapsto> dummy_mac)\<rparr>)"
  have "init_bars ev dev ?m res (dev_private (dat\<lparr>mac_addrs := ?m\<rparr>)) d1 ?w
      = Inr (0, init_state ev dev ed dat res d1 w)"
    using pre
    by (subst init_bars_eq [where ed = ?ed and dat = "dat\<lparr>mac_addrs := ?m\<rparr>"])
       (simp_all add: init_state_def init_dev_def set_xdev_def Let_def)
  then show ?thesis
    using pre by (simp add: xdma_eth_dev_init_def init_primary_def rte_alloc_def set_eth_data_def Let_def)
qed

lemma init_dev_sel:
  "config_bar_idx (init_dev ev res d1 w) = config_bar_idx d1"
  "hw_access (init_dev ev res d1 w) = alloc ev (Suc (allocs w))"
  "user_bar_idx (init_dev ev res d1 w) = chosen_user res"
  "dev_configured (init_dev ev res d1 w) = dev_configured d1"
  by (simp_all add: init_dev_def mapped_bars_def with_bars_def Let_def split: option.splits)

lemma init_dev_bar:
  assumes "length (bar d1) = 6" and "0 \<le> config_bar_idx d1" and "config_bar_idx d1 < 6"
    and "bypass_bar_idx d1 = BAR_ID_INVALID" and "d = init_dev ev res d1 w"
    and "i \<in> {config_bar_idx d, user_bar_idx d, bypass_bar_idx d}" and "0 \<le> i"
  shows "bar d ! nat i = res_addr (res ! nat i)" and "length (bar d) = 6"
proof -
  define b where "b = (case chosen_bypass res (config_bar_idx d1) of None \<Rightarrow> - 1 | Some i \<Rightarrow> int i)"
  have b: "b < 6" using chosen_bypass_range by (auto simp: b_def split: option.splits)
  have bar: "bar d = put_bar res b (put_bar res (chosen_user res) (put_bar res (config_bar_idx d1) (bar d1)))"
    and idx: "config_bar_idx d = config_bar_idx d1" "user_bar_idx d = chosen_user res" "bypass_bar_idx d = b"
    using assms(2,4,5)
    by (simp_all add: init_dev_def mapped_bars_def with_bars_def b_def BAR_ID_INVALID_def Let_def put_bar_def
        split: option.splits)
  show "length (bar d) = 6" by (simp add: bar assms(1))
  have "i < 6" using assms(3,6) b chosen_user_range [of res] by (auto simp: idx)
  then show "bar d ! nat i = res_addr (res ! nat i)"
    using assms(1,6,7) unfolding bar idx by (auto simp: nth_put_bar)
qed

section \<open>Properties\<close>

text \<open>
  C19. Whatever goes wrong during probing (missing structures, no memory, rejected device
  arguments, no configuration BAR), a failing init leaves the set of allocated blocks as it
  found it.
\<close>

theorem init_failure_no_leak:
  assumes "xdma_eth_dev_init ev kv primary devargs dev w = Inr (r, w')" and "r < 0"
    and "\<And>k. alloc ev k \<noteq> 0 \<Longrightarrow> blocks w (alloc ev k) = None"
    and "alloc ev (allocs w) \<noteq> alloc ev (Suc (allocs w))"
  shows "blocks w' = blocks w"
proof -
  from assms(1) consider "w' = w" | "r = 0" |
    dat res where "init_primary ev kv devargs dev dat res w = Inr (r, w')"
    by (auto simp: xdma_eth_dev_init_def andThen_eq_Inr split: if_splits option.splits)
  then show ?thesis
  proof cases
    case 1
    then show ?thesis by simp
  next
    case 2
    then show ?thesis using assms(2) by simp
  next
    case 3
    let ?m = "alloc ev (allocs w)"
    show ?thesis
    proof (cases "?m = 0")
      case True
      with 3 show ?thesis by (auto simp: init_primary_def rte_alloc_def set_eth_data_eq Let_def andThen_eq_Inr)
    next
      case False
      let ?w1 = "w\<lparr>allocs := Suc (allocs w), blocks := (blocks w)(?m \<mapsto> RTE_ETHER_ADDR_LEN)\<rparr>"
      from 3 False obtain e0 d0 mm where
        "(let (k, d) = xdma_check_kvargs kv devargs (default_bars d0);
            v = set_xdev (dev_private dat) d (?w1\<lparr>eth_devs := (eth_devs w)(dev \<mapsto> e0), macs := mm\<rparr>)
          in if k \<noteq> 0 then andThen (rte_free ?m v) (\<lambda>w. Inr (- EINVAL, w))
             else init_bars ev dev ?m res (dev_private dat) d v) = Inr (r, w')"
        by (auto simp: init_primary_def rte_alloc_def set_eth_data_eq andThen_eq_Inr [where m = "deref m p" for m p]
            andThen_eq_Inr [where m = "set_eth_data a b c" for a b c] Let_def)
      then obtain u d where u: "blocks u = (blocks w)(?m \<mapsto> RTE_ETHER_ADDR_LEN)" "allocs u = Suc (allocs w)"
        and or: "(\<exists>v. rte_free ?m u = Inr v \<and> w' = v) \<or> init_bars ev dev ?m res (dev_private dat) d u = Inr (r, w')"
      proof (cases "xdma_check_kvargs kv devargs (default_bars d0)")
        case (Pair k d)
        define v where "v = set_xdev (dev_private dat) d (?w1\<lparr>eth_devs := (eth_devs w)(dev \<mapsto> e0), macs := mm\<rparr>)"
        have v: "blocks v = (blocks w)(?m \<mapsto> RTE_ETHER_ADDR_LEN)" "allocs v = Suc (allocs w)"
          by (simp_all add: v_def)
        assume "(let (k, d) = xdma_check_kvargs kv devargs (default_bars d0);
            v = set_xdev (dev_private dat) d (?w1\<lparr>eth_devs := (eth_devs w)(dev \<mapsto> e0), macs := mm\<rparr>)
          in if k \<noteq> 0 then andThen (rte_free ?m v) (\<lambda>w. Inr (- EINVAL, w))
             else init_bars ev dev ?m res (dev_private dat) d v) = Inr (r, w')"
        then have "(if k \<noteq> 0 then andThen (rte_free ?m v) (\<lambda>w. Inr (- EINVAL, w))
             else init_bars ev dev ?m res (dev_private dat) d v) = Inr (r, w')"
          unfolding v_def by (simp add: Pair Let_def split del: if_split)
        then have "(\<exists>u. rte_free ?m v = Inr u \<and> w' = u) \<or>
            init_bars ev dev ?m res (dev_private dat) d v = Inr (r, w')"
          by (auto simp: andThen_eq_Inr [where m = "rte_free a b" for a b] split: if_splits)
        with v show ?thesis by (rule that)
      qed
      have "blocks w' = (blocks u)(?m := None)"
      proof (cases "\<exists>v. rte_free ?m u = Inr v \<and> w' = v")
        case True
        then show ?thesis using rte_free_blocks False by metis
      next
        case no: False
        have "blocks u (alloc ev (allocs u)) = None" if "alloc ev (allocs u) \<noteq> 0"
          using that assms(3,4) by (simp add: u)
        then show ?thesis using or no init_bars_error [OF _ assms(2) False] by blast
      qed
      then show ?thesis using assms(3) [OF False] by (auto simp: u(1) fun_eq_iff)
    qed
  qed
qed

text \<open>
  C20. A successful init leaves a usable device: the MAC address, the function table, the operations and both
  burst functions are in place, every BAR the driver identified is mapped at the address PCI
  gave it, register accesses go to the configuration BAR, and exactly two blocks are live.
\<close>

theorem init_ready:
  assumes "init_pre ev kv devargs dev ed dat res d0 d1 w"
  shows "\<exists>w' d' ed' m h. xdma_eth_dev_init ev kv True devargs dev w = Inr (0, w') \<and>
    xdevs w' (dev_private dat) = Some d' \<and> config_bar_idx d' = config_bar_idx d1 \<and>
    hw_access_of (dev_private dat) w' = Inr xdma_hw_access_init \<and>
    (\<forall>i \<in> {config_bar_idx d', user_bar_idx d', bypass_bar_idx d'}. 0 \<le> i \<longrightarrow> bar d' ! nat i = res_addr (res ! nat i)) \<and>
    (res_addr (res ! nat (config_bar_idx d1)) \<noteq> 0 \<longrightarrow>
      bar_mapped config_bar_idx (dev_private dat) (res_addr (res ! nat (config_bar_idx d1))) w') \<and>
    eth_devs w' dev = Some ed' \<and> dev_ops ed' = Some xdma_eth_dev_ops \<and> rx_pkt_burst ed' = Some Fn_xdma_recv_pkts \<and>
    tx_pkt_burst ed' = Some Fn_xdma_xmit_pkts \<and> data ed' = Some (dat\<lparr>mac_addrs := m\<rparr>) \<and>
    macs w' m = Some dummy_mac \<and> length dummy_mac = 6 \<and>
    blocks w' = (blocks w)(m \<mapsto> 6, h \<mapsto> 80)"
proof -
  note pre = assms [unfolded init_pre_def]
  let ?w = "init_state ev dev ed dat res d1 w"
  define d where "d = init_dev ev res d1 w"
  have bars: "\<forall>i \<in> {config_bar_idx d, user_bar_idx d, bypass_bar_idx d}. 0 \<le> i \<longrightarrow> bar d ! nat i = res_addr (res ! nat i)"
    using init_dev_bar(1) [OF _ _ _ _ d_def] pre by simp
  have len: "length (bar d) = 6"
    using init_dev_bar(2) [OF _ _ _ _ d_def, of "config_bar_idx d"] pre by (simp add: d_def init_dev_sel)
  have cfg: "config_bar_idx d = config_bar_idx d1" "hw_access d = alloc ev (Suc (allocs w))"
    by (simp_all add: d_def init_dev_sel)
  have xd: "xdevs ?w (dev_private dat) = Some d" by (simp add: init_state_def d_def Let_def)
  have tbl: "hw_tables ?w (alloc ev (Suc (allocs w))) = Some xdma_hw_access_init"
    by (simp add: init_state_def Let_def)
  have hw: "hw_access_of (dev_private dat) ?w = Inr xdma_hw_access_init"
    using pre xd tbl by (simp add: hw_access_of_def cfg)
  have map_cfg: "bar_mapped config_bar_idx (dev_private dat) (res_addr (res ! nat (config_bar_idx d1))) ?w"
    if "res_addr (res ! nat (config_bar_idx d1)) \<noteq> 0"
    using pre xd len bars that by (simp add: bar_mapped_def bar_base_def cfg)
  show ?thesis
    using init_eq [OF assms] xd hw bars map_cfg cfg(1)
    by (intro exI [of _ ?w] exI [of _ d] exI [of _ "the (eth_devs ?w dev)"]
          exI [of _ "alloc ev (allocs w)"] exI [of _ "alloc ev (Suc (allocs w))"])
       (simp add: init_state_def Let_def RTE_ETHER_ADDR_LEN_def sizeof_xdma_hw_access_def dummy_mac_def)
qed

text \<open>
  C21. Uninit undoes init: removing a device that was probed but never configured succeeds,
  releases exactly the blocks init had allocated, and takes the operations, the burst
  functions, the MAC address and the function table away.  A secondary process gets
  \<open>-EPERM\<close> and changes nothing.
\<close>

theorem init_uninit:
  assumes "init_pre ev kv devargs dev ed dat res d0 d1 w" and "\<not> dev_configured d1"
  shows "\<exists>w' w'' ed' dat' d'. xdma_eth_dev_init ev kv True devargs dev w = Inr (0, w') \<and>
    xdma_eth_dev_uninit False dev w' = Inr (- EPERM, w') \<and>
    xdma_eth_dev_uninit True dev w' = Inr (0, w'') \<and> blocks w'' = blocks w \<and>
    eth_devs w'' dev = Some ed' \<and> dev_ops ed' = None \<and> rx_pkt_burst ed' = None \<and> tx_pkt_burst ed' = None \<and>
    data ed' = Some dat' \<and> mac_addrs dat' = 0 \<and> nb_rx_queues dat' = 0 \<and> nb_tx_queues dat' = 0 \<and>
    xdevs w'' (dev_private dat) = Some d' \<and> hw_access d' = 0"
proof -
  note pre = assms(1) [unfolded init_pre_def]
  let ?m = "alloc ev (allocs w)" and ?h = "alloc ev (Suc (allocs w))"
  let ?w = "init_state ev dev ed dat res d1 w"
  define d where "d = init_dev ev res d1 w"
  have d: "hw_access d = ?h" "\<not> dev_configured d" using assms(2) by (simp_all add: d_def init_dev_sel)
  define ed1 where "ed1 = ed\<lparr>data := Some (dat\<lparr>mac_addrs := ?m\<rparr>), dev_ops := Some xdma_eth_dev_ops,
          rx_pkt_burst := Some Fn_xdma_recv_pkts, tx_pkt_burst := Some Fn_xdma_xmit_pkts\<rparr>"
  have st: "xdevs ?w (dev_private dat) = Some d" "eth_devs ?w dev = Some ed1"
    "data ed1 = Some (dat\<lparr>mac_addrs := ?m\<rparr>)"
    "blocks ?w = (blocks w)(?m \<mapsto> RTE_ETHER_ADDR_LEN, ?h \<mapsto> sizeof_xdma_hw_access)"
    by (simp_all add: init_state_def d_def ed1_def Let_def)
  have ne: "?h \<noteq> ?m" "?m \<noteq> ?h" using pre by auto
  have restored: "((blocks ?w)(?m := None)) (?h := None) = blocks w"
    using pre by (auto simp: st(4) fun_eq_iff)
  obtain w'' where w'': "xdma_eth_dev_uninit True dev ?w = Inr (0, w'')" "blocks w'' = blocks w"
    "eth_devs w'' dev = Some (ed1\<lparr>dev_ops := None, rx_pkt_burst := None, tx_pkt_burst := None,
       data := Some (dat\<lparr>nb_rx_queues := 0, nb_tx_queues := 0, mac_addrs := 0\<rparr>)\<rparr>)"
    "xdevs w'' (dev_private dat) = Some (d\<lparr>hw_access := 0\<rparr>)"
    using pre st d restored ne
    by (simp add: xdma_eth_dev_uninit_def eth_data_def set_eth_data_def rte_free_def Let_def)
  moreover have "xdma_eth_dev_uninit False dev ?w = Inr (- EPERM, ?w)"
    using pre st by (simp add: xdma_eth_dev_uninit_def eth_data_def)
  ultimately show ?thesis using init_eq [OF assms(1)] by auto
qed

end
