(* ===== verification/Pmd_Api.thy ===== *)
theory Pmd_Api
  imports Probe
begin

text \<open>
  The driver's own interface for applications, \<open>rte_pmd_xdma.c\<close>.  \<open>port_dev\<close> gives the
  address of \<open>rte_eth_devices[port_id]\<close>.
\<close>

section \<open>Operations\<close>

text \<open>
  The copy of DPDK's device table into a memzone of its own: \<open>max_ports\<close> structures of
  \<open>dev_size\<close> bytes each.  The copies lie at the address of the zone.
\<close>

definition rte_pmd_xdma_compat_memzone_reserve_aligned :: "env \<Rightarrow> (int \<Rightarrow> u64) \<Rightarrow> nat \<Rightarrow> nat \<Rightarrow> world
    \<Rightarrow> fault + world" where
  "rte_pmd_xdma_compat_memzone_reserve_aligned ev port_dev max_ports dev_size w =
     (let (mz, w) = rte_memzone_reserve ev ''eth_devices'' (max_ports * dev_size) w in
      if mz = 0 then Inl Exited else
      for_loop 0 max_ports (\<lambda>i w. andThen (deref (eth_devs w) (port_dev (int i))) (\<lambda>d.
        Inr (w\<lparr>eth_devs := (eth_devs w)(mz + of_nat (i * dev_size) \<mapsto> d)\<rparr>))) w)"

text \<open>
  The generic device of a port; \<open>None\<close> is NULL.  A PCI device is known by its BARs.  Its
  removal is a call of DPDK, \<open>rte_dev_remove\<close>, on a state that contains more than the driver's.
\<close>

definition rte_pmd_xdma_get_device :: "(int \<Rightarrow> u64) \<Rightarrow> int \<Rightarrow> world \<Rightarrow> fault + mem_resource list option" where
  "rte_pmd_xdma_get_device port_dev port w =
     andThen (deref (eth_devs w) (port_dev port)) (\<lambda>d. Inr (device d))"

definition rte_pmd_xdma_dev_remove :: "(mem_resource list option \<Rightarrow> 's \<Rightarrow> fault + int \<times> 's) \<Rightarrow> (int \<Rightarrow> u64)
    \<Rightarrow> int \<Rightarrow> world \<Rightarrow> 's \<Rightarrow> fault + int \<times> 's" where
  "rte_pmd_xdma_dev_remove rte_dev_remove port_dev port w s =
     andThen (deref (eth_devs w) (port_dev port)) (\<lambda>d. rte_dev_remove (device d) s)"

text \<open>
  The queue arrays belong to the ethdev layer, which allocated them; they are values of the
  data structure rather than blocks of the heap, so freeing one and clearing the pointer is
  \<open>None\<close>.
\<close>

definition rte_pmd_xdma_dev_close :: "(int \<Rightarrow> u64) \<Rightarrow> u16 \<Rightarrow> world \<Rightarrow> fault + world" where
  "rte_pmd_xdma_dev_close port_dev port w =
     (let dev = port_dev (uint port) in
      andThen (eth_data dev w) (\<lambda>dat.
      andThen (set_eth_data dev (dat\<lparr>dev_started := False\<rparr>) w) (\<lambda>w.
      andThen (xdma_dev_close dev w) (\<lambda>w.
      andThen (eth_data dev w) (\<lambda>dat.
      set_eth_data dev (dat\<lparr>nb_rx_queues := 0, rx_queues := None, nb_tx_queues := 0, tx_queues := None\<rparr>) w)))))"

text \<open>Each result is stored only if the caller passed a pointer for it.\<close>

definition rte_pmd_xdma_get_bar_details :: "(int \<Rightarrow> u64) \<Rightarrow> int \<Rightarrow> bool \<times> bool \<times> bool \<Rightarrow> world
    \<Rightarrow> fault + int option \<times> int option \<times> int option" where
  "rte_pmd_xdma_get_bar_details port_dev port want w =
     andThen (eth_data (port_dev port) w) (\<lambda>dat.
     let (want_config, want_user, want_bypass) = want in
     if \<not> want_config \<and> \<not> want_user \<and> \<not> want_bypass then Inr (None, None, None) else
     andThen (deref (xdevs w) (dev_private dat)) (\<lambda>d.
     Inr (if want_config then Some (config_bar_idx d) else None,
          if want_user then Some (user_bar_idx d) else None,
          if want_bypass then Some (bypass_bar_idx d) else None)))"

definition rte_pmd_xdma_get_bar_addr :: "(int \<Rightarrow> u64) \<Rightarrow> int \<Rightarrow> int \<Rightarrow> world \<Rightarrow> fault + u64" where
  "rte_pmd_xdma_get_bar_addr port_dev port bar_idx w =
     andThen (eth_data (port_dev port) w) (\<lambda>_.
     andThen (pci_resources (port_dev port) w) (\<lambda>res.
     andThen (load_int res bar_idx) (\<lambda>b. Inr (phys_addr b))))"

record eth_fp_ops =
  fp_rx_pkt_burst :: "burst_fn option"
  fp_tx_pkt_burst :: "burst_fn option"
  fp_rx_queue_count :: u64
  fp_rx_descriptor_status :: u64
  fp_tx_descriptor_status :: u64
  fp_rxq_data :: "u64 list option"
  fp_txq_data :: "u64 list option"

text \<open>\<open>fpo\<close> is \<open>rte_eth_fp_ops\<close>, \<open>avail\<close> the value of \<open>rte_eth_dev_count_avail\<close>.\<close>

definition rte_pmd_xdma_dev_fp_ops_config :: "(int \<Rightarrow> u64) \<Rightarrow> u16 \<Rightarrow> int \<Rightarrow> eth_fp_ops list \<Rightarrow> world
    \<Rightarrow> fault + int \<times> eth_fp_ops list" where
  "rte_pmd_xdma_dev_fp_ops_config port_dev avail port fpo w =
     (if port < 0 \<or> port \<ge> uint avail then Inr (- ENOTSUP, fpo) else
      andThen (deref (eth_devs w) (port_dev port)) (\<lambda>dev.
      andThen (eth_data (port_dev port) w) (\<lambda>dat.
      andThen (load_int fpo port) (\<lambda>f.
      andThen (store_int fpo port (f\<lparr>fp_rx_pkt_burst := rx_pkt_burst dev, fp_tx_pkt_burst := tx_pkt_burst dev,
                 fp_rx_queue_count := rx_queue_count dev,
                 fp_rx_descriptor_status := rx_descriptor_status dev,
                 fp_tx_descriptor_status := tx_descriptor_status dev,
                 fp_rxq_data := rx_queues dat, fp_txq_data := tx_queues dat\<rparr>)) (\<lambda>fpo.
      Inr (0, fpo))))))"

text \<open>The same function again, in \<open>xdma_dpdk_compat.c\<close>, which the build does not compile.\<close>

definition compat_dev_fp_ops_config :: "(int \<Rightarrow> u64) \<Rightarrow> u16 \<Rightarrow> int \<Rightarrow> eth_fp_ops list \<Rightarrow> world
    \<Rightarrow> fault + int \<times> eth_fp_ops list" where
  "compat_dev_fp_ops_config = rte_pmd_xdma_dev_fp_ops_config"

definition rte_user_write :: "(int \<Rightarrow> u64) \<Rightarrow> int \<Rightarrow> u32 \<Rightarrow> u32 \<Rightarrow> world \<Rightarrow> fault + world" where
  "rte_user_write port_dev port reg_offst val w =
     andThen (eth_data (port_dev port) w) (\<lambda>dat. xdma_user_write (dev_private dat) reg_offst val w)"

definition rte_user_read :: "(u64 \<Rightarrow> u32) \<Rightarrow> (int \<Rightarrow> u64) \<Rightarrow> int \<Rightarrow> u32 \<Rightarrow> world \<Rightarrow> fault + u32" where
  "rte_user_read rd port_dev port reg_offst w =
     andThen (eth_data (port_dev port) w) (\<lambda>dat. xdma_user_read rd (dev_private dat) reg_offst w)"

definition rte_bar_load :: "u8 list option \<Rightarrow> nat \<Rightarrow> (nat \<Rightarrow> bool) \<Rightarrow> (int \<Rightarrow> u64) \<Rightarrow> int \<Rightarrow> u32 \<Rightarrow> u32 \<Rightarrow> int
    \<Rightarrow> world \<Rightarrow> (u64 \<Rightarrow> u8) \<Rightarrow> fault + (u64 \<Rightarrow> u8) \<times> nat \<times> load_log list" where
  "rte_bar_load fbytes seek_end map_ok port_dev port offset sz bar_idx w m =
     andThen (eth_data (port_dev port) w) (\<lambda>dat.
     xdma_bar_load fbytes seek_end map_ok (dev_private dat) offset sz bar_idx w m)"

text \<open>
  \<open>nb_pkts\<close> is narrowed to 16 bits on the transmit side, and the count of the receive side
  is converted to \<open>int\<close>.
\<close>

definition rte_poll_complete :: "(nat \<Rightarrow> u32) \<Rightarrow> (int \<Rightarrow> u64) \<Rightarrow> int \<Rightarrow> int \<Rightarrow> int \<Rightarrow> bool \<Rightarrow> world
    \<Rightarrow> fault + int \<times> world" where
  "rte_poll_complete hw port_dev port queue_id nb_pkts tx w =
     andThen (eth_data (port_dev port) w) (\<lambda>dat.
     if tx then andThen (xdma_poll_tx_complete hw (dev_private dat) (of_int nb_pkts) queue_id w)
                  (\<lambda>(r, w). Inr (uint r, w))
     else andThen (xdma_poll_rx_complete hw (dev_private dat) queue_id w) (\<lambda>(r, w). Inr (sint r, w)))"

section \<open>Closing a port\<close>

lemma pmd_close_eq:
  assumes "eth_data dev w = Inr dat" and "port_dev (uint port) = dev" and "queues_ok dat tq rq"
    and "\<forall>p \<in> set tq. queue_owned H2C w p" and "\<forall>p \<in> set rq. queue_owned C2H w p"
    and "distinct (all_blocks w (rq @ tq))"
  shows "\<exists>w' dat'. rte_pmd_xdma_dev_close port_dev port w = Inr w' \<and>
    (\<forall>ctrl. hw_running ctrl w' = hw_running ctrl w) \<and>
    blocks w' = blocks w |` (- set (all_blocks w (rq @ tq))) \<and>
    eth_data dev w' = Inr dat' \<and> nb_rx_queues dat' = 0 \<and> nb_tx_queues dat' = 0 \<and>
    rx_queues dat' = None \<and> tx_queues dat' = None \<and>
    \<not> dev_started dat' \<and> mmio w' = mmio w \<and> eth_devs w' = (eth_devs w)(dev \<mapsto> (the (eth_devs w dev))\<lparr>data := Some dat'\<rparr>) \<and>
    xdevs w' = xdevs w \<and> dev_private dat' = dev_private dat \<and> mac_addrs dat' = mac_addrs dat"
proof -
  from assms(1) obtain d where d: "dev \<noteq> 0" "eth_devs w dev = Some d" "data d = Some dat"
    by (auto simp: eth_data_def andThen_eq_Inr deref_eq_Inr split: option.splits)
  let ?dat = "dat\<lparr>dev_started := False\<rparr>"
  define u where "u = w\<lparr>eth_devs := (eth_devs w)(dev \<mapsto> d\<lparr>data := Some ?dat\<rparr>)\<rparr>"
  have u: "eth_data dev u = Inr ?dat" "queues_ok ?dat tq rq" "\<not> dev_started ?dat"
    using d assms(3) by (simp_all add: u_def eth_data_def queues_ok_def)
  have blk: "queue_blocks u = queue_blocks w" "queue_owned c u = queue_owned c w" for c
    by (simp_all add: fun_eq_iff u_def queue_blocks_def queue_owned_def)
  have all: "all_blocks u = all_blocks w" by (simp add: fun_eq_iff all_blocks_def blk)
  obtain v where v: "xdma_dev_close dev u = Inr v"
    "blocks v = blocks u |` (- set (all_blocks u (rq @ tq)))" "mmio v = mmio u" "eth_devs v = eth_devs u" "xdevs v = xdevs u"
    using dev_close_blocks [OF u] assms(4-6) unfolding blk all by blast
  let ?dat' = "?dat\<lparr>nb_rx_queues := 0, rx_queues := None, nb_tx_queues := 0, tx_queues := None\<rparr>"
  let ?w = "v\<lparr>eth_devs := (eth_devs u)(dev \<mapsto> d\<lparr>data := Some ?dat'\<rparr>)\<rparr>"
  have "rte_pmd_xdma_dev_close port_dev port w = Inr ?w"
    using d assms(1,2) v u(1)
    by (simp add: rte_pmd_xdma_dev_close_def set_eth_data_def u_def [symmetric] Let_def)
       (simp add: eth_data_def u_def)
  moreover have "eth_data dev ?w = Inr ?dat'" using d(1) by (simp add: eth_data_def)
  moreover have "hw_running ctrl ?w = hw_running ctrl w" for ctrl by (simp add: hw_running_def v(3) u_def)
  moreover have "blocks ?w = blocks w |` (- set (all_blocks w (rq @ tq)))" using v(2) unfolding all
    by (simp add: u_def)
  moreover have "mmio ?w = mmio w" "eth_devs ?w = (eth_devs w)(dev \<mapsto> (the (eth_devs w dev))\<lparr>data := Some ?dat'\<rparr>)"
    using d(2) by (simp_all add: v(3) u_def)
  moreover have "xdevs ?w = xdevs w" by (simp add: v(5) u_def)
  ultimately show ?thesis by (intro exI [of _ ?w] exI [of _ ?dat']) simp
qed

section \<open>Properties\<close>

text \<open>
  C36. Closing a port through the driver's interface never stops its engines: the started flag
  is cleared before the close that tests it, so not a single register is written while the
  rings, write-back words and engines of all queues are released; engines that were running
  keep running on freed memory.
\<close>

theorem pmd_close_never_stops:
  assumes "eth_data dev w = Inr dat" and "port_dev (uint port) = dev" and "queues_ok dat tq rq"
    and "\<forall>p \<in> set tq. queue_owned H2C w p" and "\<forall>p \<in> set rq. queue_owned C2H w p"
    and "distinct (all_blocks w (rq @ tq))"
  shows "\<exists>w' dat'. rte_pmd_xdma_dev_close port_dev port w = Inr w' \<and>
    (\<forall>ctrl. hw_running ctrl w' = hw_running ctrl w) \<and>
    blocks w' = blocks w |` (- set (all_blocks w (rq @ tq))) \<and>
    eth_data dev w' = Inr dat' \<and> nb_rx_queues dat' = 0 \<and> nb_tx_queues dat' = 0 \<and>
    rx_queues dat' = None \<and> tx_queues dat' = None"
  using pmd_close_eq [where port_dev = port_dev, OF assms] by blast

end
