(* ===== verification/Uart.thy ===== *)
theory Uart
  imports Device
begin

text \<open>
  The console over the user BAR, \<open>uart.c\<close>: a receive FIFO at offset 0, a transmit FIFO at 4
  and a status register at 8 (bit 0: a byte was received, bit 3: the transmit FIFO is full).

  The device answers the loads of the driver in order: \<open>rd i a\<close> is the value of the \<open>i\<close>th
  load if it goes to address \<open>a\<close>, and every operation returns the number of loads made so far.
\<close>

section \<open>The terminal\<close>

text \<open>
  Standard input: the local modes of the terminal, if it is one, and the status flags of the
  file, if it is open.  The calls that change either fail, and change nothing, where there is none;
  their results are not looked at.  The bits are those of Linux.
\<close>

record tty =
  c_lflag :: "u32 option"
  file_flags :: "u32 option"

definition ICANON :: u32 where "ICANON = 0x2"
definition ECHO :: u32 where "ECHO = 0x8"
definition O_NONBLOCK :: u32 where "O_NONBLOCK = 0x800"

definition init_term :: "tty \<Rightarrow> tty" where
  "init_term t = t\<lparr>c_lflag := map_option (\<lambda>l. l AND NOT (ICANON OR ECHO)) (c_lflag t),
     file_flags := map_option (\<lambda>f. f OR O_NONBLOCK) (file_flags t)\<rparr>"

text \<open>
  \<open>read\<close> of one character, of which \<open>c\<close> is the next one typed, if there is one: without
  \<open>O_NONBLOCK\<close> it waits for a character, with it, or without a file, it gives none.
\<close>

definition read_char :: "tty \<Rightarrow> u8 option \<Rightarrow> fault + u8 option" where
  "read_char t c =
     (case file_flags t of None \<Rightarrow> Inr None
      | Some f \<Rightarrow> if c = None \<and> f AND O_NONBLOCK = 0 then Inl Hang else Inr c)"

section \<open>Operations\<close>

text \<open>A \<open>char\<close> has 8 bits and is signed; a stored character is sign-extended.\<close>

definition uart_recv :: "(nat \<Rightarrow> u64 \<Rightarrow> u32) \<Rightarrow> nat \<Rightarrow> u64 \<Rightarrow> u8 \<times> nat" where
  "uart_recv rd i devmem =
     (if rd i (devmem + 8) AND 1 = 0 then (0, i + 1)
      else (ucast (rd (i + 1) devmem), i + 2))"

fun uart_send_loop :: "(nat \<Rightarrow> u64 \<Rightarrow> u32) \<Rightarrow> nat \<Rightarrow> nat \<Rightarrow> u64 \<Rightarrow> u8 \<Rightarrow> world \<Rightarrow> bool \<times> nat \<times> world" where
  "uart_send_loop rd 0 i devmem ch w = (False, i, w)"
| "uart_send_loop rd (Suc n) i devmem ch w =
     (if rd i (devmem + 8) AND push_bit 3 1 = 0
      then (True, i + 1, mmio_store (devmem + 4) (scast ch) w)
      else uart_send_loop rd n (i + 1) devmem ch w)"

definition max_retry :: nat where "max_retry = 1000"

definition uart_send :: "(nat \<Rightarrow> u64 \<Rightarrow> u32) \<Rightarrow> nat \<Rightarrow> u64 \<Rightarrow> u8 \<Rightarrow> world \<Rightarrow> bool \<times> nat \<times> world" where
  "uart_send rd i devmem ch w = uart_send_loop rd max_retry i devmem ch w"

text \<open>
  The inner loop of \<open>uart_start\<close>: it prints received characters until there is none.  It
  need not end; \<open>out\<close> is what was printed so far.
\<close>

partial_function (option) uart_drain :: "(nat \<Rightarrow> u64 \<Rightarrow> u32) \<Rightarrow> nat \<Rightarrow> u64 \<Rightarrow> u8 list \<Rightarrow> (nat \<times> u8 list) option" where
  "uart_drain rd i devmem out =
     (let (ch, i) = uart_recv rd i devmem in
      if ch = 0 then Some (i, out) else uart_drain rd i devmem (out @ [ch]))"

text \<open>
  One round of the outer loop: drain the receiver, take a pending special character or what
  \<open>read\<close> gives, send it.  Nothing in the file ever sets \<open>special_char\<close>, or clears
  \<open>running\<close>, so the outer loop has no end.
\<close>

definition next_char :: "tty \<Rightarrow> u8 \<Rightarrow> u8 option \<Rightarrow> fault + u8 \<times> u8" where
  "next_char t special_char typed =
     (if special_char \<noteq> 0 then Inr (special_char, 0)
      else andThen (read_char t typed) (\<lambda>c. Inr (case c of None \<Rightarrow> 0 | Some c \<Rightarrow> c, special_char)))"

definition uart_round :: "(nat \<Rightarrow> u64 \<Rightarrow> u32) \<Rightarrow> nat \<Rightarrow> u64 \<Rightarrow> tty \<Rightarrow> u8 \<Rightarrow> u8 option \<Rightarrow> u8 list \<Rightarrow> world
    \<Rightarrow> fault + u8 \<times> nat \<times> u8 list \<times> world" where
  "uart_round rd i devmem t special_char typed out w =
     (case uart_drain rd i devmem out of None \<Rightarrow> Inl Hang
      | Some (i, out) \<Rightarrow>
          andThen (next_char t special_char typed) (\<lambda>(ch, special_char).
          let (i, w) = (if ch \<noteq> 0 then snd (uart_send rd i devmem ch w) else (i, w))
          in Inr (special_char, i, out, w)))"

definition uart_base :: "u64 \<Rightarrow> u64 \<Rightarrow> world \<Rightarrow> fault + u64" where
  "uart_base dev base w =
     andThen (eth_data dev w) (\<lambda>dat.
     andThen (deref (xdevs w) (dev_private dat)) (\<lambda>d.
     andThen (load_int (bar d) (user_bar_idx d)) (\<lambda>b. Inr (b + base))))"

text \<open>
  The outer loop, on the number of rounds so far, the pending character, the number of loads,
  what was printed, and the memory.  \<open>typed k\<close> is what \<open>read\<close> gives in round \<open>k\<close>.  The condition
  \<open>running\<close> of the loop is always true.
\<close>

type_synonym uart_state = "nat \<times> u8 \<times> nat \<times> u8 list \<times> world"

definition uart_loop :: "(nat \<Rightarrow> u64 \<Rightarrow> u32) \<Rightarrow> u64 \<Rightarrow> tty \<Rightarrow> (nat \<Rightarrow> u8 option) \<Rightarrow> uart_state \<Rightarrow> fault + uart_state" where
  "uart_loop rd devmem t typed s =
     (let (k, special_char, i, out, w) = s in
      andThen (uart_round rd i devmem t special_char (typed k) out w) (\<lambda>r. Inr (Suc k, r)))"

text \<open>\<open>None\<close> where the loop runs for ever; a wait inside a round is the fault \<open>Hang\<close>.\<close>

definition uart_start :: "(nat \<Rightarrow> u64 \<Rightarrow> u32) \<Rightarrow> tty \<Rightarrow> (nat \<Rightarrow> u8 option) \<Rightarrow> u64 \<Rightarrow> u64 \<Rightarrow> world
    \<Rightarrow> (fault + uart_state) option" where
  "uart_start rd t typed dev base w =
     (case uart_base dev base w of Inl e \<Rightarrow> Some (Inl e)
      | Inr devmem \<Rightarrow> do_until (uart_loop rd devmem (init_term t) typed) (\<lambda>_ _. False) 0 (0, 0, 0, [], w))"

section \<open>The terminal settings\<close>

lemma nonblock_set: "(f OR O_NONBLOCK) AND O_NONBLOCK \<noteq> 0"
proof -
  have "(f OR O_NONBLOCK) AND O_NONBLOCK = O_NONBLOCK"
    by (simp add: bit_eq_iff bit_simps)
  then show ?thesis by (simp add: O_NONBLOCK_def)
qed

lemma modes_cleared: "(l AND NOT m) AND m = 0" for l m :: u32
  by (simp add: bit_eq_iff bit_simps)

text \<open>Afterwards no line is edited, nothing is echoed and no read waits.\<close>

lemma init_term_flags:
  "c_lflag (init_term t) = Some l \<Longrightarrow> l AND (ICANON OR ECHO) = 0"
  "file_flags (init_term t) = Some f \<Longrightarrow> f AND O_NONBLOCK \<noteq> 0"
  using modes_cleared [of _ "ICANON OR ECHO"] nonblock_set by (auto simp: init_term_def simp del: bit.de_Morgan_disj)

lemma read_after_init:
  "read_char (init_term t) c = Inr (if file_flags t = None then None else c)"
  using nonblock_set by (auto simp: read_char_def init_term_def split: option.splits)

section \<open>Sending and receiving\<close>

lemma send_loop_ready:
  "k < n \<Longrightarrow> rd (i + k) (devmem + 8) AND 8 = 0 \<Longrightarrow> (\<And>j. j < k \<Longrightarrow> rd (i + j) (devmem + 8) AND 8 \<noteq> 0) \<Longrightarrow>
   uart_send_loop rd n i devmem ch w = (True, i + k + 1, mmio_store (devmem + 4) (scast ch) w)"
proof (induction n arbitrary: i k)
  case 0
  then show ?case by simp
next
  case (Suc n)
  show ?case
  proof (cases k)
    case 0
    with Suc.prems(2) show ?thesis by simp
  next
    case (Suc l)
    have busy: "rd i (devmem + 8) AND 8 \<noteq> 0" using Suc.prems(3) [of 0] Suc by simp
    have "uart_send_loop rd n (Suc i) devmem ch w = (True, Suc i + l + 1, mmio_store (devmem + 4) (scast ch) w)"
    proof (rule Suc.IH)
      show "l < n" "rd (Suc i + l) (devmem + 8) AND 8 = 0" using Suc.prems(1,2) Suc by simp_all
      show "rd (Suc i + j) (devmem + 8) AND 8 \<noteq> 0" if "j < l" for j
        using Suc.prems(3) [of "Suc j"] that Suc by simp
    qed
    with busy Suc show ?thesis by simp
  qed
qed

lemma send_loop_busy:
  "(\<And>j. j < n \<Longrightarrow> rd (i + j) (devmem + 8) AND 8 \<noteq> 0) \<Longrightarrow> uart_send_loop rd n i devmem ch w = (False, i + n, w)"
proof (induction n arbitrary: i)
  case 0
  then show ?case by simp
next
  case (Suc n)
  have "rd i (devmem + 8) AND 8 \<noteq> 0" using Suc.prems [of 0] by simp
  moreover have "rd (Suc i + j) (devmem + 8) AND 8 \<noteq> 0" if "j < n" for j
    using Suc.prems [of "Suc j"] that by simp
  ultimately show ?case using Suc.IH [of "Suc i"] by simp
qed

text \<open>A device that has the characters \<open>cs\<close> waiting from its \<open>i\<close>th load on, and then none.\<close>

fun uart_feeds :: "(nat \<Rightarrow> u64 \<Rightarrow> u32) \<Rightarrow> nat \<Rightarrow> u64 \<Rightarrow> u8 list \<Rightarrow> bool" where
  "uart_feeds rd i devmem [] \<longleftrightarrow> rd i (devmem + 8) AND 1 = 0"
| "uart_feeds rd i devmem (c # cs) \<longleftrightarrow> rd i (devmem + 8) AND 1 \<noteq> 0 \<and>
     (ucast (rd (i + 1) devmem) :: u8) = c \<and> uart_feeds rd (i + 2) devmem cs"

section \<open>Properties\<close>

text \<open>
  Sending a character ends after at most 1000 looks at the status register.  It succeeds
  exactly if one of them finds room in the transmit FIFO, and then writes the sign-extended
  character once, right after that look; otherwise it writes nothing.
\<close>

theorem uart_send_result:
  "case uart_send rd i devmem ch w of (ok, i', w') \<Rightarrow>
     (ok \<longleftrightarrow> (\<exists>k < 1000. rd (i + k) (devmem + 8) AND 8 = 0)) \<and> i' \<le> i + 1000 \<and>
     w' = (if ok then mmio_store (devmem + 4) (scast ch) w else w) \<and>
     (ok \<longrightarrow> rd (i' - 1) (devmem + 8) AND 8 = 0)"
proof (cases "\<exists>k < 1000. rd (i + k) (devmem + 8) AND 8 = 0")
  case True
  define k where "k = (LEAST k. rd (i + k) (devmem + 8) AND 8 = 0)"
  from True have k: "rd (i + k) (devmem + 8) AND 8 = 0" "k < 1000"
    unfolding k_def by (auto intro: LeastI order_le_less_trans [OF Least_le])
  have "rd (i + j) (devmem + 8) AND 8 \<noteq> 0" if "j < k" for j
    using that not_less_Least unfolding k_def by blast
  with k have "uart_send rd i devmem ch w = (True, i + k + 1, mmio_store (devmem + 4) (scast ch) w)"
    unfolding uart_send_def max_retry_def by (intro send_loop_ready) auto
  with True k show ?thesis by simp
next
  case False
  then have "uart_send rd i devmem ch w = (False, i + 1000, w)"
    unfolding uart_send_def max_retry_def by (intro send_loop_busy) auto
  with False show ?thesis by simp
qed

text \<open>
  Draining the receiver prints exactly the waiting characters, in order, up to the first
  NUL: a NUL byte is taken for an empty FIFO, swallowed, and ends the loop with the rest of the
  characters still waiting.
\<close>

theorem uart_drain_prints:
  assumes "uart_feeds rd i devmem cs"
  shows "\<exists>i'. uart_drain rd i devmem out = Some (i', out @ takeWhile (\<lambda>c. c \<noteq> 0) cs) \<and>
    (0 \<in> set cs \<longrightarrow> uart_feeds rd i' devmem (tl (dropWhile (\<lambda>c. c \<noteq> 0) cs)))"
  using assms
proof (induction cs arbitrary: i out)
  case Nil
  then have "uart_drain rd i devmem out = Some (i + 1, out)"
    by (subst uart_drain.simps) (simp add: uart_recv_def)
  then show ?case by simp
next
  case (Cons c cs)
  then have recv: "uart_recv rd i devmem = (c, i + 2)" by (simp add: uart_recv_def)
  show ?case
  proof (cases "c = 0")
    case True
    then have "uart_drain rd i devmem out = Some (i + 2, out)"
      by (subst uart_drain.simps) (simp add: recv)
    then show ?thesis using True Cons.prems by simp
  next
    case False
    then have "uart_drain rd i devmem out = uart_drain rd (i + 2) devmem (out @ [c])"
      by (subst uart_drain.simps) (simp add: recv)
    then show ?thesis using False Cons.IH [of "i + 2" "out @ [c]"] Cons.prems by auto
  qed
qed


end
