(* ===== verification/Examples.thy ===== *)
theory Examples
  imports Tx_Correct Rx_Correct Lifecycle Pmd_Api Uart
begin

text \<open>
  Concrete devices, queues and packets on which the properties are exercised: the ethdev
  structure at 0x400, the private data at 0x100, the function table at 0x200, one engine at
  0x300 with its ring at 0x1000, and two packets at 0x5000 and 0x5100.
\<close>

definition ex_env :: env where
  "ex_env = \<lparr>alloc = (\<lambda>n. of_nat (0x10000 * (n + 1))), virt2phy = (\<lambda>a. a),
     junk_desc = (\<lambda>_ _. \<lparr>control = 0xFFFFFFFF, len = 7, src_addr_lo = 1, src_addr_hi = 2,
       dst_addr_lo = 3, dst_addr_hi = 4, next_lo = 5, next_hi = 6\<rparr>), junk_word = (\<lambda>_. 0xDEADBEEF)\<rparr>"

definition ex_dev :: xdma_dev where
  "ex_dev = \<lparr>bar = [0xB0000000, 0xA0000000, 0, 0, 0, 0], user_bar_idx = 0, config_bar_idx = 1,
     bypass_bar_idx = - 1, c2h_channel_max = 4, h2c_channel_max = 4,
     engine_h2c = replicate 4 zero_engine, engine_c2h = replicate 4 (zero_engine\<lparr>poll_mode_addr_virt := 0x1400\<rparr>),
     hw_access = 0x200, trigger_mode = 0, dev_configured = False\<rparr>"

definition ex_engine :: "dma_data_direction \<Rightarrow> xdma_engine" where
  "ex_engine d = zero_engine\<lparr>magic := XDMA_ENGINE_MAGIC_NUMBER, xdev := 0x100, dir := d, desc_max := 32,
     desc_ring := 0x1000, poll_mode_addr_virt := 0x1400, mz := 0x1000, sw_ring := 0x2000\<rparr>"

definition ex_ring :: "xdma_desc list" where
  "ex_ring = built_ring ex_env 0x1000"

definition ex_mbuf :: "u64 \<Rightarrow> rte_mbuf" where
  "ex_mbuf a = \<lparr>buf_addr = a, buf_iova = a, data_off = 128, nb_segs = 1, mb_next = 0, pkt_len = 64,
     data_len = 64, packet_type = 0, ol_flags = 0, mb_port = 0, vlan_tci = 0, hash_rss = 0\<rparr>"

definition ex_pkts :: "u64 list" where "ex_pkts = [0x5000, 0x5100]"

definition ex_link :: rte_eth_link where
  "ex_link = \<lparr>link_speed = 0, link_duplex = False, link_status = False\<rparr>"

definition ex_data :: rte_eth_dev_data where
  "ex_data = \<lparr>dev_private = 0x100, mac_addrs = 0, data_port_id = 0, rx_queues = Some [0],
     tx_queues = Some [0x300], nb_rx_queues = 0, nb_tx_queues = 1, dev_started = False, dev_link = ex_link\<rparr>"

definition ex_res :: "mem_resource list" where
  "ex_res = map (\<lambda>a. \<lparr>phys_addr = a, res_len = (if a = 0 then 0 else 0x10000), res_addr = a\<rparr>)
     [0xB0000000, 0xA0000000, 0, 0, 0, 0]"

definition ex_eth :: rte_eth_dev where
  "ex_eth = \<lparr>data = Some ex_data, device = Some ex_res, dev_ops = None, rx_pkt_burst = None,
     tx_pkt_burst = None, rx_queue_count = 0, rx_descriptor_status = 0, tx_descriptor_status = 0\<rparr>"

definition ex_world :: "xdma_engine \<Rightarrow> world" where
  "ex_world e = empty_world\<lparr>engines := [0x300 \<mapsto> e], xdevs := [0x100 \<mapsto> ex_dev],
     hw_tables := [0x200 \<mapsto> xdma_hw_access_init], eth_devs := [0x400 \<mapsto> ex_eth],
     rings := [0x1000 \<mapsto> ex_ring], words := [0x1400 \<mapsto> 0, 0x1820 \<mapsto> 0, 0x1824 \<mapsto> 0],
     mbufs := [0x5000 \<mapsto> ex_mbuf 0x6000, 0x5100 \<mapsto> ex_mbuf 0x7000],
     blocks := [0x300 \<mapsto> 160, 0x1000 \<mapsto> 1028, 0x2000 \<mapsto> 256]\<rparr>"

section \<open>The examples meet the hypotheses\<close>

lemma ex_ring_props:
  "length ex_ring = 32" "linked (\<lambda>a. a) 0x1000 ex_ring" "chain ex_ring = ex_ring" "\<forall>d \<in> set ex_ring. blank d"
  "\<And>j. j < 31 \<Longrightarrow> \<not> stopped (ex_ring ! j)"
proof -
  show "length ex_ring = 32" "chain ex_ring = ex_ring" "\<forall>d \<in> set ex_ring. blank d"
    using built_ring_props [of ex_env "0x1000"] by (simp_all add: ex_ring_def)
  show "linked (\<lambda>a. a) 0x1000 ex_ring"
    using built_ring_props(2) [of ex_env "0x1000"] by (simp add: ex_ring_def ex_env_def)
  show "\<And>j. j < 31 \<Longrightarrow> \<not> stopped (ex_ring ! j)"
    by (simp add: ex_ring_def built_ring_def init_desc_spec)
qed

lemma ex_config_bar: "bar_mapped config_bar_idx 0x100 0xA0000000 (ex_world e)"
  by (simp add: bar_mapped_def bar_base_def ex_world_def ex_dev_def)

lemma ex_hw_access: "hw_access_of 0x100 (ex_world e) = Inr xdma_hw_access_init"
  by (simp add: hw_access_of_def ex_world_def ex_dev_def)

lemma ex_engine_at:
  assumes "e = (ex_engine d)\<lparr>running := b, desc_used := u\<rparr>" and "u \<le> 32"
  shows "engine_at 0x300 0xA0000000 e ex_ring (ex_world e)"
proof -
  have "xdev e = 0x100" by (simp add: assms(1) ex_engine_def)
  then show ?thesis
    using ex_config_bar [of e] ex_hw_access [of e] ex_ring_props(1) assms(2)
    unfolding engine_at_def by (simp add: ex_world_def) (simp add: assms(1) ex_engine_def)
qed

lemma ex_idle_engine: "engine_at 0x300 0xA0000000 (ex_engine d) ex_ring (ex_world (ex_engine d))"
  by (rule ex_engine_at [where b = False and u = 0]) (simp_all add: ex_engine_def zero_engine_def)

lemma ex_segs:
  "a \<in> set ex_pkts \<Longrightarrow> pkt_ok (mbufs (ex_world e)) a \<and> length (segs_of (mbufs (ex_world e)) a) = 1"
  by (auto simp: ex_pkts_def pkt_ok_def segs_of_def ex_world_def ex_mbuf_def)

lemma ex_engine_sel [simp]:
  "\<not> running (ex_engine d)" "desc_used (ex_engine d) = 0" "desc_max (ex_engine d) = 32"
  "dir (ex_engine d) = d" "desc_ring (ex_engine d) = 0x1000" "poll_mode_addr_virt (ex_engine d) = 0x1400"
  "xdev (ex_engine d) = 0x100"
  by (simp_all add: ex_engine_def zero_engine_def)

lemma ex_tx_request: "tx_request 0x300 0xA0000000 (ex_engine H2C) ex_ring (ex_world (ex_engine H2C)) ex_pkts 2"
  using ex_idle_engine ex_segs by (auto simp: tx_request_def ex_pkts_def)

lemma ex_rx_ready:
  assumes "e = (ex_engine C2H)\<lparr>running := b, desc_used := u\<rparr>" and "u \<le> 32"
  shows "rx_ready 0x300 0xA0000000 e ex_ring ex_pkts (ex_world e)"
  using ex_engine_at [OF assms]
  by (simp add: rx_ready_def assms(1) stream_mapped_def stream_wb_addr_def mbufs_ok_def ex_pkts_def
      ex_world_def XDMA_DESC_SIZE_def XDMA_POLL_MODE_WB_SIZE_def)

end
