(* ===== verification/Witnesses.thy ===== *)
theory Witnesses
  imports Examples
begin

text \<open>
  Each property with hypotheses, applied to a concrete device, queue or packet of
  \<open>Examples\<close> on which all its hypotheses hold.
\<close>

section \<open>Rings and engines\<close>

lemma ex_ring_at: "rings (ex_world e) 0x1000 = Some ex_ring"
  by (simp add: ex_world_def)

theorem ring_init_builds_chain_witness:
  "length ex_ring = 32 \<and> (\<exists>r'. xdma_desc_ring_init ex_env (ex_engine H2C) (ex_world (ex_engine H2C))
      = Inr ((ex_world (ex_engine H2C))\<lparr>rings := (rings (ex_world (ex_engine H2C)))(0x1000 \<mapsto> r')\<rparr>) \<and>
    length r' = 32 \<and> chain r' = r' \<and> stopped (r' ! 31))"
proof -
  have h: "desc_ring (ex_engine H2C) \<noteq> 0" "rings (ex_world (ex_engine H2C)) (desc_ring (ex_engine H2C)) = Some ex_ring"
    "length ex_ring = unat (desc_max (ex_engine H2C))" "desc_max (ex_engine H2C) \<noteq> 0"
    by (simp_all add: ex_ring_at ex_ring_props(1))
  from ring_init_builds_chain [OF h, of ex_env] obtain r' where
    "xdma_desc_ring_init ex_env (ex_engine H2C) (ex_world (ex_engine H2C))
      = Inr ((ex_world (ex_engine H2C))\<lparr>rings := (rings (ex_world (ex_engine H2C)))(0x1000 \<mapsto> r')\<rparr>)"
    "length r' = 32" "chain r' = r'" "\<forall>i < 32. stopped (r' ! i) \<longleftrightarrow> Suc i = 32"
    by (auto simp: ex_ring_props(1))
  then show ?thesis using ex_ring_props(1) by auto
qed

theorem ring_clear_resets_witness:
  "linked (\<lambda>a. a) 0x1000 ex_ring \<and>
   (\<exists>r'. xdma_desc_ring_clear (ex_engine H2C) (ex_world (ex_engine H2C))
      = Inr ((ex_world (ex_engine H2C))\<lparr>rings := (rings (ex_world (ex_engine H2C)))(0x1000 \<mapsto> r')\<rparr>) \<and>
    (\<forall>d \<in> set r'. \<not> stopped d))"
proof -
  have h: "desc_ring (ex_engine H2C) \<noteq> 0" "rings (ex_world (ex_engine H2C)) (desc_ring (ex_engine H2C)) = Some ex_ring"
    "length ex_ring = unat (desc_max (ex_engine H2C))" "linked (\<lambda>a. a) (desc_ring (ex_engine H2C)) ex_ring"
    using ex_ring_props(2) by (simp_all add: ex_ring_at ex_ring_props(1))
  from ring_clear_resets [OF h] show ?thesis using ex_ring_props(2) by auto
qed

theorem get_desc_ring_order_witness:
  "ring_ready 0x300 (ex_world (ex_engine H2C)) \<and>
   (\<exists>w'. takes (get_desc 0x300) 2 (ex_world (ex_engine H2C)) = Inr ([0, 1], w') \<and> ring_used 0x300 w' = 2)"
proof -
  have r: "ring_ready 0x300 (ex_world (ex_engine H2C))"
    by (simp add: ring_ready_def ex_world_def)
  moreover have "ring_used 0x300 (ex_world (ex_engine H2C)) = 0" "ring_cap 0x300 (ex_world (ex_engine H2C)) = 32"
    by (simp_all add: ring_used_def ring_cap_def ex_world_def)
  ultimately show ?thesis using get_desc_ring_order [OF r, of 2] by (auto simp: upt_rec)
qed

theorem tx_start_programs_engine_witness:
  "engine_at 0x300 0xA0000000 (ex_engine H2C) ex_ring (ex_world (ex_engine H2C)) \<and>
   (\<exists>w'. xdma_tx_engine_start 0x300 0x1000 (- 1) (ex_world (ex_engine H2C)) = Inr w' \<and> length (mmio w') = 6)"
proof -
  have "mmio (ex_world (ex_engine H2C)) = []" by (simp add: ex_world_def empty_world_def)
  with tx_start_programs_engine [OF ex_idle_engine [of H2C], of "0x1000" "- 1"] ex_idle_engine [of H2C]
  show ?thesis by fastforce
qed

theorem engine_stop_idle_witness:
  "engine_at 0x300 0xA0000000 (ex_engine C2H) ex_ring (ex_world (ex_engine C2H)) \<and>
   (\<exists>w'. xdma_rx_engine_stop 0x300 (ex_world (ex_engine C2H)) = Inr w' \<and> words w' 0x1400 = Some 0)"
  using engine_stop_idle [OF ex_idle_engine [of C2H], of xdma_rx_engine_stop C2H_CHANNEL_CTRL]
    ex_idle_engine [of C2H] by fastforce

section \<open>Queue setup\<close>

lemma ex_data: "eth_data 0x400 (ex_world e) = Inr ex_data"
  by (simp add: eth_data_def ex_world_def ex_eth_def)

lemma ex_dat_sel [simp]: "dev_private ex_data = 0x100" "tx_queues ex_data = Some [0x300]"
  "rx_queues ex_data = Some [0]" "data_port_id ex_data = 0" "\<not> dev_started ex_data"
  "nb_tx_queues ex_data = 1" "nb_rx_queues ex_data = 0"
  by (simp_all add: ex_data_def)

lemma ex_setup_pre: "setup_pre ex_env 0x400 tag 0 ex_data ex_dev 0xA0000000 (ex_world e)"
proof -
  have "xdevs (ex_world e) 0x100 = Some ex_dev" "zones (ex_world e) = []" "allocs (ex_world e) = 0"
    by (simp_all add: ex_world_def empty_world_def)
  then show ?thesis
    using ex_data [of e] ex_config_bar [of e] ex_hw_access [of e]
    by (simp add: setup_pre_def setup_names_free_def ex_env_def)
qed

lemma ex_queues: "unat (0 :: u16) < length (engine_h2c ex_dev)" "unat (0 :: u16) < length (engine_c2h ex_dev)"
  by (simp_all add: ex_dev_def)

theorem tx_setup_installs_engine_witness:
  "setup_pre ex_env 0x400 ''TxHwRn'' 0 ex_data ex_dev 0xA0000000 (ex_world (ex_engine H2C)) \<and>
   (\<exists>w'. xdma_tx_engine_setup ex_env 0x400 0 64 (ex_world (ex_engine H2C)) = Inr w')"
  using tx_setup_installs_engine [OF ex_setup_pre [of "''TxHwRn''" "ex_engine H2C"] ex_queues(1) ex_dat_sel(2), of 64]
    ex_setup_pre [of "''TxHwRn''" "ex_engine H2C"] by auto

theorem rx_setup_installs_engine_witness:
  "setup_pre ex_env 0x400 ''RxHwRn'' 0 ex_data ex_dev 0xA0000000 (ex_world (ex_engine H2C)) \<and>
   (\<exists>w'. xdma_rx_engine_setup ex_env 0x400 0 64 (ex_world (ex_engine H2C)) = Inr w')"
  using rx_setup_installs_engine [OF ex_setup_pre [of "''RxHwRn''" "ex_engine H2C"] ex_queues(2) ex_dat_sel(3), of 64]
    ex_setup_pre [of "''RxHwRn''" "ex_engine H2C"] by auto

theorem setup_unchecked_allocation_witness:
  "xdma_tx_engine_setup (ex_env\<lparr>alloc := (\<lambda>_. 0)\<rparr>) 0x400 0 32 (ex_world (ex_engine H2C)) = Inl NullDeref"
  by (rule setup_unchecked_allocation [OF ex_data]) simp

theorem tx_setup_again_crashes_witness:
  "\<exists>w'. xdma_tx_engine_setup ex_env 0x400 0 64 (ex_world (ex_engine H2C)) = Inr w' \<and>
     xdma_tx_engine_setup ex_env 0x400 0 32 w' = Inl NullDeref"
proof -
  obtain w' where "xdma_tx_engine_setup ex_env 0x400 0 64 (ex_world (ex_engine H2C)) = Inr w'"
    using tx_setup_engine [OF ex_setup_pre [of "''TxHwRn''" "ex_engine H2C"] ex_queues(1) ex_dat_sel(2), of 64] by auto
  with tx_setup_again_crashes [OF this, of ex_env 32] show ?thesis by blast
qed

theorem zone_name_injective_witness:
  "zone_name driver_name ''TxHwRn'' 1 11 \<noteq> zone_name driver_name ''TxHwRn'' 11 1"
  by (subst zone_name_injective) simp_all

end
