(* ===== verification/Witnesses_Path.thy ===== *)
theory Witnesses_Path
  imports Witnesses
begin

text \<open>
  The properties of the transmit and the receive path, applied to the concrete queues and
  packets of \<open>Examples\<close>.
\<close>

section \<open>Transmission\<close>

lemma ex_blank: "\<forall>d \<in> set ex_ring. blank d" "\<forall>j < 31. \<not> stopped (ex_ring ! j)"
  using ex_ring_props(4,5) by auto

abbreviation ex_tx_world :: world where "ex_tx_world \<equiv> ex_world (ex_engine H2C)"

theorem xmit_prepare_describes_burst_witness:
  "tx_request 0x300 0xA0000000 (ex_engine H2C) ex_ring ex_tx_world ex_pkts 2 \<and>
   (\<exists>c w'. xmit_prepare 0x300 ex_pkts 2 ex_tx_world = Inr (c, w') \<and> c \<le> 2)"
  using xmit_prepare_describes_burst [OF ex_tx_request] ex_tx_request by auto

theorem xmit_terminator_witness:
  "tx_request 0x300 0xA0000000 (ex_engine H2C) ex_ring ex_tx_world ex_pkts 2 \<and>
   (\<exists>c w'. xmit_prepare 0x300 ex_pkts 2 ex_tx_world = Inr (c, w'))"
  using xmit_terminator [OF ex_tx_request ex_blank] ex_tx_request by blast

theorem xmit_adjacency_witness:
  "tx_request 0x300 0xA0000000 (ex_engine H2C) ex_ring ex_tx_world ex_pkts 2 \<and>
   (\<exists>c w'. xmit_prepare 0x300 ex_pkts 2 ex_tx_world = Inr (c, w') \<and> c \<le> 32)"
  using xmit_adjacency [OF ex_tx_request] ex_tx_request by blast

theorem xmit_returns_idle_witness:
  "tx_request 0x300 0xA0000000 (ex_engine H2C) ex_ring ex_tx_world ex_pkts 2 \<and>
   (\<exists>w'. xdma_xmit_pkts (\<lambda>k. of_nat k) 0x300 ex_pkts 2 ex_tx_world = Inr (2, w') \<and> words w' 0x1400 = Some 0)"
proof -
  have "linked (\<lambda>a. a) (desc_ring (ex_engine H2C)) ex_ring" using ex_ring_props(2) by simp
  moreover have "\<exists>k. (of_nat k :: u32) AND 0xFFFFFF = ucast (2 :: u16)"
    by (rule exI [of _ 2]) simp
  ultimately show ?thesis
    using xmit_returns_idle [OF ex_tx_request, where hw = "\<lambda>k. of_nat k"] ex_tx_request by fastforce
qed

theorem xmit_hang_iff_witness:
  "xdma_xmit_pkts (\<lambda>_. 1) 0x300 ex_pkts 2 ex_tx_world = Inl Hang"
  by (subst xmit_hang_iff [OF ex_tx_request]) simp

lemma ex_burst:
  assumes "\<forall>mb \<in> set ps. mb = 0x5000"
  shows "\<forall>mb \<in> set ps. pkt_ok (mbufs (ex_world e)) mb"
    and "length (burst_segs (mbufs (ex_world e)) ps) = length ps"
    and "n = length ps \<Longrightarrow> fitting (mbufs (ex_world e)) n ps = length ps"
proof -
  have "0x5000 \<in> set ex_pkts" by (simp add: ex_pkts_def)
  note seg = ex_segs [OF this, of e]
  show "\<forall>mb \<in> set ps. pkt_ok (mbufs (ex_world e)) mb" using assms seg by auto
  show "length (burst_segs (mbufs (ex_world e)) ps) = length ps"
    using assms seg by (induction ps) (simp_all add: burst_segs_def)
  show "n = length ps \<Longrightarrow> fitting (mbufs (ex_world e)) n ps = length ps"
    using assms by (induction ps arbitrary: n) (use seg in \<open>simp_all add: Let_def\<close>)
qed


theorem xmit_busy_witness:
  "\<exists>n. xdma_xmit_pkts (\<lambda>_. 0) 0x300 ex_pkts 2 (ex_world ((ex_engine H2C)\<lparr>running := True\<rparr>))
      = Inr (n, ex_world ((ex_engine H2C)\<lparr>running := True\<rparr>)) \<and> unat n = 65535"
proof (rule xmit_busy)
  show "engine_at 0x300 0xA0000000 ((ex_engine H2C)\<lparr>running := True\<rparr>) ex_ring
      (ex_world ((ex_engine H2C)\<lparr>running := True\<rparr>))"
    by (rule ex_engine_at [where b = True and u = 0]) (simp_all add: ex_engine_def zero_engine_def)
qed simp

section \<open>Reception\<close>

text \<open>The receive engine, idle, and running with \<open>u\<close> slots delivered.\<close>

abbreviation ex_rx_running :: "u32 \<Rightarrow> xdma_engine" where
  "ex_rx_running u \<equiv> (ex_engine C2H)\<lparr>running := True, desc_used := u\<rparr>"

lemma ex_rx_idle: "rx_ready 0x300 0xA0000000 (ex_engine C2H) ex_ring ex_pkts (ex_world (ex_engine C2H))"
  by (rule ex_rx_ready [where b = False and u = 0]) (simp_all add: ex_engine_def zero_engine_def)

lemma ex_rx_run:
  "u \<le> 32 \<Longrightarrow> rx_ready 0x300 0xA0000000 (ex_rx_running u) ex_ring ex_pkts (ex_world (ex_rx_running u))"
  by (rule ex_rx_ready) simp_all

lemma ex_poll: "c \<noteq> u \<Longrightarrow> rx_poll (\<lambda>_. c) u (Suc RX_RETRY) 0 = Some 0"
  by (simp add: rx_poll.simps)

lemma ex_pkts_length: "length ex_pkts = 2"
  by (simp add: ex_pkts_def)

theorem recv_posts_burst_witness:
  "\<exists>w'. rx_post 0x300 ex_pkts 2 (ex_world (ex_engine C2H)) = Inr (2, w') \<and>
     mbufs w' = mbufs (ex_world (ex_engine C2H))"
  using recv_posts_burst [OF ex_rx_idle, of 2 2] ex_ring_props(3) by (auto simp: ex_pkts_length)

theorem recv_delivers_witness:
  "\<exists>n w'. xdma_recv_pkts (\<lambda>_. 1) (\<lambda>_. (0, 60)) 0x300 ex_pkts 2 (ex_world (ex_rx_running 0)) = Inr (n, ex_pkts, w') \<and>
     unat n = 1"
proof -
  have "rx_poll (\<lambda>_. 1) (desc_used (ex_rx_running 0)) (Suc RX_RETRY) 0 = Some 0" using ex_poll [of 1 0] by simp
  from recv_delivers [OF ex_rx_run _ this refl, of "\<lambda>_. (0, 60)" 2] show ?thesis
    by (auto simp: ex_pkts_length)
qed

theorem recv_timeout_witness:
  "\<exists>w'. xdma_recv_pkts (\<lambda>_. 0) (\<lambda>_. (0, 0)) 0x300 ex_pkts 2 (ex_world (ex_rx_running 0)) = Inr (0, ex_pkts, w')"
  using recv_timeout [OF ex_rx_run [of 0], of 2 "\<lambda>_. 0" "\<lambda>_. (0, 0)"] by auto

theorem recv_short_burst_witness:
  "\<exists>n w'. xdma_recv_pkts (\<lambda>_. 0) (\<lambda>_. (0, 0)) 0x300 ex_pkts 2 (ex_world (ex_engine C2H)) = Inr (n, ex_pkts, w') \<and>
     unat n = 65534"
  using recv_short_burst [OF ex_rx_idle, of 2 "\<lambda>_. 0" "\<lambda>_. (0, 0)"] by (auto simp: ex_pkts_length)

theorem recv_prefetch_overrun_witness:
  "xdma_recv_pkts (\<lambda>_. 2) (\<lambda>_. (0, 60)) 0x300 ex_pkts 2 (ex_world (ex_rx_running 0)) = Inl OutOfBounds"
  by (rule recv_prefetch_overrun [OF ex_rx_run, where t = 0])
     (use ex_poll [of 2 0] in \<open>simp_all add: ex_pkts_length\<close>)

theorem recv_stuck_witness:
  "\<exists>w'. recv_calls (replicate 3 (\<lambda>_. 32, \<lambda>_. (0, 0), 64)) 0x300 ex_pkts (ex_world (ex_rx_running 32))
     = Inr ([0, 0, 0], w')"
  using recv_stuck [OF ex_rx_run [of 32], of "replicate 3 (\<lambda>_. 32, \<lambda>_. (0, 0), 64)"]
  by (auto simp: numeral_3_eq_3)

theorem rx_exactly_once_witness:
  "\<exists>w'. rx_steps 0x300 ex_pkts 2 (ex_world (ex_rx_running 0)) 1 w' \<and>
     rx_session 0x300 0xA0000000 ex_pkts 2 0 0 1 (ex_world (ex_rx_running 0)) w'"
proof -
  let ?w = "ex_world (ex_rx_running 0)"
  have p0: "port_id (ex_rx_running 0) = 0" by (simp add: ex_engine_def zero_engine_def)
  have poll: "rx_poll (\<lambda>_. 1) (desc_used (ex_rx_running 0)) (Suc RX_RETRY) 0 = Some 0"
    using ex_poll [of 1 0] by simp
  obtain n w' where recv: "xdma_recv_pkts (\<lambda>_. 1) (\<lambda>_. (0, 60)) 0x300 ex_pkts 2 ?w = Inr (n, ex_pkts, w')"
    "unat n = 1"
    using recv_some [OF ex_rx_run _ poll refl, of "\<lambda>_. (0, 60)" 2] by (auto simp: ex_pkts_length)
  have "rx_steps 0x300 ex_pkts 2 ?w (0 + unat n) w'"
    by (rule rx_steps.call [OF rx_steps.start _ _ _ recv(1)])
       (auto simp: ex_world_def ex_pkts_length)
  then have steps: "rx_steps 0x300 ex_pkts 2 ?w 1 w'" by (simp add: recv(2))
  with rx_exactly_once [OF steps ex_rx_run [of 0]] show ?thesis by (auto simp: p0)
qed

theorem poll_rx_result_witness:
  "\<exists>n w'. xdma_poll_rx_complete (\<lambda>_. 7) 0x100 0 (ex_world (ex_engine C2H)) = Inr (n, w') \<and> n = 7"
proof -
  define cp where "cp = zero_engine\<lparr>poll_mode_addr_virt := 0x1400\<rparr>"
  have "xdevs (ex_world (ex_engine C2H)) 0x100 = Some ex_dev" "0 < int (length (engine_c2h ex_dev))"
    "cp = engine_c2h ex_dev ! nat 0" "poll_mode_addr_virt cp \<noteq> 0"
    "words (ex_world (ex_engine C2H)) (poll_mode_addr_virt cp) = Some 0"
    by (simp_all add: ex_world_def ex_dev_def cp_def)
  moreover have "desc_used cp = 0" by (simp add: cp_def zero_engine_def)
  ultimately obtain n w' where
    call: "xdma_poll_rx_complete (\<lambda>_. 7) 0x100 0 (ex_world (ex_engine C2H)) = Inr (n, w')"
    and all: "\<forall>k \<le> (1000 :: nat). (7 :: u32) = 7 \<and> (7 :: u32) \<noteq> desc_used cp \<and>
      (\<forall>j < k. (7 :: u32) \<noteq> 7 \<or> 7 = desc_used cp) \<longrightarrow> n = 7"
    using poll_rx_result [of "0x100" "ex_world (ex_engine C2H)" ex_dev 0 cp 0 "\<lambda>_. 7"] by fastforce
  from all \<open>desc_used cp = 0\<close> have "n = 7" by (auto dest: spec [of _ 0])
  with call show ?thesis by blast
qed

end
