(* ===== verification/Isolation.thy ===== *)
theory Isolation
  imports Rx
begin

text \<open>
  Isolation of the queues: a burst on one queue depends on that queue alone and touches
  nothing of another.

  A queue is the address of its engine, the engine as it was set up and the set of mbufs its
  bursts use.  \<open>same_view\<close> compares what two memories hold of a queue, \<open>outside_same\<close> what
  an operation leaves alone, and \<open>tracks\<close> relates two runs of the same operation started in
  memories with the same view: same view, nothing else changed, same register writes.  Every
  operation of the two data paths keeps \<open>tracks\<close>; the theorem on interleaved bursts follows
  by induction over the schedule.
\<close>

section \<open>Queues and what belongs to them\<close>

record queue =
  q_addr :: u64
  q_engine :: xdma_engine
  q_mbufs :: "u64 set"

text \<open>An engine that differs from the one set up only in what the data path changes.\<close>

definition same_geometry :: "xdma_engine \<Rightarrow> xdma_engine \<Rightarrow> bool" where
  "same_geometry e0 e \<longleftrightarrow>
     e = e0\<lparr>running := running e, desc_used := desc_used e, status := status e\<rparr>"

text \<open>The words the hardware reports in: the completion count and, of a receive queue, the stream words.\<close>

definition queue_words :: "queue \<Rightarrow> u64 set" where
  "queue_words Q = insert (poll_mode_addr_virt (q_engine Q))
     (if dir (q_engine Q) = H2C then {} else {stream_wb_addr (q_engine Q), stream_wb_addr (q_engine Q) + 4})"

text \<open>The bytes of the queue's descriptors.\<close>

definition ring_bytes :: "queue \<Rightarrow> u64 set" where
  "ring_bytes Q = {a. unat (a - desc_ring (q_engine Q)) < sizeof_xdma_desc * unat (desc_max (q_engine Q))}"

text \<open>The segments of the queue's packets are again mbufs of the queue.\<close>

definition closed_mbufs :: "u64 set \<Rightarrow> (u64 \<rightharpoonup> rte_mbuf) \<Rightarrow> bool" where
  "closed_mbufs M m \<longleftrightarrow> (\<forall>a \<in> M. \<forall>x. m a = Some x \<longrightarrow> mb_next x = 0 \<or> mb_next x \<in> M)"

text \<open>The registers of the queue's channel in its direction.\<close>

definition engine_regs :: "dma_data_direction \<Rightarrow> u32 list" where
  "engine_regs d = (if d = H2C
     then [H2C_CHANNEL_CTRL, H2C_POLL_MODE_LO_WB_ADDR, H2C_POLL_MODE_HI_WB_ADDR,
           H2C_SGDMA_DESC_LO_ADDR, H2C_SGDMA_DESC_HI_ADDR, H2C_SGDMA_DESC_ADJ]
     else [C2H_CHANNEL_CTRL, C2H_POLL_MODE_LO_WB_ADDR, C2H_POLL_MODE_HI_WB_ADDR,
           C2H_SGDMA_DESC_LO_ADDR, C2H_SGDMA_DESC_HI_ADDR])"

definition queue_regs :: "queue \<Rightarrow> world \<Rightarrow> u64 set" where
  "queue_regs Q w = {a + ucast (chan_reg reg (q_engine Q)) | a reg.
     bar_base (xdev (q_engine Q)) config_bar_idx w = Inr a \<and> reg \<in> set (engine_regs (dir (q_engine Q)))}"

text \<open>The stop entries of a device's function table hold the functions of their direction.\<close>

definition table_directed :: "u64 \<Rightarrow> world \<Rightarrow> bool" where
  "table_directed h w \<longleftrightarrow> (case hw_access_of h w of Inl _ \<Rightarrow> True | Inr t \<Rightarrow>
     hw_tx_engine_stop t \<noteq> Some Fn_xdma_rx_engine_stop \<and> hw_rx_engine_stop t \<noteq> Some Fn_xdma_tx_engine_stop)"

definition same_view :: "queue \<Rightarrow> world \<Rightarrow> world \<Rightarrow> bool" where
  "same_view Q w v \<longleftrightarrow>
     (\<exists>e. engines w (q_addr Q) = Some e \<and> engines v (q_addr Q) = Some e \<and> same_geometry (q_engine Q) e) \<and>
     rings w (desc_ring (q_engine Q)) = rings v (desc_ring (q_engine Q)) \<and>
     (\<forall>a \<in> queue_words Q. words w a = words v a) \<and>
     (\<forall>a \<in> q_mbufs Q. mbufs w a = mbufs v a) \<and> closed_mbufs (q_mbufs Q) (mbufs w) \<and>
     xdevs w = xdevs v \<and> hw_tables w = hw_tables v \<and> table_directed (xdev (q_engine Q)) w"

definition outside_same :: "queue \<Rightarrow> world \<Rightarrow> world \<Rightarrow> bool" where
  "outside_same Q w0 w \<longleftrightarrow>
     (\<forall>p. p \<noteq> q_addr Q \<longrightarrow> engines w p = engines w0 p) \<and>
     (\<forall>b. b \<noteq> desc_ring (q_engine Q) \<longrightarrow> rings w b = rings w0 b) \<and>
     (\<forall>a. a \<notin> queue_words Q \<longrightarrow> words w a = words w0 a) \<and>
     (\<forall>a. a \<notin> q_mbufs Q \<longrightarrow> mbufs w a = mbufs w0 a) \<and>
     xdevs w = xdevs w0 \<and> hw_tables w = hw_tables w0 \<and> eth_devs w = eth_devs w0 \<and>
     macs w = macs w0 \<and> blocks w = blocks w0 \<and> zones w = zones w0 \<and> allocs w = allocs w0"

definition tracks :: "queue \<Rightarrow> world \<Rightarrow> world \<Rightarrow> world \<Rightarrow> world \<Rightarrow> bool" where
  "tracks Q w0 v0 w v \<longleftrightarrow> same_view Q w v \<and> outside_same Q w0 w \<and> outside_same Q v0 v \<and>
     (\<exists>t. mmio w = mmio w0 @ t \<and> mmio v = mmio v0 @ t \<and> fst ` set t \<subseteq> queue_regs Q w0)"

section \<open>Bursts and schedules\<close>

text \<open>
  A burst is a call of one of the two burst functions with what the hardware answers during
  the call.  A schedule is a sequence of bursts on engines, given by their addresses; the
  result of a burst is the number it returns and the array of packets after it.
\<close>

datatype burst =
    Send "nat \<Rightarrow> u32" "u64 list" u16
  | Receive "nat \<Rightarrow> u32" "nat \<Rightarrow> u32 \<times> u32" "u64 list" u16

primrec do_burst :: "u64 \<Rightarrow> burst \<Rightarrow> world \<Rightarrow> fault + u16 \<times> u64 list \<times> world" where
  "do_burst p (Send hw ps nb) w =
     andThen (xdma_xmit_pkts hw p ps nb w) (\<lambda>(n, w). Inr (n, ps, w))"
| "do_burst p (Receive hw swb ps nb) w = xdma_recv_pkts hw swb p ps nb w"

fun run_bursts :: "(u64 \<times> burst) list \<Rightarrow> world \<Rightarrow> fault + (u64 \<times> u16 \<times> u64 list) list \<times> world" where
  "run_bursts [] w = Inr ([], w)"
| "run_bursts ((p, b) # bs) w =
     andThen (do_burst p b w) (\<lambda>(n, ps, w).
     andThen (run_bursts bs w) (\<lambda>(rs, w). Inr ((p, n, ps) # rs, w)))"

text \<open>A burst a queue accepts: in its direction and with its own mbufs.\<close>

primrec burst_fits :: "queue \<Rightarrow> burst \<Rightarrow> bool" where
  "burst_fits Q (Send hw ps nb) \<longleftrightarrow> dir (q_engine Q) = H2C \<and> set ps \<subseteq> q_mbufs Q"
| "burst_fits Q (Receive hw swb ps nb) \<longleftrightarrow> dir (q_engine Q) \<noteq> H2C \<and> set ps \<subseteq> q_mbufs Q"

text \<open>
  Two queues that share no memory and no register.  The words of a queue must lie outside
  the other's ring as well: the stream words lie behind the zone of their queue.
\<close>

definition apart :: "world \<Rightarrow> queue \<Rightarrow> queue \<Rightarrow> bool" where
  "apart w P Q \<longleftrightarrow> q_addr P \<noteq> q_addr Q \<and> desc_ring (q_engine P) \<noteq> desc_ring (q_engine Q) \<and>
     queue_words P \<inter> queue_words Q = {} \<and> queue_words P \<inter> ring_bytes Q = {} \<and>
     ring_bytes P \<inter> queue_words Q = {} \<and> q_mbufs P \<inter> q_mbufs Q = {} \<and>
     queue_regs P w \<inter> queue_regs Q w = {}"

section \<open>Two runs of one operation\<close>

text \<open>\<open>tandem R m n\<close>: if \<open>m\<close> returns, so does \<open>n\<close>, and \<open>R\<close> relates the results.\<close>

definition tandem :: "('a \<Rightarrow> 'b \<Rightarrow> bool) \<Rightarrow> fault + 'a \<Rightarrow> fault + 'b \<Rightarrow> bool" where
  "tandem R m n \<longleftrightarrow> (\<forall>x. m = Inr x \<longrightarrow> (\<exists>y. n = Inr y \<and> R x y))"

lemma tandem_Inl [simp]: "tandem R (Inl e) n"
  by (simp add: tandem_def)

lemma tandem_Inr [simp]: "tandem R (Inr x) n \<longleftrightarrow> (\<exists>y. n = Inr y \<and> R x y)"
  by (auto simp: tandem_def)

lemma tandem_seq:
  "tandem R m n \<Longrightarrow> (\<And>x y. R x y \<Longrightarrow> tandem S (f x) (g y)) \<Longrightarrow> tandem S (andThen m f) (andThen n g)"
  unfolding tandem_def by (fastforce simp: andThen_eq_Inr)

lemma tandem_same: "m = n \<Longrightarrow> (\<And>x. m = Inr x \<Longrightarrow> tandem S (f x) (g x)) \<Longrightarrow> tandem S (andThen m f) (andThen n g)"
  by (auto simp: tandem_def andThen_eq_Inr)

lemma tandem_mono: "tandem R m n \<Longrightarrow> (\<And>x y. R x y \<Longrightarrow> S x y) \<Longrightarrow> tandem S m n"
  by (auto simp: tandem_def)

lemma tandem_for_loop:
  assumes "R s t" and "\<And>i s t. R s t \<Longrightarrow> tandem R (b i s) (c i t)"
  shows "tandem R (for_loop a n b s) (for_loop a n c t)"
  using assms(1)
proof (induction n arbitrary: a s t)
  case 0
  then show ?case by simp
next
  case (Suc n)
  then show ?case by (simp add: tandem_seq [OF assms(2)])
qed

text \<open>A result that carries the memory.\<close>

abbreviation tandem_snd where
  "tandem_snd Q w v \<equiv> tandem (\<lambda>x y. fst x = fst y \<and> tracks Q w v (snd x) (snd y))"

lemma tandem_snd_seq:
  "tandem (\<lambda>x y. fst x = fst y \<and> R (snd x) (snd y)) m n \<Longrightarrow>
   (\<And>a x y. R x y \<Longrightarrow> tandem S (f (a, x)) (g (a, y))) \<Longrightarrow> tandem S (andThen m f) (andThen n g)"
  by (erule tandem_seq) auto

section \<open>The view of a queue under updates\<close>

lemma same_view_eqs:
  "same_view Q w v \<Longrightarrow> rings w (desc_ring (q_engine Q)) = rings v (desc_ring (q_engine Q))"
  "same_view Q w v \<Longrightarrow> xdevs w = xdevs v" "same_view Q w v \<Longrightarrow> hw_tables w = hw_tables v"
  "same_view Q w v \<Longrightarrow> a \<in> queue_words Q \<Longrightarrow> words w a = words v a"
  "same_view Q w v \<Longrightarrow> a \<in> q_mbufs Q \<Longrightarrow> mbufs w a = mbufs v a"
  by (simp_all add: same_view_def)

lemma tracks_view: "tracks Q w0 v0 w v \<Longrightarrow> same_view Q w v"
  by (simp add: tracks_def)

lemmas tracks_eqs = same_view_eqs [OF tracks_view]

lemma table_directed_cong:
  "xdevs w = xdevs v \<Longrightarrow> hw_tables w = hw_tables v \<Longrightarrow> table_directed h w = table_directed h v"
  by (simp add: table_directed_def hw_access_of_def)

lemma table_directed_upd [simp]:
  "table_directed h (w\<lparr>engines := x1\<rparr>) = table_directed h w"
  "table_directed h (w\<lparr>rings := x2\<rparr>) = table_directed h w"
  "table_directed h (w\<lparr>words := x3\<rparr>) = table_directed h w"
  "table_directed h (w\<lparr>mbufs := x4\<rparr>) = table_directed h w"
  "table_directed h (mmio_store a x w) = table_directed h w"
  by (rule table_directed_cong; simp)+

lemma tracks_refl: "same_view Q w v \<Longrightarrow> tracks Q w v w v"
  by (simp add: tracks_def outside_same_def)

lemma tracks_engine:
  "tracks Q w0 v0 w v \<Longrightarrow> same_geometry (q_engine Q) e \<Longrightarrow>
   tracks Q w0 v0 (w\<lparr>engines := (engines w)(q_addr Q \<mapsto> e)\<rparr>) (v\<lparr>engines := (engines v)(q_addr Q \<mapsto> e)\<rparr>)"
  by (auto simp: tracks_def same_view_def outside_same_def)

lemma tracks_ring:
  "tracks Q w0 v0 w v \<Longrightarrow> b = desc_ring (q_engine Q) \<Longrightarrow>
   tracks Q w0 v0 (w\<lparr>rings := (rings w)(b \<mapsto> r)\<rparr>) (v\<lparr>rings := (rings v)(b \<mapsto> r)\<rparr>)"
  by (auto simp: tracks_def same_view_def outside_same_def)

lemma tracks_word:
  "tracks Q w0 v0 w v \<Longrightarrow> a \<in> queue_words Q \<Longrightarrow>
   tracks Q w0 v0 (w\<lparr>words := (words w)(a \<mapsto> x)\<rparr>) (v\<lparr>words := (words v)(a \<mapsto> x)\<rparr>)"
  by (auto simp: tracks_def same_view_def outside_same_def)

lemma tracks_mbuf:
  "tracks Q w0 v0 w v \<Longrightarrow> a \<in> q_mbufs Q \<Longrightarrow> mb_next x = 0 \<Longrightarrow>
   tracks Q w0 v0 (w\<lparr>mbufs := (mbufs w)(a \<mapsto> x)\<rparr>) (v\<lparr>mbufs := (mbufs v)(a \<mapsto> x)\<rparr>)"
  by (auto simp: tracks_def same_view_def outside_same_def closed_mbufs_def)

lemma tracks_store:
  "tracks Q w0 v0 w v \<Longrightarrow> a \<in> queue_regs Q w0 \<Longrightarrow>
   tracks Q w0 v0 (mmio_store a x w) (mmio_store a x v)"
  by (auto simp: tracks_def same_view_def outside_same_def)

lemma same_geometry_iff:
  "same_geometry e0 e \<longleftrightarrow> (\<exists>b u s. e = e0\<lparr>running := b, desc_used := u, status := s\<rparr>)"
  by (auto simp: same_geometry_def)

lemma same_geometry_upd:
  assumes "same_geometry e0 e"
  shows "same_geometry e0 (e\<lparr>running := b\<rparr>)" "same_geometry e0 (e\<lparr>desc_used := u\<rparr>)"
    "same_geometry e0 (e\<lparr>status := s\<rparr>)"
proof -
  obtain b' u' s' where "e = e0\<lparr>running := b', desc_used := u', status := s'\<rparr>"
    using assms by (auto simp: same_geometry_iff)
  then show "same_geometry e0 (e\<lparr>running := b\<rparr>)" "same_geometry e0 (e\<lparr>desc_used := u\<rparr>)"
    "same_geometry e0 (e\<lparr>status := s\<rparr>)" by (simp_all add: same_geometry_def)
qed

lemma same_geometryD:
  assumes "same_geometry e0 e"
  shows "xdev e = xdev e0" "dir e = dir e0" "channel e = channel e0" "desc_max e = desc_max e0"
    "desc_ring e = desc_ring e0" "poll_mode_addr_virt e = poll_mode_addr_virt e0"
    "virt2phy_offset e = virt2phy_offset e0" "port_id e = port_id e0"
    "stream_wb_addr e = stream_wb_addr e0" "c2h_fill e = c2h_fill e0"
  using assms by (auto simp: same_geometry_iff)

section \<open>The primitives\<close>

lemma tandem_engine:
  assumes "tracks Q w0 v0 w v" and "p = q_addr Q"
    and "\<And>e. engines w p = Some e \<Longrightarrow> same_geometry (q_engine Q) e \<Longrightarrow> tandem S (f e) (g e)"
  shows "tandem S (andThen (deref (engines w) p) f) (andThen (deref (engines v) p) g)"
proof -
  obtain e where "engines w p = Some e" "engines v p = Some e" "same_geometry (q_engine Q) e"
    using tracks_view [OF assms(1)] assms(2) by (auto simp: same_view_def)
  with assms(3) show ?thesis by (cases "p = 0") (simp_all add: deref_def)
qed

lemma tandem_mbuf:
  assumes "tracks Q w0 v0 w v" and "a = 0 \<or> a \<in> q_mbufs Q"
    and "\<And>m. a \<in> q_mbufs Q \<Longrightarrow> mb_next m = 0 \<or> mb_next m \<in> q_mbufs Q \<Longrightarrow> tandem S (f m) (g m)"
  shows "tandem S (andThen (deref (mbufs w) a) f) (andThen (deref (mbufs v) a) g)"
proof (cases "a = 0")
  case True
  then show ?thesis by (simp add: deref_def)
next
  case False
  with assms have a: "a \<in> q_mbufs Q" "mbufs w a = mbufs v a" by (auto simp: tracks_eqs)
  show ?thesis
  proof (rule tandem_same)
    show "deref (mbufs w) a = deref (mbufs v) a" using a(2) by (simp add: deref_def)
    fix m assume "deref (mbufs w) a = Inr m"
    then have "mb_next m = 0 \<or> mb_next m \<in> q_mbufs Q"
      using tracks_view [OF assms(1)] a(1) by (auto simp: deref_eq_Inr same_view_def closed_mbufs_def)
    then show "tandem S (f m) (g m)" by (rule assms(3) [OF a(1)])
  qed
qed

lemma deref_word_cong: "tracks Q w0 v0 w v \<Longrightarrow> a \<in> queue_words Q \<Longrightarrow> deref (words w) a = deref (words v) a"
  by (simp add: deref_def tracks_eqs)

lemma store_word_tracks:
  "tracks Q w0 v0 w v \<Longrightarrow> a \<in> queue_words Q \<Longrightarrow> tandem (tracks Q w0 v0) (store_word a x w) (store_word a x v)"
  unfolding store_word_def by (rule tandem_same) (simp_all add: deref_word_cong tracks_word)

lemma update_ring_tracks:
  "tracks Q w0 v0 w v \<Longrightarrow> b = desc_ring (q_engine Q) \<Longrightarrow>
   tandem (tracks Q w0 v0) (update_ring b f w) (update_ring b f v)"
  unfolding update_ring_def
  by (rule tandem_same, simp add: deref_def tracks_eqs, rule tandem_same) (simp_all add: tracks_ring)

lemma queue_regs_cong: "xdevs w = xdevs v \<Longrightarrow> queue_regs Q w = queue_regs Q v"
  using bar_base_cong [of w v] by (simp add: queue_regs_def)

lemma reg_write_tracks:
  assumes t: "tracks Q w0 v0 w v" and h: "h = xdev (q_engine Q)"
    and off: "reg \<in> set (engine_regs (dir (q_engine Q)))" "same_geometry (q_engine Q) e"
  shows "tandem (tracks Q w0 v0) (xdma_reg_write h (chan_reg reg e) x w) (xdma_reg_write h (chan_reg reg e) x v)"
  unfolding xdma_reg_write_def
proof (rule tandem_same)
  show "bar_base h config_bar_idx w = bar_base h config_bar_idx v"
    by (rule bar_base_cong) (simp add: tracks_eqs [OF t])
  fix a assume "bar_base h config_bar_idx w = Inr a"
  moreover have "queue_regs Q w0 = queue_regs Q w"
    by (rule queue_regs_cong) (use t in \<open>simp add: tracks_def outside_same_def\<close>)
  moreover have "chan_reg reg e = chan_reg reg (q_engine Q)"
    by (rule chan_reg_cong) (rule same_geometryD [OF off(2)])
  ultimately have "a + ucast (chan_reg reg e) \<in> queue_regs Q w0"
    using off(1) h by (auto simp: queue_regs_def)
  then show "tandem (tracks Q w0 v0) (Inr (mmio_store (a + ucast (chan_reg reg e)) x w))
      (Inr (mmio_store (a + ucast (chan_reg reg e)) x v))"
    by (simp add: tracks_store [OF t])
qed

lemma bus_program_tracks:
  assumes "tracks Q w0 v0 w v" and "h = xdev (q_engine Q)" and "same_geometry (q_engine Q) e"
    and "\<forall>x \<in> set xs. \<exists>reg \<in> set (engine_regs (dir (q_engine Q))). fst x = chan_reg reg e"
  shows "tandem (tracks Q w0 v0) (bus_program (xdma_reg_write h) xs w) (bus_program (xdma_reg_write h) xs v)"
  using assms(1,4)
proof (induction xs arbitrary: w v)
  case Nil
  then show ?case by (simp add: bus_program.simps)
next
  case (Cons x xs)
  then obtain reg where reg: "reg \<in> set (engine_regs (dir (q_engine Q)))" "fst x = chan_reg reg e" by auto
  show ?case
    unfolding bus_program.simps reg(2)
    by (rule tandem_seq [OF reg_write_tracks [OF Cons.prems(1) assms(2) reg(1) assms(3)]])
       (use Cons in simp)
qed

lemma hw_access_cong: "tracks Q w0 v0 w v \<Longrightarrow> hw_access_of h w = hw_access_of h v"
  by (simp add: hw_access_of_def tracks_eqs)

section \<open>The engine operations\<close>

lemma tx_start_tracks:
  assumes t: "tracks Q w0 v0 w v" and "dir (q_engine Q) = H2C"
  shows "tandem (tracks Q w0 v0) (xdma_tx_engine_start (q_addr Q) f adj w) (xdma_tx_engine_start (q_addr Q) f adj v)"
  unfolding xdma_tx_engine_start_def Let_def
  by (rule tandem_engine [OF t refl], rule bus_program_tracks [of Q w0 v0])
     (use assms in \<open>auto intro!: tracks_engine same_geometry_upd same_geometryD simp: engine_regs_def\<close>)

lemma rx_start_tracks:
  assumes t: "tracks Q w0 v0 w v" and "dir (q_engine Q) \<noteq> H2C"
  shows "tandem (tracks Q w0 v0) (xdma_rx_engine_start (q_addr Q) f w) (xdma_rx_engine_start (q_addr Q) f v)"
  unfolding xdma_rx_engine_start_def Let_def
  by (rule tandem_engine [OF t refl], rule bus_program_tracks [of Q w0 v0])
     (use assms in \<open>auto intro!: tracks_engine same_geometry_upd same_geometryD simp: engine_regs_def\<close>)

lemma ring_clear_tracks:
  "tracks Q w0 v0 w v \<Longrightarrow> same_geometry (q_engine Q) e \<Longrightarrow>
   tandem (tracks Q w0 v0) (xdma_desc_ring_clear e w) (xdma_desc_ring_clear e v)"
  unfolding xdma_desc_ring_clear_def by (rule update_ring_tracks) (simp_all add: same_geometryD)

lemma wb_word [intro]: "same_geometry (q_engine Q) e \<Longrightarrow> poll_mode_addr_virt e \<in> queue_words Q"
  by (simp add: same_geometryD queue_words_def)

lemma tx_stop_tracks:
  assumes t: "tracks Q w0 v0 w v" and d: "dir (q_engine Q) = H2C"
  shows "tandem (tracks Q w0 v0) (xdma_tx_engine_stop (q_addr Q) w) (xdma_tx_engine_stop (q_addr Q) v)"
  unfolding xdma_tx_engine_stop_def Let_def
  by (rule tandem_engine [OF t refl], rule tandem_seq [OF reg_write_tracks [OF t]],
      simp add: same_geometryD, simp add: engine_regs_def d, assumption,
      rule tandem_seq [OF ring_clear_tracks], assumption+)
     (auto intro!: store_word_tracks tracks_engine same_geometry_upd)

lemma rx_stop_tracks:
  assumes t: "tracks Q w0 v0 w v" and d: "dir (q_engine Q) \<noteq> H2C"
  shows "tandem (tracks Q w0 v0) (xdma_rx_engine_stop (q_addr Q) w) (xdma_rx_engine_stop (q_addr Q) v)"
  unfolding xdma_rx_engine_stop_def Let_def
  by (rule tandem_engine [OF t refl], rule tandem_seq [OF reg_write_tracks [OF t]],
      simp add: same_geometryD, simp add: engine_regs_def d, assumption,
      rule tandem_seq [OF ring_clear_tracks], assumption+,
      rule tandem_seq [OF store_word_tracks], assumption)
     (auto intro!: tracks_engine same_geometry_upd)

text \<open>
  The calls through the function table: the table is the device's, which no burst changes,
  and a complete table leads to the functions above.
\<close>

lemma call_start_tracks:
  assumes "tracks Q w0 v0 w v"
  shows "dir (q_engine Q) = H2C \<Longrightarrow>
      tandem (tracks Q w0 v0) (call_tx_start h (q_addr Q) f adj w) (call_tx_start h (q_addr Q) f adj v)"
    and "dir (q_engine Q) \<noteq> H2C \<Longrightarrow>
      tandem (tracks Q w0 v0) (call_rx_start h (q_addr Q) f w) (call_rx_start h (q_addr Q) f v)"
  unfolding call_tx_start_def call_rx_start_def
  using tx_start_tracks [OF assms] rx_start_tracks [OF assms]
  by (auto intro!: tandem_same hw_access_cong [OF assms] split: option.split tx_start_fn.split rx_start_fn.split)

lemma call_stop_tracks:
  assumes "tracks Q w0 v0 w v" and "h = xdev (q_engine Q)"
  shows "dir (q_engine Q) = H2C \<Longrightarrow>
      tandem (tracks Q w0 v0) (call_tx_stop h (q_addr Q) w) (call_tx_stop h (q_addr Q) v)"
    and "dir (q_engine Q) \<noteq> H2C \<Longrightarrow>
      tandem (tracks Q w0 v0) (call_rx_stop h (q_addr Q) w) (call_rx_stop h (q_addr Q) v)"
  unfolding call_tx_stop_def call_rx_stop_def engine_stop_fn_def
  using tx_stop_tracks [OF assms(1)] rx_stop_tracks [OF assms(1)] tracks_view [OF assms(1)] assms(2)
  by (auto intro!: tandem_same hw_access_cong [OF assms(1)] simp: table_directed_def same_view_def
      split: option.split engine_stop_fn.split)

section \<open>The ring\<close>

lemma get_desc_tracks:
  assumes t: "tracks Q w0 v0 w v"
  shows "tandem_snd Q w0 v0 (get_desc (q_addr Q) w) (get_desc (q_addr Q) v)"
  unfolding get_desc_def Let_def
  by (rule tandem_engine [OF t refl]) (auto intro!: tracks_engine [OF t] same_geometry_upd)

lemma desc_at_tracks:
  assumes t: "tracks Q w0 v0 w v"
  shows "tandem (tracks Q w0 v0) (desc_at (q_addr Q) i f w) (desc_at (q_addr Q) i f v)"
  unfolding desc_at_def
  by (rule tandem_engine [OF t refl]) (simp add: update_ring_tracks [OF t] same_geometryD)

section \<open>The transmit path\<close>

lemma h2c_loop_tracks:
  "tracks Q w0 v0 w v \<Longrightarrow> mb = 0 \<or> mb \<in> q_mbufs Q \<Longrightarrow>
   tandem (tracks Q w0 v0) (h2c_desc_loop n mb (q_addr Q) w) (h2c_desc_loop n mb (q_addr Q) v)"
proof (induction n arbitrary: mb w v)
  case 0
  then show ?case by simp
next
  case (Suc n)
  show ?case
  proof (cases "mb = 0")
    case True
    with Suc.prems show ?thesis by simp
  next
    case False
    have "tandem (tracks Q w0 v0)
      (andThen (deref (mbufs x) mb) (\<lambda>m. andThen (desc_at (q_addr Q) i (h2c_fill (n = 0) m) x)
         (h2c_desc_loop n (mb_next m) (q_addr Q))))
      (andThen (deref (mbufs y) mb) (\<lambda>m. andThen (desc_at (q_addr Q) i (h2c_fill (n = 0) m) y)
         (h2c_desc_loop n (mb_next m) (q_addr Q))))"
      if "tracks Q w0 v0 x y" for i x y
      by (rule tandem_mbuf [OF that Suc.prems(2)], rule tandem_seq [OF desc_at_tracks [OF that]])
         (rule Suc.IH)
    then show ?thesis
      using False by (auto intro!: tandem_snd_seq [OF get_desc_tracks [OF Suc.prems(1)]])
  qed
qed

lemma h2c_set_tracks:
  assumes "tracks Q w0 v0 w v" and "mb \<in> q_mbufs Q"
  shows "tandem (tracks Q w0 v0) (xdma_h2c_desc_set (q_addr Q) mb w) (xdma_h2c_desc_set (q_addr Q) mb v)"
  unfolding xdma_h2c_desc_set_def
  by (rule tandem_mbuf [OF assms(1)]) (simp_all add: assms h2c_loop_tracks)

lemma tandem_load:
  "(\<And>x. x \<in> set xs \<Longrightarrow> tandem S (f x) (g x)) \<Longrightarrow> tandem S (andThen (load_idx xs i) f) (andThen (load_idx xs i) g)"
  by (simp add: load_idx_def)

lemma tx_fill_tracks:
  "tracks Q w0 v0 w v \<Longrightarrow> set ps \<subseteq> q_mbufs Q \<Longrightarrow>
   tandem_snd Q w0 v0 (tx_fill ps n c av (q_addr Q) w) (tx_fill ps n c av (q_addr Q) v)"
proof (induction n arbitrary: c av w v)
  case 0
  then show ?case by simp
next
  case (Suc n)
  show ?case
    unfolding tx_fill.simps Let_def
    by (rule tandem_load, rule tandem_mbuf [OF Suc.prems(1)])
       (use Suc in \<open>auto intro!: tandem_seq [OF h2c_set_tracks [OF Suc.prems(1)]]\<close>)
qed

lemma adjacency_tracks:
  "tracks Q w0 v0 w v \<Longrightarrow>
   tandem (tracks Q w0 v0) (adjacency_loop c (q_addr Q) m w) (adjacency_loop c (q_addr Q) m v)"
  unfolding adjacency_loop_def by (rule tandem_for_loop) (simp_all add: desc_at_tracks)

lemma xmit_prepare_tracks:
  assumes t: "tracks Q w0 v0 w v" and "set ps \<subseteq> q_mbufs Q"
  shows "tandem_snd Q w0 v0 (xmit_prepare (q_addr Q) ps nb w) (xmit_prepare (q_addr Q) ps nb v)"
proof -
  have after: "tandem_snd Q w0 v0
      (andThen (deref (engines x) (q_addr Q)) (\<lambda>engine.
       andThen (desc_at (q_addr Q) (unat (desc_used engine)) f x) (\<lambda>w.
       andThen (adjacency_loop c (q_addr Q) (desc_max engine) w) (\<lambda>w. Inr (c, w)))))
      (andThen (deref (engines y) (q_addr Q)) (\<lambda>engine.
       andThen (desc_at (q_addr Q) (unat (desc_used engine)) f y) (\<lambda>w.
       andThen (adjacency_loop c (q_addr Q) (desc_max engine) w) (\<lambda>w. Inr (c, w)))))"
    if "tracks Q w0 v0 x y" for c f x y
    by (rule tandem_engine [OF that refl], rule tandem_seq [OF desc_at_tracks [OF that]],
        erule tandem_seq [OF adjacency_tracks]) simp
  show ?thesis
    unfolding xmit_prepare_def Let_def
    by (rule tandem_engine [OF t refl])
       (auto intro!: tandem_snd_seq [OF tx_fill_tracks [OF t assms(2)]] after)
qed

lemma xmit_tracks:
  assumes t: "tracks Q w0 v0 w v" and "set ps \<subseteq> q_mbufs Q" and d: "dir (q_engine Q) = H2C"
  shows "tandem_snd Q w0 v0 (xdma_xmit_pkts hw (q_addr Q) ps nb w) (xdma_xmit_pkts hw (q_addr Q) ps nb v)"
proof -
  have stop: "tandem_snd Q w0 v0
      (andThen (call_tx_stop (xdev e) (q_addr Q) (x\<lparr>words := (words x)(poll_mode_addr_virt e \<mapsto> n)\<rparr>)) (\<lambda>w. Inr (nb, w)))
      (andThen (call_tx_stop (xdev e) (q_addr Q) (y\<lparr>words := (words y)(poll_mode_addr_virt e \<mapsto> n)\<rparr>)) (\<lambda>w. Inr (nb, w)))"
    if "tracks Q w0 v0 x y" "same_geometry (q_engine Q) e" for e n x y
    by (rule tandem_seq [OF call_stop_tracks(1) [OF tracks_word]])
       (use that d in \<open>auto simp: same_geometryD(1)\<close>)
  have wait: "tandem_snd Q w0 v0
      (andThen (deref (words x) (poll_mode_addr_virt e)) (\<lambda>_. case tx_wait hw nb 0 of None \<Rightarrow> Inl Hang
       | Some k \<Rightarrow> andThen (call_tx_stop (xdev e) (q_addr Q) (x\<lparr>words := (words x)(poll_mode_addr_virt e \<mapsto> hw k)\<rparr>)) (\<lambda>w. Inr (nb, w))))
      (andThen (deref (words y) (poll_mode_addr_virt e)) (\<lambda>_. case tx_wait hw nb 0 of None \<Rightarrow> Inl Hang
       | Some k \<Rightarrow> andThen (call_tx_stop (xdev e) (q_addr Q) (y\<lparr>words := (words y)(poll_mode_addr_virt e \<mapsto> hw k)\<rparr>)) (\<lambda>w. Inr (nb, w))))"
    if "tracks Q w0 v0 x y" "same_geometry (q_engine Q) e" for e x y
    by (rule tandem_same, rule deref_word_cong [OF that(1) wb_word [OF that(2)]])
       (auto intro!: stop that split: option.split)
  have body: "tandem_snd Q w0 v0
      (andThen (xmit_prepare (q_addr Q) ps nb x) (\<lambda>(count, w).
       andThen (call_tx_start h (q_addr Q) f (adj count) w) g))
      (andThen (xmit_prepare (q_addr Q) ps nb y) (\<lambda>(count, w).
       andThen (call_tx_start h (q_addr Q) f (adj count) w) g))"
    if "tracks Q w0 v0 x y" "\<And>x y. tracks Q w0 v0 x y \<Longrightarrow> tandem_snd Q w0 v0 (g x) (g y)"
    for h f adj x y and g :: "world \<Rightarrow> fault + u16 \<times> world"
    by (rule tandem_snd_seq [OF xmit_prepare_tracks [OF that(1) assms(2)]])
       (simp add: tandem_seq [OF call_start_tracks(1) [OF _ d]] that(2))
  show ?thesis
    unfolding xdma_xmit_pkts_def Let_def
    by (rule tandem_engine [OF t refl])
       (auto intro!: body wait tracks_engine [OF t] same_geometry_upd intro: t)
qed

section \<open>The receive path\<close>

lemma c2h_set_tracks:
  assumes t: "tracks Q w0 v0 w v" and "mb \<in> q_mbufs Q"
  shows "tandem (tracks Q w0 v0) (xdma_c2h_desc_set (q_addr Q) mb w) (xdma_c2h_desc_set (q_addr Q) mb v)"
  unfolding xdma_c2h_desc_set_def
  by (rule tandem_mbuf [OF t], simp add: assms(2), rule tandem_engine [OF t refl],
      rule tandem_snd_seq [OF get_desc_tracks [OF t]]) (simp add: desc_at_tracks)

lemma rx_fill_tracks:
  assumes "tracks Q w0 v0 w v" and "set ps \<subseteq> q_mbufs Q"
  shows "tandem (tracks Q w0 v0) (rx_fill ps n (q_addr Q) w) (rx_fill ps n (q_addr Q) v)"
  unfolding rx_fill_def
  by (rule tandem_for_loop [where R = "tracks Q w0 v0", OF assms(1)], rule tandem_load) (use assms(2) in \<open>auto intro: c2h_set_tracks\<close>)

lemma rx_post_tracks:
  assumes t: "tracks Q w0 v0 w v" and "set ps \<subseteq> q_mbufs Q" and d: "dir (q_engine Q) \<noteq> H2C"
  shows "tandem_snd Q w0 v0 (rx_post (q_addr Q) ps nb w) (rx_post (q_addr Q) ps nb v)"
  unfolding rx_post_def Let_def
  by (rule tandem_engine [OF t refl], rule tandem_seq [OF rx_fill_tracks [OF t assms(2)]],
      erule tandem_seq [OF call_start_tracks(2) [OF _ d]]) simp

text \<open>Preparing packets also rewrites the caller's array.\<close>

abbreviation tandem_arr where
  "tandem_arr Q w v \<equiv> tandem (\<lambda>x y. fst x = fst y \<and> set (fst x) \<subseteq> q_mbufs Q \<and> tracks Q w v (snd x) (snd y))"

lemma stream_words:
  "same_geometry (q_engine Q) e \<Longrightarrow> dir (q_engine Q) \<noteq> H2C \<Longrightarrow> stream_wb_addr e \<in> queue_words Q"
  "same_geometry (q_engine Q) e \<Longrightarrow> dir (q_engine Q) \<noteq> H2C \<Longrightarrow> stream_wb_addr e + 4 \<in> queue_words Q"
  by (simp_all add: same_geometryD(9) queue_words_def)

lemma prepare_one_tracks:
  assumes t: "tracks Q w0 v0 w v" and ps: "set ps \<subseteq> q_mbufs Q" and d: "dir (q_engine Q) \<noteq> H2C"
  shows "tandem (\<lambda>x y. fst x = fst y \<and> fst x \<in> q_mbufs Q \<and> tracks Q w0 v0 (snd x) (snd y))
    (prepare_segmented_packet swb (q_addr Q) i ps w) (prepare_segmented_packet swb (q_addr Q) i ps v)"
  unfolding prepare_segmented_packet_def Let_def
  by (rule tandem_engine [OF t refl], rule tandem_load,
      rule tandem_seq [OF store_word_tracks [OF t]], erule stream_words [OF _ d],
      rule tandem_mbuf, assumption, use ps in blast,
      rule tandem_seq [OF store_word_tracks], assumption, erule stream_words [OF _ d])
     (simp add: tracks_mbuf packet_of_def)

lemma prepare_round_tracks:
  assumes "fst s = fst t \<and> set (fst s) \<subseteq> q_mbufs Q \<and> tracks Q w0 v0 (snd s) (snd t)"
    and d: "dir (q_engine Q) \<noteq> H2C"
  shows "tandem_arr Q w0 v0 (prepare_round swb (q_addr Q) i s) (prepare_round swb (q_addr Q) i t)"
proof -
  obtain ps w v where s: "s = (ps, w)" "t = (ps, v)" "set ps \<subseteq> q_mbufs Q" "tracks Q w0 v0 w v"
    using assms(1) by (cases s, cases t) auto
  show ?thesis
    unfolding s prepare_round_def Let_def prod.case
    by (rule tandem_seq [OF prepare_one_tracks [OF s(4,3) d]])
       (use set_update_subsetI [OF s(3)] in \<open>auto intro!: tandem_load simp: store_idx_def\<close>)
qed

lemma prepare_tracks:
  assumes "tracks Q w0 v0 w v" and "set ps \<subseteq> q_mbufs Q" and "dir (q_engine Q) \<noteq> H2C"
  shows "tandem (\<lambda>x y. fst x = fst y \<and> fst (snd x) = fst (snd y) \<and> set (fst (snd x)) \<subseteq> q_mbufs Q \<and>
      tracks Q w0 v0 (snd (snd x)) (snd (snd y)))
    (prepare_packets swb (q_addr Q) ps n k w) (prepare_packets swb (q_addr Q) ps n k v)"
  unfolding prepare_packets_def
  by (rule tandem_seq, rule tandem_for_loop [where R = "\<lambda>s t. fst s = fst t \<and> set (fst s) \<subseteq> q_mbufs Q \<and>
        tracks Q w0 v0 (snd s) (snd t)"])
     (use assms in \<open>auto intro: prepare_round_tracks\<close>)

abbreviation tandem_rx where
  "tandem_rx Q w v \<equiv> tandem (\<lambda>x y. fst x = fst y \<and> fst (snd x) = fst (snd y) \<and>
     tracks Q w v (snd (snd x)) (snd (snd y)))"

lemma collect_tracks:
  assumes t: "tracks Q w0 v0 w v" and "set ps \<subseteq> q_mbufs Q" and "dir (q_engine Q) \<noteq> H2C"
  shows "tandem_rx Q w0 v0 (rx_collect hw swb (q_addr Q) ps w) (rx_collect hw swb (q_addr Q) ps v)"
proof -
  have done_case: "tandem_rx Q w0 v0
      (andThen (prepare_packets swb (q_addr Q) ps n k x) (\<lambda>(_, ps, w). Inr (c, ps, w\<lparr>engines := (engines w)(q_addr Q \<mapsto> e)\<rparr>)))
      (andThen (prepare_packets swb (q_addr Q) ps n k y) (\<lambda>(_, ps, w). Inr (c, ps, w\<lparr>engines := (engines w)(q_addr Q \<mapsto> e)\<rparr>)))"
    if "tracks Q w0 v0 x y" "same_geometry (q_engine Q) e" for e n k x y and c :: u16
    by (rule tandem_seq [OF prepare_tracks [OF that(1) assms(2,3)]]) (use that(2) in \<open>auto intro: tracks_engine\<close>)
  show ?thesis
    unfolding rx_collect_def Let_def
    by (rule tandem_engine [OF t refl])
       (auto intro!: tandem_seq [OF store_word_tracks [OF t]] done_case same_geometry_upd split: option.split)
qed

lemma tail_tracks:
  assumes t: "tracks Q w0 v0 w v" and "set ps \<subseteq> q_mbufs Q" and d: "dir (q_engine Q) \<noteq> H2C"
    and h: "h = xdev (q_engine Q)"
  shows "tandem_rx Q w0 v0 (rx_tail hw swb h (q_addr Q) ps nb w) (rx_tail hw swb h (q_addr Q) ps nb v)"
proof -
  have stop: "tandem_rx Q w0 v0
      (andThen (deref (engines x) (q_addr Q)) (\<lambda>e. andThen (if desc_used e = ucast nb then call_rx_stop h (q_addr Q) x else Inr x)
         (\<lambda>w. Inr (n, qs, w))))
      (andThen (deref (engines y) (q_addr Q)) (\<lambda>e. andThen (if desc_used e = ucast nb then call_rx_stop h (q_addr Q) y else Inr y)
         (\<lambda>w. Inr (n, qs, w))))"
    if "tracks Q w0 v0 x y" for x y and n :: u16 and qs :: "u64 list"
    by (rule tandem_engine [OF that refl]) (use that in \<open>auto intro!: tandem_seq [OF call_stop_tracks(2) [OF that h d]]\<close>)
  show ?thesis
    unfolding rx_tail_def by (rule tandem_seq [OF collect_tracks [OF t assms(2) d]]) (auto intro!: stop)
qed

lemma recv_tracks:
  assumes t: "tracks Q w0 v0 w v" and ps: "set ps \<subseteq> q_mbufs Q" and d: "dir (q_engine Q) \<noteq> H2C"
  shows "tandem_rx Q w0 v0 (xdma_recv_pkts hw swb (q_addr Q) ps nb w) (xdma_recv_pkts hw swb (q_addr Q) ps nb v)"
  unfolding xdma_recv_pkts_def Let_def
  by (rule tandem_engine [OF t refl], rule tandem_snd_seq [where R = "tracks Q w0 v0"])
     (auto intro!: rx_post_tracks [OF _ ps d] tracks_engine [OF t] same_geometry_upd tail_tracks [OF _ ps d] same_geometryD)

lemma do_burst_tracks:
  assumes "same_view Q w v" and "burst_fits Q b"
  shows "tandem_rx Q w v (do_burst (q_addr Q) b w) (do_burst (q_addr Q) b v)"
proof (cases b)
  case (Send hw ps nb)
  with assms(2) show ?thesis
    by (auto intro!: tandem_snd_seq [OF xmit_tracks [OF tracks_refl [OF assms(1)]]])
next
  case (Receive hw swb ps nb)
  with assms(2) recv_tracks [OF tracks_refl [OF assms(1)]] show ?thesis by simp
qed

section \<open>Interleaved bursts\<close>

lemma do_burst_step:
  assumes "same_view Q w v" and "burst_fits Q b" and "do_burst (q_addr Q) b w = Inr (n, ps, w')"
  shows "\<exists>v'. do_burst (q_addr Q) b v = Inr (n, ps, v') \<and> tracks Q w v w' v'"
  using do_burst_tracks [OF assms(1,2)] assms(3) by (auto simp: tandem_def)

text \<open>What a burst on one queue leaves of the view of another.\<close>

lemma same_view_other:
  assumes "outside_same P w w'" and "apart w P Q" and "same_view Q w v"
  shows "same_view Q w' v"
proof -
  have mbufs: "\<forall>a \<in> q_mbufs Q. mbufs w' a = mbufs w a" and words: "\<forall>a \<in> queue_words Q. words w' a = words w a"
    using assms(1,2) unfolding outside_same_def apart_def by blast+
  from mbufs have "closed_mbufs (q_mbufs Q) (mbufs w') = closed_mbufs (q_mbufs Q) (mbufs w)"
    by (simp add: closed_mbufs_def)
  moreover have "table_directed (xdev (q_engine Q)) w' = table_directed (xdev (q_engine Q)) w"
    by (rule table_directed_cong) (use assms(1) in \<open>simp_all add: outside_same_def\<close>)
  moreover have "engines w' (q_addr Q) = engines w (q_addr Q)"
    "rings w' (desc_ring (q_engine Q)) = rings w (desc_ring (q_engine Q))"
    "xdevs w' = xdevs w" "hw_tables w' = hw_tables w"
    using assms(1,2) by (auto simp: outside_same_def apart_def)
  ultimately show ?thesis using assms(3) mbufs words by (simp add: same_view_def)
qed

lemma apart_cong: "xdevs w' = xdevs w \<Longrightarrow> apart w' P Q = apart w P Q"
  using queue_regs_cong [of w' w] by (simp add: apart_def)

lemma same_view_self: "same_view Q w v \<Longrightarrow> same_view Q w w"
  by (auto simp: same_view_def)

text \<open>The writes that reach the registers of a queue.\<close>

definition reg_trace :: "queue \<Rightarrow> world \<Rightarrow> world \<Rightarrow> (u64 \<times> u32) list" where
  "reg_trace Q w0 w = filter (\<lambda>x. fst x \<in> queue_regs Q w0) (drop (length (mmio w0)) (mmio w))"

lemma tracks_trace:
  assumes "tracks P w v w' v'"
  obtains t where "mmio w' = mmio w @ t" "mmio v' = mmio v @ t" "fst ` set t \<subseteq> queue_regs P w"
    "xdevs w' = xdevs w" "xdevs v' = xdevs v"
  using assms by (auto simp: tracks_def outside_same_def)

text \<open>Two runs that send the same writes to the registers \<open>A\<close>.\<close>

definition same_writes :: "u64 set \<Rightarrow> world \<Rightarrow> world \<Rightarrow> world \<Rightarrow> world \<Rightarrow> bool" where
  "same_writes A w w' v v' \<longleftrightarrow> (\<exists>t u. mmio w' = mmio w @ t \<and> mmio v' = mmio v @ u \<and>
     filter (\<lambda>x. fst x \<in> A) t = filter (\<lambda>x. fst x \<in> A) u)"

lemma same_writes_refl [simp]: "same_writes A w w v v"
  by (simp add: same_writes_def)

lemma same_writes_step:
  assumes "same_writes A w1 w' v1 v'" and "mmio w1 = mmio w @ t" and "mmio v1 = mmio v @ t"
  shows "same_writes A w w' v v'"
proof -
  from assms(1) obtain t' u where "mmio w' = mmio w1 @ t'" "mmio v' = mmio v1 @ u"
    "filter (\<lambda>x. fst x \<in> A) t' = filter (\<lambda>x. fst x \<in> A) u" by (auto simp: same_writes_def)
  then show ?thesis
    unfolding same_writes_def using assms(2,3) by (intro exI [of _ "t @ t'"] exI [of _ "t @ u"]) simp
qed

lemma same_writes_skip:
  assumes "same_writes A w1 w' v v'" and "mmio w1 = mmio w @ t" and "fst ` set t \<inter> A = {}"
  shows "same_writes A w w' v v'"
proof -
  from assms(1) obtain t' u where "mmio w' = mmio w1 @ t'" "mmio v' = mmio v @ u"
    "filter (\<lambda>x. fst x \<in> A) t' = filter (\<lambda>x. fst x \<in> A) u" by (auto simp: same_writes_def)
  moreover have "filter (\<lambda>x. fst x \<in> A) t = []" using assms(3) by (auto simp: filter_empty_conv)
  ultimately show ?thesis
    unfolding same_writes_def using assms(2) by (intro exI [of _ "t @ t'"] exI [of _ u]) simp
qed

lemma same_writes_trace: "same_writes (queue_regs Q w) w w' w v' \<Longrightarrow> reg_trace Q w w' = reg_trace Q w v'"
  by (auto simp: same_writes_def reg_trace_def)

text \<open>The queues \<open>qs\<close> of a memory share nothing.\<close>

definition queues_apart :: "queue list \<Rightarrow> world \<Rightarrow> bool" where
  "queues_apart qs w \<longleftrightarrow> (\<forall>P \<in> set qs. same_view P w w) \<and>
     (\<forall>P \<in> set qs. \<forall>R \<in> set qs. P \<noteq> R \<longrightarrow> apart w P R)"

lemma queues_apart_step:
  assumes "queues_apart qs w" and "P \<in> set qs" and "tracks P w u w1 u1"
  shows "queues_apart qs w1"
  unfolding queues_apart_def
proof (intro conjI ballI impI)
  have out: "outside_same P w w1" using assms(3) by (simp add: tracks_def)
  show "same_view R w1 w1" if R: "R \<in> set qs" for R
  proof (cases "R = P")
    case True
    then show ?thesis using tracks_view [OF assms(3)] by (simp add: same_view_self)
  next
    case False
    with R assms(1,2) have "apart w P R" "same_view R w w" by (auto simp: queues_apart_def)
    from same_view_self [OF same_view_other [OF out this]] show ?thesis .
  qed
  show "apart w1 R S" if "R \<in> set qs" "S \<in> set qs" "R \<noteq> S" for R S
    using apart_cong [of w1 w] out that assms(1) by (simp add: queues_apart_def outside_same_def)
qed

text \<open>A schedule of bursts the queues accept.\<close>

definition bursts_fit :: "queue list \<Rightarrow> (u64 \<times> burst) list \<Rightarrow> bool" where
  "bursts_fit qs s \<longleftrightarrow> (\<forall>(p, b) \<in> set s. \<exists>P \<in> set qs. p = q_addr P \<and> burst_fits P b)"

text \<open>One queue of a schedule: the bursts on it, alone, give what they give in the schedule.\<close>

abbreviation only :: "u64 \<Rightarrow> (u64 \<times> 'a) list \<Rightarrow> (u64 \<times> 'a) list" where
  "only p \<equiv> filter (\<lambda>x. fst x = p)"

lemma run_bursts_one:
  assumes "run_bursts s w = Inr (rs, w')" and "same_view Q w v" and "Q \<in> set qs"
    and "queues_apart qs w" and "bursts_fit qs s"
  shows "\<exists>v'. run_bursts (only (q_addr Q) s) v = Inr (only (q_addr Q) rs, v') \<and>
    same_view Q w' v' \<and> same_writes (queue_regs Q w) w w' v v'"
  using assms
proof (induction s arbitrary: w v rs)
  case Nil
  then show ?case by simp
next
  case (Cons x s)
  obtain p b where x: "x = (p, b)" by force
  from Cons.prems(5) x obtain P where P: "P \<in> set qs" "p = q_addr P" "burst_fits P b"
    and sched: "bursts_fit qs s" by (auto simp: bursts_fit_def)
  from Cons.prems(1) obtain n ps w1 rs1 where one: "do_burst (q_addr P) b w = Inr (n, ps, w1)"
    and rest: "run_bursts s w1 = Inr (rs1, w')" and rs: "rs = (p, n, ps) # rs1"
    by (auto simp: x P(2) andThen_eq_Inr split: prod.splits)
  have self: "same_view P w w" using Cons.prems(4) P(1) by (simp add: queues_apart_def)
  from do_burst_step [OF self P(3) one] obtain u where u: "tracks P w w w1 u" by blast
  note ap = queues_apart_step [OF Cons.prems(4) P(1) u]
  have regs: "queue_regs Q w1 = queue_regs Q w"
    by (rule queue_regs_cong) (use u in \<open>simp add: tracks_def outside_same_def\<close>)
  note IH = Cons.IH [OF rest _ Cons.prems(3) ap sched, unfolded regs]
  show ?case
  proof (cases "P = Q")
    case True
    from do_burst_step [OF Cons.prems(2) P(3) [unfolded True] one [unfolded True]] obtain v1 where
      v1: "do_burst (q_addr Q) b v = Inr (n, ps, v1)" "tracks Q w v w1 v1" by blast
    from v1(2) obtain t where t: "mmio w1 = mmio w @ t" "mmio v1 = mmio v @ t"
      by (rule tracks_trace)
    from IH [OF tracks_view [OF v1(2)]] obtain v' where v': "run_bursts (only (q_addr Q) s) v1
        = Inr (only (q_addr Q) rs1, v')" "same_view Q w' v'" "same_writes (queue_regs Q w) w1 w' v1 v'" by blast
    have "run_bursts (only (q_addr Q) (x # s)) v = Inr (only (q_addr Q) rs, v')"
      using v1(1) v'(1) by (simp add: x rs P(2) True)
    with v'(2) same_writes_step [OF v'(3) t] show ?thesis by blast
  next
    case False
    then have sep: "apart w P Q" using P(1) Cons.prems(3,4) by (simp add: queues_apart_def)
    have out: "outside_same P w w1" using u by (simp add: tracks_def)
    from u obtain t where t: "mmio w1 = mmio w @ t" "fst ` set t \<subseteq> queue_regs P w" by (rule tracks_trace)
    then have none: "fst ` set t \<inter> queue_regs Q w = {}" using sep by (auto simp: apart_def)
    from IH [OF same_view_other [OF out sep Cons.prems(2)]] obtain v' where
      v': "run_bursts (only (q_addr Q) s) v = Inr (only (q_addr Q) rs1, v')" "same_view Q w' v'"
        "same_writes (queue_regs Q w) w1 w' v v'" by blast
    have "run_bursts (only (q_addr Q) (x # s)) v = Inr (only (q_addr Q) rs, v')"
      using v'(1) sep by (simp add: x rs P(2) apart_def)
    with v'(2) same_writes_skip [OF v'(3) t(1) none] show ?thesis by blast
  qed
qed

text \<open>
  C2. Queues do not interfere: if bursts on queues that share no memory and no register are
  run in any order and all return, then for each queue its bursts alone, run in the same
  order from the same memory, return the same numbers and packets, leave the engine, its
  ring, its completion words and its mbufs in the same state, and send the same sequence of
  writes to the registers of its channel.
\<close>

theorem queues_do_not_interfere:
  assumes "queues_apart qs w" and "bursts_fit qs s" and "Q \<in> set qs"
    and "run_bursts s w = Inr (rs, w')"
  shows "\<exists>v'. run_bursts (filter (\<lambda>x. fst x = q_addr Q) s) w = Inr (filter (\<lambda>x. fst x = q_addr Q) rs, v') \<and>
    same_view Q w' v' \<and> reg_trace Q w w' = reg_trace Q w v'"
proof -
  have "same_view Q w w" using assms(1,3) by (simp add: queues_apart_def)
  from run_bursts_one [OF assms(4) this assms(3,1,2)] show ?thesis
    using same_writes_trace by blast
qed

section \<open>A schedule returns when each of its queues does\<close>

lemma tracks_other_view:
  "tracks Q w v w' v' \<Longrightarrow> same_view Q w v \<Longrightarrow> same_view Q v' w'"
  unfolding tracks_def same_view_def outside_same_def
  by (auto simp: closed_mbufs_def table_directed_def hw_access_of_def)

lemma same_view_sym: "same_view Q w v \<Longrightarrow> same_view Q v w"
  using tracks_other_view [OF tracks_refl] .

lemma run_bursts_returns:
  assumes "queues_apart qs w" and "bursts_fit qs s"
    and "\<forall>Q \<in> set qs. \<exists>v r. same_view Q w v \<and> run_bursts (only (q_addr Q) s) v = Inr r"
  shows "\<exists>r. run_bursts s w = Inr r"
  using assms
proof (induction s arbitrary: w)
  case Nil
  then show ?case by simp
next
  case (Cons x s)
  obtain p b where x: "x = (p, b)" by force
  from Cons.prems(2) x obtain P where P: "P \<in> set qs" "p = q_addr P" "burst_fits P b"
    and sched: "bursts_fit qs s" by (auto simp: bursts_fit_def)
  from Cons.prems(3) P(1) obtain v r where v: "same_view P w v" "run_bursts (only (q_addr P) (x # s)) v = Inr r"
    by blast
  then obtain n ps v1 r1 where one: "do_burst (q_addr P) b v = Inr (n, ps, v1)"
    and r1: "run_bursts (only (q_addr P) s) v1 = Inr r1"
    by (auto simp: x P(2) andThen_eq_Inr split: prod.splits)
  from do_burst_step [OF same_view_sym [OF v(1)] P(3) one] obtain w1 where
    w1: "do_burst (q_addr P) b w = Inr (n, ps, w1)" "tracks P v w v1 w1" by blast
  have self: "same_view P w w" using Cons.prems(1) P(1) by (simp add: queues_apart_def)
  from do_burst_step [OF self P(3) w1(1)] obtain u where u: "tracks P w w w1 u" by blast
  then have out: "outside_same P w w1" by (simp add: tracks_def)
  have "\<exists>r. run_bursts s w1 = Inr r"
  proof (rule Cons.IH [OF queues_apart_step [OF Cons.prems(1) P(1) u] sched], rule ballI)
    fix Q assume Q: "Q \<in> set qs"
    show "\<exists>v r. same_view Q w1 v \<and> run_bursts (only (q_addr Q) s) v = Inr r"
    proof (cases "Q = P")
      case True
      with r1 same_view_sym [OF tracks_view [OF w1(2)]] show ?thesis by blast
    next
      case False
      with Q P(1) Cons.prems(1) have sep: "apart w P Q" by (simp add: queues_apart_def)
      then have "only (q_addr Q) (x # s) = only (q_addr Q) s" by (simp add: x P(2) apart_def)
      with Cons.prems(3) Q same_view_other [OF out sep] show ?thesis by metis
    qed
  qed
  then show ?case using w1(1) by (auto simp: x P(2))
qed


end
