(* ===== verification/Witnesses_Isolation.thy ===== *)
theory Witnesses_Isolation
  imports Examples Isolation
begin

text \<open>
  Two queues of the device of \<open>Examples\<close>: its transmit queue at 0x300 and a receive queue at
  0x380 with a ring at 0x3000 and mbufs of its own, running with two buffers posted.
\<close>

definition ex_rx :: xdma_engine where
  "ex_rx = (ex_engine C2H)\<lparr>running := True, desc_ring := 0x3000, poll_mode_addr_virt := 0x3400,
     mz := 0x3000, sw_ring := 0x4000\<rparr>"

definition ex_two :: world where
  "ex_two = (ex_world (ex_engine H2C))\<lparr>engines := [0x300 \<mapsto> ex_engine H2C, 0x380 \<mapsto> ex_rx],
     rings := [0x1000 \<mapsto> ex_ring, 0x3000 \<mapsto> ex_ring],
     words := [0x1400 \<mapsto> 0, 0x3400 \<mapsto> 0, 0x3820 \<mapsto> 0, 0x3824 \<mapsto> 0],
     mbufs := [0x5000 \<mapsto> ex_mbuf 0x6000, 0x5100 \<mapsto> ex_mbuf 0x7000, 0x5200 \<mapsto> ex_mbuf 0x8000,
       0x5300 \<mapsto> ex_mbuf 0x9000]\<rparr>"

definition ex_txq :: queue where
  "ex_txq = \<lparr>q_addr = 0x300, q_engine = ex_engine H2C, q_mbufs = {0x5000, 0x5100}\<rparr>"

definition ex_rxq :: queue where
  "ex_rxq = \<lparr>q_addr = 0x380, q_engine = ex_rx, q_mbufs = {0x5200, 0x5300}\<rparr>"

definition ex_send :: burst where "ex_send = Send of_nat ex_pkts 2"

text \<open>The count goes to 1: the first of the two buffers is complete, with 60 bytes.\<close>

definition ex_receive :: burst where "ex_receive = Receive (\<lambda>_. 1) (\<lambda>_. (0, 60)) [0x5200, 0x5300] 2"

lemma ex_rx_sel [simp]:
  "running ex_rx" "desc_used ex_rx = 0" "desc_max ex_rx = 32" "dir ex_rx = C2H" "desc_ring ex_rx = 0x3000"
  "poll_mode_addr_virt ex_rx = 0x3400" "xdev ex_rx = 0x100" "channel ex_rx = 0" "stream_wb_addr ex_rx = 0x3820"
  by (simp_all add: ex_rx_def ex_engine_def zero_engine_def stream_wb_addr_def XDMA_DESC_SIZE_def
      XDMA_POLL_MODE_WB_SIZE_def)

lemma ex_two_sel [simp]:
  "xdevs ex_two = [0x100 \<mapsto> ex_dev]" "hw_tables ex_two = [0x200 \<mapsto> xdma_hw_access_init]"
  "engines ex_two = [0x300 \<mapsto> ex_engine H2C, 0x380 \<mapsto> ex_rx]"
  "rings ex_two = [0x1000 \<mapsto> ex_ring, 0x3000 \<mapsto> ex_ring]"
  "words ex_two = [0x1400 \<mapsto> 0, 0x3400 \<mapsto> 0, 0x3820 \<mapsto> 0, 0x3824 \<mapsto> 0]"
  "mbufs ex_two = [0x5000 \<mapsto> ex_mbuf 0x6000, 0x5100 \<mapsto> ex_mbuf 0x7000, 0x5200 \<mapsto> ex_mbuf 0x8000,
       0x5300 \<mapsto> ex_mbuf 0x9000]"
  by (simp_all add: ex_two_def ex_world_def)

lemma ex_two_dev: "bar_base 0x100 config_bar_idx ex_two = Inr 0xA0000000" "hw_access_of 0x100 ex_two = Inr xdma_hw_access_init"
  by (simp_all add: bar_base_def hw_access_of_def) (simp_all add: ex_dev_def)

lemma ex_mbuf_next [simp]: "mb_next (ex_mbuf a) = 0"
  by (simp add: ex_mbuf_def)

lemma ex_view: "same_view ex_txq ex_two ex_two" "same_view ex_rxq ex_two ex_two"
  by (auto simp: same_view_def ex_txq_def ex_rxq_def same_geometry_def table_directed_def ex_two_dev
      xdma_hw_access_init_def closed_mbufs_def)

lemma ex_apart: "apart ex_two ex_txq ex_rxq" "apart ex_two ex_rxq ex_txq"
proof -
  have "channel (ex_engine H2C) = 0" by (simp add: ex_engine_def zero_engine_def)
  then show "apart ex_two ex_txq ex_rxq" "apart ex_two ex_rxq ex_txq"
    by (auto simp: apart_def ex_txq_def ex_rxq_def queue_words_def ring_bytes_def queue_regs_def ex_two_dev
        engine_regs_def chan_reg_def c_consts)
qed

lemma ex_queues_apart: "queues_apart [ex_txq, ex_rxq] ex_two"
  using ex_view ex_apart by (simp add: queues_apart_def)

definition ex_schedule :: "(u64 \<times> burst) list" where
  "ex_schedule = [(0x380, ex_receive), (0x300, ex_send)]"

lemma ex_schedule_fits: "bursts_fit [ex_txq, ex_rxq] ex_schedule"
  by (simp add: bursts_fit_def ex_schedule_def ex_txq_def ex_rxq_def ex_send_def ex_receive_def ex_pkts_def)

text \<open>Each queue alone: the burst is sent, and one packet is delivered.\<close>

lemma ex_two_engines:
  "engine_at 0x300 0xA0000000 (ex_engine H2C) ex_ring ex_two" "engine_at 0x380 0xA0000000 ex_rx ex_ring ex_two"
  using ex_ring_props(1) by (simp_all add: engine_at_def bar_mapped_def ex_two_dev)

lemma ex_send_returns:
  obtains w' where "do_burst 0x300 ex_send ex_two = Inr (2, ex_pkts, w')"
proof -
  have segs: "a \<in> set ex_pkts \<Longrightarrow> pkt_ok (mbufs ex_two) a \<and> length (segs_of (mbufs ex_two) a) = 1" for a
    by (auto simp: ex_pkts_def pkt_ok_def segs_of_def ex_mbuf_def)
  have req: "tx_request 0x300 0xA0000000 (ex_engine H2C) ex_ring ex_two ex_pkts 2"
    using ex_two_engines(1) segs by (auto simp: tx_request_def ex_pkts_def)
  have "tx_wait of_nat 2 0 \<noteq> None"
    by (subst tx_wait_None_iff) (auto intro!: exI [of _ "2 :: nat"])
  then obtain j where j: "tx_wait of_nat 2 0 = Some j" by auto
  note r = req [unfolded tx_request_def]
  have "\<exists>u e3 w3. xdma_xmit_pkts of_nat 0x300 ex_pkts 2 ex_two = Inr (2, halted H2C_CHANNEL_CTRL 0x300 0xA0000000 e3
      (tx_ring (length (taken ex_two (ex_engine H2C) ex_pkts 2))
        (burst_fills (mbufs ex_two) (taken ex_two (ex_engine H2C) ex_pkts 2)) ex_ring) w3)"
    using r xmit_cases(2) [OF _ _ _ _ _ _ refl j, where p = "0x300" and a = "0xA0000000" and e = "ex_engine H2C"
      and r = ex_ring and pkts = ex_pkts and w = ex_two] by blast
  then show ?thesis using that by (auto simp: ex_send_def)
qed

lemma ex_receive_returns:
  obtains n w' where "do_burst 0x380 ex_receive ex_two = Inr (n, [0x5200, 0x5300], w')" "unat n = 1"
proof -
  have "rx_ready 0x380 0xA0000000 ex_rx ex_ring [0x5200, 0x5300] ex_two"
    using ex_two_engines(2) by (simp add: rx_ready_def stream_mapped_def mbufs_ok_def)
  moreover have "rx_poll (\<lambda>_. 1) (desc_used ex_rx) (Suc RX_RETRY) 0 = Some 0" by (simp add: rx_poll.simps)
  ultimately have "\<exists>n w'. xdma_recv_pkts (\<lambda>_. 1) (\<lambda>_. (0, 60)) 0x380 [0x5200, 0x5300] 2 ex_two
      = Inr (n, [0x5200, 0x5300], w') \<and> unat n = 1"
    using recv_some [where nb = 2 and swb = "\<lambda>_. (0, 60)" and c = 1, OF _ ex_rx_sel(1)] by fastforce
  then show ?thesis using that by (auto simp: ex_receive_def)
qed

lemma ex_alone:
  "\<exists>w'. run_bursts [(0x300, ex_send)] ex_two = Inr ([(0x300, 2, ex_pkts)], w')"
  "\<exists>n w'. run_bursts [(0x380, ex_receive)] ex_two = Inr ([(0x380, n, [0x5200, 0x5300])], w') \<and> unat n = 1"
proof -
  show "\<exists>w'. run_bursts [(0x300, ex_send)] ex_two = Inr ([(0x300, 2, ex_pkts)], w')"
    by (rule ex_send_returns) simp
  show "\<exists>n w'. run_bursts [(0x380, ex_receive)] ex_two = Inr ([(0x380, n, [0x5200, 0x5300])], w') \<and> unat n = 1"
    by (rule ex_receive_returns) simp
qed

lemma ex_schedule_only:
  "only (q_addr ex_txq) ex_schedule = [(0x300, ex_send)]" "only (q_addr ex_rxq) ex_schedule = [(0x380, ex_receive)]"
  by (simp_all add: ex_schedule_def ex_txq_def ex_rxq_def)

lemma ex_both_return: "\<exists>r. run_bursts ex_schedule ex_two = Inr r"
  using ex_alone ex_view
  by (intro run_bursts_returns [OF ex_queues_apart ex_schedule_fits]) (auto simp: ex_schedule_only)


theorem queues_do_not_interfere_witness:
  "\<exists>rs w' n. run_bursts ex_schedule ex_two = Inr (rs, w') \<and> unat n = 1 \<and>
     filter (\<lambda>x. fst x = 0x380) rs = [(0x380, n, [0x5200, 0x5300])]"
proof -
  obtain rs w' where run: "run_bursts ex_schedule ex_two = Inr (rs, w')" using ex_both_return by auto
  from queues_do_not_interfere [OF ex_queues_apart ex_schedule_fits _ run, of ex_rxq]
  have "\<exists>v. run_bursts [(0x380, ex_receive)] ex_two = Inr (filter (\<lambda>x. fst x = q_addr ex_rxq) rs, v)"
    by (auto simp: ex_schedule_only)
  with ex_alone(2) show ?thesis using run by (auto simp: ex_rxq_def)
qed

end
