(* ===== verification/Witnesses_Device.thy ===== *)
theory Witnesses_Device
  imports Witnesses
begin

text \<open>
  The properties of whole devices, of probing and removing them, of the application
  interface, the BAR loader and the console, applied to the concrete device of \<open>Examples\<close>.
\<close>

section \<open>Devices\<close>

lemma ex_queues_ok: "queues_ok ex_data [0x300] []"
  by (simp add: queues_ok_def ex_data_def)

lemma ex_owned: "queue_owned H2C (ex_world (ex_engine H2C)) 0x300"
  by (simp add: queue_owned_def queue_blocks_def ex_world_def) (simp add: ex_engine_def)

lemma ex_blocks: "distinct (all_blocks (ex_world (ex_engine H2C)) ([] @ [0x300]))"
  by (simp add: all_blocks_def queue_blocks_def ex_world_def) (simp add: ex_engine_def)

theorem dev_stop_all_queues_witness:
  "\<exists>w'. xdma_dev_stop 0x400 (ex_world (ex_engine H2C)) = Inr w' \<and> engine_idle 0x300 w'"
proof -
  have "\<forall>p \<in> set [0x300] \<union> set []. engine_live p 0xA0000000 (ex_world (ex_engine H2C))"
    using ex_idle_engine [of H2C] by (auto simp: engine_live_def)
  from dev_stop_all_queues [OF ex_data ex_queues_ok this] show ?thesis by auto
qed

theorem dev_close_releases_witness:
  "\<exists>w'. xdma_dev_close 0x400 (ex_world (ex_engine H2C)) = Inr w' \<and> blocks w' 0x300 = None \<and> mmio w' = []"
proof -
  have "0x300 \<in> set (all_blocks (ex_world (ex_engine H2C)) ([] @ [0x300]))"
    by (simp add: all_blocks_def queue_blocks_def ex_world_def)
  moreover have "mmio (ex_world (ex_engine H2C)) = []" by (simp add: ex_world_def empty_world_def)
  ultimately show ?thesis
    using dev_close_releases [OF ex_data ex_queues_ok ex_dat_sel(5) _ _ ex_blocks] ex_owned by fastforce
qed

section \<open>Probing\<close>

theorem config_bar_decimal_witness:
  "config_bar_idx_handler (dec 3) ex_dev = (0, ex_dev\<lparr>config_bar_idx := 3\<rparr>)"
  by (subst config_bar_decimal) simp_all

theorem config_bar_accepts_garbage_witness:
  "config_bar_idx_handler ''xyz'' ex_dev = (0, ex_dev\<lparr>config_bar_idx := 0\<rparr>) \<and>
   config_bar_idx_handler (dec 4294967298) ex_dev = (0, ex_dev\<lparr>config_bar_idx := 2\<rparr>)"
  using config_bar_accepts_garbage [of "CHR ''x''" 2 1 "''yz''" ex_dev]
  by (simp add: is_digit_def is_space_def)

lemma ex_resources: "pci_resources 0x400 (ex_world e) = Inr ex_res"
  by (simp add: pci_resources_def ex_world_def ex_eth_def)


section \<open>Init and uninit\<close>

text \<open>A library for arguments of the form \<open>key=value\<close>.\<close>

definition ex_kv :: kvargs where
  "ex_kv = \<lparr>kv_parse = (\<lambda>s. Some [(takeWhile (\<lambda>c. c \<noteq> CHR ''='') s, tl (dropWhile (\<lambda>c. c \<noteq> CHR ''='') s))]),
     kv_count = (\<lambda>l k. length (filter (\<lambda>x. fst x = k) l)),
     kv_process = (\<lambda>l k h d. fold (\<lambda>x (r, d). if r < 0 then (r, d) else h (snd x) d) (filter (\<lambda>x. fst x = k) l) (0, d))\<rparr>"

definition ex_dev1 :: xdma_dev where
  "ex_dev1 = (default_bars ex_dev)\<lparr>config_bar_idx := 1\<rparr>"

lemma ex_kvargs: "xdma_check_kvargs ex_kv (Some ''config_bar=1'') (default_bars ex_dev) = (0, ex_dev1)"
proof -
  have "strtoul ''1'' = 1" by (simp add: strtoul_def is_space_def is_digit_def)
  then show ?thesis
    by (simp add: xdma_check_kvargs_def ex_kv_def ex_dev1_def config_bar_idx_handler_def to_int_def XDMA_BAR_NUM_def)
qed

lemma ex_init_pre:
  "init_pre ex_env ex_kv (Some ''config_bar=1'') 0x400 ex_eth ex_data ex_res ex_dev ex_dev1 (ex_world e)"
proof -
  have "config_bar_idx ex_dev1 = 1" "bar ex_dev1 = bar ex_dev" "length (bar ex_dev) = 6"
    "bypass_bar_idx ex_dev1 = BAR_ID_INVALID"
    by (simp_all add: ex_dev1_def default_bars_def ex_dev_def)
  then show ?thesis
    using ex_kvargs by (simp add: init_pre_def ex_world_def empty_world_def ex_eth_def ex_res_def ex_env_def)
qed

theorem init_failure_no_leak_witness:
  "\<exists>w'. xdma_eth_dev_init (ex_env\<lparr>alloc := (\<lambda>k. if k = 0 then 0x900 else 0)\<rparr>) ex_kv True None 0x400
      (ex_world (ex_engine H2C)) = Inr (- 12, w') \<and> blocks w' = blocks (ex_world (ex_engine H2C))"
proof -
  let ?ev = "ex_env\<lparr>alloc := (\<lambda>k. if k = 0 then 0x900 else 0)\<rparr>" and ?w = "ex_world (ex_engine H2C)"
  have w: "allocs ?w = 0" "blocks ?w 0x900 = None" "eth_devs ?w 0x400 = Some ex_eth" "xdevs ?w 0x100 = Some ex_dev"
    by (simp_all add: ex_world_def empty_world_def)
  have "length (bar ex_dev) = 6" "length ex_res = 6" "data ex_eth = Some ex_data" "device ex_eth = Some ex_res"
    by (simp_all add: ex_dev_def ex_res_def ex_eth_def)
  with w obtain w' where init: "xdma_eth_dev_init ?ev ex_kv True None 0x400 ?w = Inr (- 12, w')"
    by (simp add: xdma_eth_dev_init_def init_primary_def init_bars_def rte_alloc_def set_eth_data_def
        xdma_check_kvargs_def default_bars_def map_bar_def DEFAULT_CONFIG_BAR_def set_xdev_def rte_free_def
        load_int_def store_int_def ENOMEM_def Let_def)
  have "\<And>k. alloc ?ev k \<noteq> 0 \<Longrightarrow> blocks ?w (alloc ?ev k) = None"
    "alloc ?ev (allocs ?w) \<noteq> alloc ?ev (Suc (allocs ?w))"
    using w by (simp_all split: if_splits)
  with init_failure_no_leak [OF init] have "blocks w' = blocks ?w" by simp
  with init show ?thesis by blast
qed

theorem init_ready_witness:
  "\<exists>w'. xdma_eth_dev_init ex_env ex_kv True (Some ''config_bar=1'') 0x400 (ex_world (ex_engine H2C)) = Inr (0, w') \<and>
     bar_mapped config_bar_idx 0x100 0xA0000000 w'"
proof -
  have "res_addr (ex_res ! nat (config_bar_idx ex_dev1)) = 0xA0000000"
    by (simp add: ex_res_def ex_dev1_def)
  with init_ready [OF ex_init_pre [of "ex_engine H2C"]] show ?thesis by auto
qed

theorem init_uninit_witness:
  "\<exists>w' w''. xdma_eth_dev_init ex_env ex_kv True (Some ''config_bar=1'') 0x400 (ex_world (ex_engine H2C)) = Inr (0, w') \<and>
     xdma_eth_dev_uninit True 0x400 w' = Inr (0, w'') \<and> blocks w'' = blocks (ex_world (ex_engine H2C))"
proof -
  have "\<not> dev_configured ex_dev1" by (simp add: ex_dev1_def default_bars_def ex_dev_def)
  from init_uninit [OF ex_init_pre [of "ex_engine H2C"] this] show ?thesis by blast
qed

section \<open>Application interface\<close>

theorem pmd_close_never_stops_witness:
  "\<exists>w'. rte_pmd_xdma_dev_close (\<lambda>_. 0x400) 0 (ex_world (ex_engine H2C)) = Inr w' \<and> blocks w' 0x300 = None"
proof -
  have "0x300 \<in> set (all_blocks (ex_world (ex_engine H2C)) ([] @ [0x300]))"
    by (simp add: all_blocks_def queue_blocks_def ex_world_def)
  with pmd_close_never_stops [OF ex_data _ ex_queues_ok _ _ ex_blocks, of "\<lambda>_. 0x400" 0]
    ex_owned show ?thesis by fastforce
qed


section \<open>Console\<close>

theorem uart_send_result_witness:
  "fst (uart_send (\<lambda>_ _. 0) 0 0x1000 0x41 (ex_world (ex_engine H2C)))"
proof -
  have "\<exists>k < (1000 :: nat). True" by (rule exI [of _ 0]) simp
  with uart_send_result [of "\<lambda>_ _. 0" 0 "0x1000" "0x41" "ex_world (ex_engine H2C)"] show ?thesis
    by (simp add: case_prod_beta)
qed

theorem uart_drain_prints_witness:
  "\<exists>i'. uart_drain (\<lambda>i _. [1, 0x41, 1, 0, 0] ! i) 0 0x1000 [] = Some (i', [0x41])"
  using uart_drain_prints [of "\<lambda>i _. [1, 0x41, 1, 0, 0] ! i" 0 "0x1000" "[0x41, 0]" "[]"] by auto

end
