(* ===== verification/Lifetime.thy ===== *)
theory Lifetime
  imports Pmd_Api Lifecycle Isolation "HOL-Library.Multiset"
begin

text \<open>
  The life of a device on the heap: init, configuration, setup of all queues, any sequence of
  bursts on them, close through the application interface, uninit.

  \<open>ports_built\<close> is the invariant of the setup phase: the queues set up so far own three
  blocks each, all of them new, and nothing else of the heap has changed.  Bursts keep the
  heap (theory \<open>Isolation\<close>), close releases the blocks of the queues and uninit those of init.
\<close>

section \<open>Setting up a list of queues\<close>

text \<open>A queue is named by its direction and its channel.\<close>

type_synonym queue_name = "dma_data_direction \<times> u16"

definition setup_queue :: "env \<Rightarrow> u64 \<Rightarrow> u16 \<Rightarrow> queue_name \<Rightarrow> world \<Rightarrow> fault + world" where
  "setup_queue ev dev nb_desc q w =
     (if fst q = H2C then xdma_tx_engine_setup ev dev (snd q) nb_desc w
      else xdma_rx_engine_setup ev dev (snd q) nb_desc w)"

primrec setup_queues :: "env \<Rightarrow> u64 \<Rightarrow> u16 \<Rightarrow> queue_name list \<Rightarrow> world \<Rightarrow> fault + world" where
  "setup_queues ev dev nb_desc [] w = Inr w"
| "setup_queues ev dev nb_desc (q # qs) w =
     andThen (setup_queue ev dev nb_desc q w) (setup_queues ev dev nb_desc qs)"

definition ring_tag :: "dma_data_direction \<Rightarrow> string" where
  "ring_tag d = (if d = H2C then ''TxHwRn'' else ''RxHwRn'')"

definition queue_zone :: "u16 \<Rightarrow> queue_name \<Rightarrow> string" where
  "queue_zone port q = zone_name driver_name (ring_tag (fst q)) port (ucast (snd q))"

lemma ucast_u32_of_u16_inject: "(ucast (c :: u16) :: u32) = ucast c' \<longleftrightarrow> c = c'"
proof
  assume "(ucast c :: u32) = ucast c'"
  then have "unat (ucast c :: u32) = unat (ucast c' :: u32)" by simp
  then show "c = c'"
    using unat_u16_less [of c] unat_u16_less [of c']
    by (simp add: unsigned_ucast_eq take_bit_nat_eq_self word_unat_eq_iff)
qed simp

lemma queue_zone_inject:
  assumes "fst q \<noteq> UNKNOWN" and "fst q' \<noteq> UNKNOWN"
  shows "queue_zone port q = queue_zone port q' \<longleftrightarrow> q = q'"
proof -
  have small: "unat (ucast c :: u32) < 65536" for c :: u16
    using unat_u16_less [of c] by (simp add: unsigned_ucast_eq take_bit_nat_eq_self)
  have inj: "(ucast c :: u32) = ucast c' \<longleftrightarrow> c = c'" for c c' :: u16
    by (rule ucast_u32_of_u16_inject)
  have "ring_tag (fst q) = ring_tag (fst q') \<longleftrightarrow> fst q = fst q'"
    using assms by (cases "fst q"; cases "fst q'") (simp_all add: ring_tag_def)
  then show ?thesis
    using zone_name_injective [of "ring_tag (fst q)" "ring_tag (fst q')" "ucast (snd q)" "ucast (snd q')" port port]
    by (simp add: queue_zone_def small inj ring_tag_def prod_eq_iff)
qed

text \<open>The queue arrays of a port and the pointer of a queue in them.\<close>

definition queue_list :: "rte_eth_dev_data \<Rightarrow> dma_data_direction \<Rightarrow> u64 list" where
  "queue_list dat d = (case (if d = H2C then tx_queues dat else rx_queues dat) of None \<Rightarrow> [] | Some qs \<Rightarrow> qs)"

definition queue_ptr :: "rte_eth_dev_data \<Rightarrow> queue_name \<Rightarrow> u64" where
  "queue_ptr dat q = queue_list dat (fst q) ! unat (snd q)"

definition put_queue :: "queue_name \<Rightarrow> u64 \<Rightarrow> rte_eth_dev_data \<Rightarrow> rte_eth_dev_data" where
  "put_queue q p dat =
     (if fst q = H2C then dat\<lparr>tx_queues := Some ((queue_list dat H2C)[unat (snd q) := p])\<rparr>
      else dat\<lparr>rx_queues := Some ((queue_list dat C2H)[unat (snd q) := p])\<rparr>)"

lemma put_queue_sel [simp]:
  "dev_private (put_queue q p dat) = dev_private dat" "mac_addrs (put_queue q p dat) = mac_addrs dat"
  "data_port_id (put_queue q p dat) = data_port_id dat" "nb_rx_queues (put_queue q p dat) = nb_rx_queues dat"
  "nb_tx_queues (put_queue q p dat) = nb_tx_queues dat"
  by (simp_all add: put_queue_def)

lemma length_put_queue [simp]: "length (queue_list (put_queue q p dat) d) = length (queue_list dat d)"
  by (simp add: put_queue_def queue_list_def split: option.split)

lemma queue_list_C2H: "d \<noteq> H2C \<Longrightarrow> queue_list dat d = queue_list dat C2H"
  by (simp add: queue_list_def)

lemma queue_ptr_put:
  assumes "fst q \<noteq> UNKNOWN" and "fst q' \<noteq> UNKNOWN" and "unat (snd q) < length (queue_list dat (fst q))"
  shows "queue_ptr (put_queue q p dat) q' = (if q' = q then p else queue_ptr dat q')"
proof -
  obtain d c d' c' where q: "q = (d, c)" "q' = (d', c')" by (cases q, cases q')
  have "unat c = unat c' \<longleftrightarrow> c = c'" by (simp add: word_unat_eq_iff)
  with assms show ?thesis
    unfolding q by (cases d; cases d') (auto simp: queue_ptr_def put_queue_def queue_list_def nth_list_update split: option.splits)
qed

text \<open>The state after one setup, as far as heap, engines and port are concerned.\<close>

definition new_engine :: "env \<Rightarrow> rte_eth_dev_data \<Rightarrow> queue_name \<Rightarrow> world \<Rightarrow> xdma_engine" where
  "new_engine ev dat q w =
     fresh_engine ev (if fst q = H2C then H2C else C2H) (snd q) (dev_private dat) (alloc ev (Suc (allocs w)))
       (alloc ev (Suc (Suc (allocs w))))"

definition zone_extra :: "dma_data_direction \<Rightarrow> nat" where
  "zone_extra d = (if d = H2C then sizeof_xdma_poll_wb else sizeof_xdma_poll_wb + sizeof_xdma_c2h_stream_wb)"

lemma setup_queue_eq:
  assumes "eth_data dev w = Inr dat" and "deref (xdevs w) (dev_private dat) = Inr xd"
    and "length (engine_h2c xd) = 4" and "length (engine_c2h xd) = 4" and "unat (snd q) < 4"
    and "unat (snd q) < length (queue_list dat (fst q))"
    and "\<forall>k < 3. alloc ev (allocs w + k) \<noteq> 0" and "map_of (zones w) (queue_zone (data_port_id dat) q) = None"
  shows "\<exists>w' xd'. setup_queue ev dev nb_desc q w = Inr w' \<and> eth_data dev w' = Inr (put_queue q (alloc ev (allocs w)) dat) \<and>
    engines w' = (engines w)(alloc ev (allocs w) \<mapsto> new_engine ev dat q w) \<and>
    blocks w' = (blocks w)(alloc ev (allocs w) \<mapsto> sizeof_xdma_engine, alloc ev (Suc (allocs w)) \<mapsto> 1024 + zone_extra (fst q),
      alloc ev (Suc (Suc (allocs w))) \<mapsto> 256) \<and>
    zones w' = (queue_zone (data_port_id dat) q, alloc ev (Suc (allocs w))) # zones w \<and>
    allocs w' = allocs w + 3 \<and> hw_tables w' = hw_tables w \<and> xdevs w' = (xdevs w)(dev_private dat \<mapsto> xd') \<and>
    length (engine_h2c xd') = 4 \<and> length (engine_c2h xd') = 4 \<and> hw_access xd' = hw_access xd \<and>
    dev_configured xd' = dev_configured xd"
proof -
  have a: "alloc ev (allocs w) \<noteq> 0" "alloc ev (Suc (allocs w)) \<noteq> 0" "alloc ev (Suc (Suc (allocs w))) \<noteq> 0"
    using assms(7) [rule_format, of 0] assms(7) [rule_format, of 1] assms(7) [rule_format, of 2] by simp_all
  obtain d where d: "dev \<noteq> 0" "eth_devs w dev = Some d" "data d = Some dat"
    using assms(1) by (auto simp: eth_data_def andThen_eq_Inr deref_eq_Inr split: option.splits)
  have xd: "dev_private dat \<noteq> 0" "xdevs w (dev_private dat) = Some xd" using assms(2) by (simp_all add: deref_eq_Inr)
  have nm: "setup_names_free (data_port_id dat) (ring_tag (fst q)) (snd q) w"
    using assms(8) by (simp add: setup_names_free_def queue_zone_def)
  have ex: "zone_extra (fst q) < 1000" by (simp add: zone_extra_def sizeof_xdma_poll_wb_def sizeof_xdma_c2h_stream_wb_def)
  note su = engine_setup_eq [OF assms(1) a(1,2) nm ex]
  show ?thesis
  proof (cases "fst q = H2C")
    case True
    with assms(6) obtain qs where qs: "tx_queues dat = Some qs" "unat (snd q) < length qs"
      by (auto simp: queue_list_def split: option.splits)
    show ?thesis
      using su [of H2C] True d xd qs assms(3-5) a
      by (simp add: setup_queue_def xdma_tx_engine_setup_def ring_tag_def zone_extra_def install_tx_def eth_data_def
          set_eth_data_def queue_array_def setup_state_def Let_def put_queue_def queue_list_def new_engine_def
          queue_zone_def) (rule exI, rule conjI [OF refl], simp)
  next
    case False
    with assms(6) obtain qs where qs: "rx_queues dat = Some qs" "unat (snd q) < length qs"
      by (auto simp: queue_list_def split: option.splits)
    show ?thesis
      using su [of C2H] False d xd qs assms(3-5) a
      by (simp add: setup_queue_def xdma_rx_engine_setup_def ring_tag_def zone_extra_def install_rx_def eth_data_def
          set_eth_data_def queue_array_def setup_state_def Let_def put_queue_def queue_list_def new_engine_def
          queue_zone_def) (rule exI, rule conjI [OF refl], simp)
  qed
qed

section \<open>The setup phase\<close>

text \<open>
  What the allocator promises for the next \<open>n\<close> allocations: they succeed and return different
  blocks that are not in use.
\<close>

definition fresh_allocs :: "env \<Rightarrow> world \<Rightarrow> nat \<Rightarrow> bool" where
  "fresh_allocs ev w n \<longleftrightarrow> inj_on (alloc ev) {allocs w..<allocs w + n} \<and>
     (\<forall>k \<in> {allocs w..<allocs w + n}. alloc ev k \<noteq> 0 \<and> blocks w (alloc ev k) = None)"

lemma fresh_allocsD:
  "fresh_allocs ev w n \<Longrightarrow> i < n \<Longrightarrow> alloc ev (allocs w + i) \<noteq> 0 \<and> blocks w (alloc ev (allocs w + i)) = None"
  by (simp add: fresh_allocs_def)

lemma fresh_allocs_inj:
  "fresh_allocs ev w n \<Longrightarrow> i < n \<Longrightarrow> j < n \<Longrightarrow>
   alloc ev (allocs w + i) = alloc ev (allocs w + j) \<longleftrightarrow> i = j"
  unfolding fresh_allocs_def by (fastforce dest: inj_onD)

text \<open>The promise after two more allocations.\<close>

lemma fresh_allocs_later:
  assumes "fresh_allocs ev w (2 + n)" and "allocs v = allocs w + 2"
    and "blocks v = (blocks w)(alloc ev (allocs w) \<mapsto> x, alloc ev (Suc (allocs w)) \<mapsto> y)"
  shows "fresh_allocs ev v n"
  unfolding fresh_allocs_def
proof (intro conjI ballI)
  have sub: "{allocs v..<allocs v + n} \<subseteq> {allocs w..<allocs w + (2 + n)}" by (auto simp: assms(2))
  show "inj_on (alloc ev) {allocs v..<allocs v + n}"
    by (rule inj_on_subset [OF _ sub]) (use assms(1) in \<open>simp add: fresh_allocs_def\<close>)
  fix k assume k: "k \<in> {allocs v..<allocs v + n}"
  then obtain i where i: "k = allocs w + i" "2 \<le> i" "i < 2 + n" by (auto simp: assms(2) le_iff_add)
  show "alloc ev k \<noteq> 0" using fresh_allocsD [OF assms(1) i(3)] i(1) by simp
  have "alloc ev k \<noteq> alloc ev (allocs w)" "alloc ev k \<noteq> alloc ev (Suc (allocs w))"
    using fresh_allocs_inj [OF assms(1) i(3), of 0] fresh_allocs_inj [OF assms(1) i(3), of 1] i by simp_all
  then show "blocks v (alloc ev k) = None"
    using fresh_allocsD [OF assms(1) i(3)] by (simp add: assms(3) i(1))
qed

text \<open>The port and its device, up to the entries of the queue arrays.\<close>

definition same_port :: "rte_eth_dev_data \<Rightarrow> rte_eth_dev_data \<Rightarrow> bool" where
  "same_port dat0 dat \<longleftrightarrow> (tx_queues dat = None \<longleftrightarrow> tx_queues dat0 = None) \<and>
     (rx_queues dat = None \<longleftrightarrow> rx_queues dat0 = None) \<and> dev_private dat = dev_private dat0 \<and> mac_addrs dat = mac_addrs dat0 \<and>
     data_port_id dat = data_port_id dat0 \<and> nb_rx_queues dat = nb_rx_queues dat0 \<and>
     nb_tx_queues dat = nb_tx_queues dat0 \<and> (\<forall>d. length (queue_list dat d) = length (queue_list dat0 d))"

lemma put_queue_None:
  assumes "unat (snd q) < length (queue_list dat (fst q))"
  shows "tx_queues (put_queue q p dat) = None \<longleftrightarrow> tx_queues dat = None"
    and "rx_queues (put_queue q p dat) = None \<longleftrightarrow> rx_queues dat = None"
  using assms by (auto simp: put_queue_def queue_list_def split: if_splits option.splits)

lemma same_port_put:
  "same_port dat0 dat \<Longrightarrow> unat (snd q) < length (queue_list dat (fst q)) \<Longrightarrow> same_port dat0 (put_queue q p dat)"
  by (simp add: same_port_def put_queue_None)

definition same_dev :: "xdma_dev \<Rightarrow> xdma_dev \<Rightarrow> bool" where
  "same_dev xd0 xd \<longleftrightarrow> length (engine_h2c xd) = 4 \<and> length (engine_c2h xd) = 4 \<and>
     hw_access xd = hw_access xd0 \<and> dev_configured xd = dev_configured xd0"

text \<open>The queues \<open>L\<close> were set up since the state \<open>w0\<close>.\<close>

definition queue_at :: "rte_eth_dev_data \<Rightarrow> world \<Rightarrow> queue_name \<Rightarrow> bool" where
  "queue_at dat w q \<longleftrightarrow> (\<exists>e. engines w (queue_ptr dat q) = Some e \<and> dir e = fst q \<and> xdev e = dev_private dat)"

definition ports_built :: "env \<Rightarrow> u64 \<Rightarrow> rte_eth_dev_data \<Rightarrow> xdma_dev \<Rightarrow> world \<Rightarrow> queue_name list
    \<Rightarrow> rte_eth_dev_data \<Rightarrow> world \<Rightarrow> bool" where
  "ports_built ev dev dat0 xd0 w0 L dat w \<longleftrightarrow>
     eth_data dev w = Inr dat \<and> same_port dat0 dat \<and>
     (\<exists>xd. deref (xdevs w) (dev_private dat0) = Inr xd \<and> same_dev xd0 xd) \<and>
     hw_tables w = hw_tables w0 \<and> allocs w = allocs w0 + 3 * length L \<and>
     (\<forall>n. map_of (zones w0) n = None \<and> n \<notin> queue_zone (data_port_id dat0) ` set L \<longrightarrow> map_of (zones w) n = None) \<and>
     (\<forall>q \<in> set L. queue_at dat w q) \<and>
     (let bs = all_blocks w (map (queue_ptr dat) L) in
      distinct bs \<and> set bs \<subseteq> alloc ev ` {allocs w0..<allocs w} \<and>
      (\<forall>b. blocks w b \<noteq> None \<longleftrightarrow> b \<in> set bs \<or> blocks w0 b \<noteq> None) \<and>
      (\<forall>b. b \<notin> set bs \<longrightarrow> blocks w b = blocks w0 b))"

lemma ports_built_start:
  assumes "eth_data dev w0 = Inr dat0" and "deref (xdevs w0) (dev_private dat0) = Inr xd0"
    and "length (engine_h2c xd0) = 4" and "length (engine_c2h xd0) = 4"
  shows "ports_built ev dev dat0 xd0 w0 [] dat0 w0"
  using assms by (simp add: ports_built_def same_port_def same_dev_def all_blocks_def)

lemma queue_ptr_in_blocks:
  "queue_at dat w q \<Longrightarrow> q \<in> set L \<Longrightarrow> queue_ptr dat q \<in> set (all_blocks w (map (queue_ptr dat) L))"
  by (force simp: all_blocks_def queue_blocks_def queue_at_def)

lemma all_blocks_snoc: "all_blocks w (ps @ [p]) = all_blocks w ps @ queue_blocks w p"
  by (simp add: all_blocks_def)

lemma all_blocks_cong:
  "(\<And>p. p \<in> set ps \<Longrightarrow> engines w' p = engines w p) \<Longrightarrow> all_blocks w' ps = all_blocks w ps"
  unfolding all_blocks_def by (rule arg_cong [where f = concat]) (simp add: queue_blocks_def)

text \<open>The next three blocks are new.\<close>

lemma new_blocks:
  assumes "fresh_allocs ev w n" and "k + 3 \<le> n" and "set bs \<subseteq> alloc ev ` {allocs w..<allocs w + k}"
  shows "distinct [alloc ev (allocs w + k), alloc ev (allocs w + Suc k), alloc ev (allocs w + Suc (Suc k))] \<and>
    set bs \<inter> {alloc ev (allocs w + k), alloc ev (allocs w + Suc k), alloc ev (allocs w + Suc (Suc k))} = {}"
proof -
  have ne: "alloc ev (allocs w + j) \<noteq> alloc ev (allocs w + i)" if "j < k" "i \<in> {k, Suc k, Suc (Suc k)}" for i j
    using that assms(2) fresh_allocs_inj [OF assms(1), of j i] by auto
  have old: "\<exists>j < k. x = alloc ev (allocs w + j)" if "x \<in> set bs" for x
  proof -
    from that assms(3) have "x \<in> alloc ev ` {allocs w..<allocs w + k}" by blast
    then obtain c where "x = alloc ev (allocs w + c)" "c < k" by (auto simp: le_iff_add)
    then show ?thesis by blast
  qed
  have "set bs \<inter> {alloc ev (allocs w + k), alloc ev (allocs w + Suc k), alloc ev (allocs w + Suc (Suc k))} = {}"
    using old ne by (fastforce simp del: add_Suc_right)
  moreover have "distinct [alloc ev (allocs w + k), alloc ev (allocs w + Suc k), alloc ev (allocs w + Suc (Suc k))]"
    using assms(2) by (simp add: fresh_allocs_inj [OF assms(1)] del: add_Suc_right)
  ultimately show ?thesis by blast
qed

lemma setup_queue_built:
  assumes built: "ports_built ev dev dat0 xd0 w0 L dat w" and new: "q \<notin> set L"
    and dirs: "\<forall>x \<in> set (L @ [q]). fst x \<noteq> UNKNOWN" and ch: "unat (snd q) < 4"
    and len: "unat (snd q) < length (queue_list dat0 (fst q))"
    and fresh: "fresh_allocs ev w0 n" "3 * length L + 3 \<le> n"
    and free: "map_of (zones w0) (queue_zone (data_port_id dat0) q) = None"
  shows "\<exists>w' dat'. setup_queue ev dev nb_desc q w = Inr w' \<and> ports_built ev dev dat0 xd0 w0 (L @ [q]) dat' w'"
proof -
  let ?k = "3 * length L" and ?P = "data_port_id dat0"
  define p z s where ps: "p = alloc ev (allocs w0 + ?k)" "z = alloc ev (allocs w0 + Suc ?k)"
    "s = alloc ev (allocs w0 + Suc (Suc ?k))"
  let ?bs = "all_blocks w (map (queue_ptr dat) L)"
  have b: "eth_data dev w = Inr dat" "same_port dat0 dat" "hw_tables w = hw_tables w0" "allocs w = allocs w0 + ?k"
    "\<forall>n. map_of (zones w0) n = None \<and> n \<notin> queue_zone ?P ` set L \<longrightarrow> map_of (zones w) n = None"
    "\<forall>q \<in> set L. queue_at dat w q" "distinct ?bs" "set ?bs \<subseteq> alloc ev ` {allocs w0..<allocs w}"
    "\<forall>b. blocks w b \<noteq> None \<longleftrightarrow> b \<in> set ?bs \<or> blocks w0 b \<noteq> None" "\<forall>b. b \<notin> set ?bs \<longrightarrow> blocks w b = blocks w0 b"
    using built [unfolded ports_built_def Let_def] by blast+
  obtain xd where xd: "deref (xdevs w) (dev_private dat0) = Inr xd" "same_dev xd0 xd"
    using built by (auto simp: ports_built_def)
  have al: "alloc ev (allocs w) = p" "alloc ev (Suc (allocs w)) = z" "alloc ev (Suc (Suc (allocs w))) = s"
    by (simp_all add: b(4) ps)
  have nz: "\<forall>k < 3. alloc ev (allocs w + k) \<noteq> 0"
    using fresh_allocsD [OF fresh(1), of "?k + k" for k] fresh(2) by (simp add: b(4) add.assoc)
  note nb = new_blocks [OF fresh b(8) [unfolded b(4)], folded ps]
  then have old: "p \<notin> set ?bs" "z \<notin> set ?bs" "s \<notin> set ?bs" and dist: "p \<noteq> z" "p \<noteq> s" "z \<noteq> s" by auto
  have "queue_zone ?P q \<notin> queue_zone ?P ` set L"
    using new dirs by (auto simp: image_iff queue_zone_inject simp del: split_paired_All)
  with b(5) free have nm: "map_of (zones w) (queue_zone (data_port_id dat) q) = None"
    using b(2) by (simp add: same_port_def)
  obtain w' xd' where w': "setup_queue ev dev nb_desc q w = Inr w'" "eth_data dev w' = Inr (put_queue q p dat)"
    "engines w' = (engines w)(p \<mapsto> new_engine ev dat q w)"
    "blocks w' = (blocks w)(p \<mapsto> sizeof_xdma_engine, z \<mapsto> 1024 + zone_extra (fst q), s \<mapsto> 256)"
    "zones w' = (queue_zone (data_port_id dat) q, z) # zones w" "allocs w' = allocs w + 3"
    "hw_tables w' = hw_tables w" "xdevs w' = (xdevs w)(dev_private dat \<mapsto> xd')"
    "length (engine_h2c xd') = 4" "length (engine_c2h xd') = 4" "hw_access xd' = hw_access xd"
    "dev_configured xd' = dev_configured xd"
    using setup_queue_eq [OF b(1), of xd q ev nb_desc] xd b(2) ch len nz nm
    unfolding al same_port_def same_dev_def by auto
  let ?dat = "put_queue q p dat"
  have lenq: "unat (snd q) < length (queue_list dat (fst q))" using len b(2) by (simp add: same_port_def)
  have ptr: "queue_ptr ?dat x = (if x = q then p else queue_ptr dat x)" if "x \<in> set (L @ [q])" for x
    by (rule queue_ptr_put) (use dirs that lenq in auto)
  have eng: "engines w' (queue_ptr dat x) = engines w (queue_ptr dat x)" if "x \<in> set L" for x
  proof -
    have "queue_ptr dat x \<in> set ?bs" using queue_ptr_in_blocks b(6) that by blast
    then show ?thesis using old(1) by (auto simp: w'(3))
  qed
  have mapL: "map (queue_ptr ?dat) L = map (queue_ptr dat) L"
    by (rule map_cong [OF refl], subst ptr) (use new in auto)
  have keep: "all_blocks w' (map (queue_ptr dat) L) = ?bs" using eng by (intro all_blocks_cong) auto
  have new3: "queue_blocks w' p = [s, z, p]"
    by (simp add: queue_blocks_def w'(3) new_engine_def fresh_engine_def zero_engine_def al)
  have ptrq: "queue_ptr ?dat q = p" by (subst ptr) simp_all
  have bs: "all_blocks w' (map (queue_ptr ?dat) (L @ [q])) = ?bs @ [s, z, p]"
    by (simp only: map_append mapL list.map ptrq all_blocks_snoc keep new3)
  have "ports_built ev dev dat0 xd0 w0 (L @ [q]) ?dat w'"
    unfolding ports_built_def Let_def bs
  proof (intro conjI)
    show "eth_data dev w' = Inr ?dat" "hw_tables w' = hw_tables w0" using w' b(3) by simp_all
    show "same_port dat0 ?dat" by (rule same_port_put [OF b(2) lenq])
    show "\<exists>xd. deref (xdevs w') (dev_private dat0) = Inr xd \<and> same_dev xd0 xd"
      using w'(8-) xd b(2) by (simp add: same_dev_def same_port_def deref_eq_Inr)
    show "allocs w' = allocs w0 + 3 * length (L @ [q])" using w'(6) b(4) by simp
    show "\<forall>n. map_of (zones w0) n = None \<and> n \<notin> queue_zone ?P ` set (L @ [q]) \<longrightarrow> map_of (zones w') n = None"
      using b(2,5) by (simp add: w'(5) same_port_def)
    show "\<forall>x \<in> set (L @ [q]). queue_at ?dat w' x"
    proof
      fix x assume x: "x \<in> set (L @ [q])"
      show "queue_at ?dat w' x"
      proof (cases "x = q")
        case True
        then show ?thesis using ptr x dirs
          by (cases "fst q") (simp_all add: queue_at_def w'(3) new_engine_def fresh_engine_def zero_engine_def)
      next
        case False
        with x b(6) eng ptr show ?thesis by (simp add: queue_at_def)
      qed
    qed
    show "distinct (?bs @ [s, z, p])" using b(7) old dist by simp
    show "set (?bs @ [s, z, p]) \<subseteq> alloc ev ` {allocs w0..<allocs w'}"
      using b(8) by (auto simp: w'(6) b(4) ps)
    show "\<forall>b. blocks w' b \<noteq> None \<longleftrightarrow> b \<in> set (?bs @ [s, z, p]) \<or> blocks w0 b \<noteq> None"
      using b(9) by (auto simp: w'(4))
    show "\<forall>b. b \<notin> set (?bs @ [s, z, p]) \<longrightarrow> blocks w' b = blocks w0 b"
      using b(10) by (simp add: w'(4))
  qed
  with w'(1) show ?thesis by blast
qed

text \<open>A list of queues that fits a port: different queues, their channels in the queue arrays.\<close>

definition queues_fit :: "rte_eth_dev_data \<Rightarrow> queue_name list \<Rightarrow> bool" where
  "queues_fit dat L \<longleftrightarrow> distinct L \<and> (\<forall>q \<in> set L. fst q \<noteq> UNKNOWN \<and> unat (snd q) < 4 \<and>
     unat (snd q) < length (queue_list dat (fst q)))"

definition zones_free :: "u16 \<Rightarrow> queue_name list \<Rightarrow> world \<Rightarrow> bool" where
  "zones_free port L w \<longleftrightarrow> (\<forall>q \<in> set L. map_of (zones w) (queue_zone port q) = None)"

lemma setup_queues_built:
  assumes "ports_built ev dev dat0 xd0 w0 L dat w" and "queues_fit dat0 (L @ M)"
    and "fresh_allocs ev w0 n" and "3 * length (L @ M) \<le> n" and "zones_free (data_port_id dat0) (L @ M) w0"
  shows "\<exists>w' dat'. setup_queues ev dev nb_desc M w = Inr w' \<and> ports_built ev dev dat0 xd0 w0 (L @ M) dat' w'"
  using assms
proof (induction M arbitrary: L dat w)
  case Nil
  then show ?case by auto
next
  case (Cons q M)
  have "\<exists>w1 dat1. setup_queue ev dev nb_desc q w = Inr w1 \<and> ports_built ev dev dat0 xd0 w0 (L @ [q]) dat1 w1"
    by (rule setup_queue_built [OF Cons.prems(1) _ _ _ _ Cons.prems(3)])
       (use Cons.prems in \<open>auto simp: queues_fit_def zones_free_def\<close>)
  then obtain w1 dat1 where w1: "setup_queue ev dev nb_desc q w = Inr w1"
    "ports_built ev dev dat0 xd0 w0 (L @ [q]) dat1 w1" by blast
  from Cons.IH [OF w1(2)] Cons.prems w1(1) show ?case by simp
qed

section \<open>Bursts and the heap\<close>

text \<open>A burst on a live engine, in its direction.\<close>

definition burst_on :: "world \<Rightarrow> u64 \<Rightarrow> burst \<Rightarrow> bool" where
  "burst_on w p b \<longleftrightarrow> (\<exists>e. engines w p = Some e \<and> table_directed (xdev e) w \<and>
     burst_fits \<lparr>q_addr = p, q_engine = e, q_mbufs = UNIV\<rparr> b)"

text \<open>What a burst keeps: heap, devices, and of every engine all but its run state.\<close>

definition engines_kept :: "world \<Rightarrow> world \<Rightarrow> bool" where
  "engines_kept w w' \<longleftrightarrow> blocks w' = blocks w \<and> eth_devs w' = eth_devs w \<and> xdevs w' = xdevs w \<and>
     hw_tables w' = hw_tables w \<and>
     (\<forall>p. (case engines w p of None \<Rightarrow> engines w' p = None
        | Some e \<Rightarrow> (\<exists>e'. engines w' p = Some e' \<and> same_geometry e e')))"

lemma same_geometry_refl [simp]: "same_geometry e e"
  by (simp add: same_geometry_def)

lemma same_geometry_trans: "same_geometry e f \<Longrightarrow> same_geometry f g \<Longrightarrow> same_geometry e g"
  unfolding same_geometry_iff by fastforce

lemma engines_kept_refl [simp]: "engines_kept w w"
  by (simp add: engines_kept_def split: option.split)

lemma engines_kept_trans:
  assumes "engines_kept u v" and "engines_kept v w"
  shows "engines_kept u w"
  unfolding engines_kept_def
proof (intro conjI allI)
  fix p
  show "case engines u p of None \<Rightarrow> engines w p = None
      | Some e \<Rightarrow> \<exists>e'. engines w p = Some e' \<and> same_geometry e e'"
    using assms unfolding engines_kept_def
    by (auto split: option.splits dest!: spec [of _ p]) (blast intro: same_geometry_trans)
qed (use assms in \<open>simp_all add: engines_kept_def\<close>)

lemma burst_keeps:
  assumes "burst_on w p b" and "do_burst p b w = Inr (n, ps, w')"
  shows "engines_kept w w'"
proof -
  from assms(1) obtain e where e: "engines w p = Some e" "table_directed (xdev e) w"
    "burst_fits \<lparr>q_addr = p, q_engine = e, q_mbufs = UNIV\<rparr> b" by (auto simp: burst_on_def)
  let ?Q = "\<lparr>q_addr = p, q_engine = e, q_mbufs = UNIV\<rparr>"
  have "same_view ?Q w w" using e(1,2) by (simp add: same_view_def closed_mbufs_def)
  from do_burst_step [OF this e(3)] assms(2) obtain v where v: "tracks ?Q w w w' v" by auto
  then obtain e' where out: "outside_same ?Q w w'" and e': "engines w' p = Some e'" "same_geometry e e'"
    by (auto simp: tracks_def same_view_def)
  have "case engines w q of None \<Rightarrow> engines w' q = None | Some f \<Rightarrow> \<exists>f'. engines w' q = Some f' \<and> same_geometry f f'" for q
    using out e(1) e' by (cases "q = p") (auto simp: outside_same_def split: option.split)
  then show ?thesis using out by (simp add: engines_kept_def outside_same_def)
qed

lemma engines_kept_burst_on:
  assumes "engines_kept w w'" and "burst_on w p b"
  shows "burst_on w' p b"
proof -
  from assms(2) obtain e where e: "engines w p = Some e" "table_directed (xdev e) w"
    "burst_fits \<lparr>q_addr = p, q_engine = e, q_mbufs = UNIV\<rparr> b" by (auto simp: burst_on_def)
  then obtain e' where e': "engines w' p = Some e'" "same_geometry e e'"
    using assms(1) by (auto simp: engines_kept_def split: option.splits dest!: spec [of _ p])
  have "table_directed (xdev e) w' = table_directed (xdev e) w"
    by (rule table_directed_cong) (use assms(1) in \<open>simp_all add: engines_kept_def\<close>)
  with e e' show ?thesis by (cases b) (auto simp: burst_on_def same_geometryD [OF e'(2)])
qed

lemma run_bursts_keep:
  "\<forall>(p, b) \<in> set s. burst_on w p b \<Longrightarrow> run_bursts s w = Inr (rs, w') \<Longrightarrow> engines_kept w w'"
proof (induction s arbitrary: w rs)
  case Nil
  then show ?case by simp
next
  case (Cons x s)
  obtain p b where x: "x = (p, b)" by force
  from Cons.prems(2) obtain n ps w1 rs1 where one: "do_burst p b w = Inr (n, ps, w1)"
    and rest: "run_bursts s w1 = Inr (rs1, w')"
    by (auto simp: x andThen_eq_Inr split: prod.splits)
  have k: "engines_kept w w1" using Cons.prems(1) one by (auto simp: x intro: burst_keeps)
  then have "\<forall>(p, b) \<in> set s. burst_on w1 p b" using Cons.prems(1) by (auto intro: engines_kept_burst_on)
  from Cons.IH [OF this rest] k show ?case by (rule engines_kept_trans [rotated])
qed

lemma engines_kept_blocks:
  assumes "engines_kept w w'"
  shows "queue_blocks w' = queue_blocks w" and "all_blocks w' = all_blocks w"
    and "queue_at dat w q \<Longrightarrow> queue_at dat w' q"
proof -
  show blk: "queue_blocks w' = queue_blocks w"
  proof
    fix p
    show "queue_blocks w' p = queue_blocks w p"
    proof (cases "engines w p")
      case None
      then show ?thesis using assms by (auto simp: queue_blocks_def engines_kept_def dest!: spec [of _ p])
    next
      case (Some e)
      with assms obtain e' where "engines w' p = Some e'" "same_geometry e e'"
        by (auto simp: engines_kept_def dest!: spec [of _ p])
      then show ?thesis using Some by (auto simp: queue_blocks_def same_geometry_iff)
    qed
  qed
  show "all_blocks w' = all_blocks w" by (simp add: fun_eq_iff all_blocks_def blk)
  show "queue_at dat w' q" if "queue_at dat w q"
  proof -
    from that obtain e where e: "engines w (queue_ptr dat q) = Some e" "dir e = fst q" "xdev e = dev_private dat"
      by (auto simp: queue_at_def)
    with assms obtain e' where "engines w' (queue_ptr dat q) = Some e'" "same_geometry e e'"
      by (auto simp: engines_kept_def split: option.splits dest!: spec [of _ "queue_ptr dat q"])
    with e show ?thesis by (simp add: queue_at_def same_geometryD)
  qed
qed

section \<open>Closing and removing the device\<close>

text \<open>Every queue of the port is in \<open>L\<close>.\<close>

definition queues_complete :: "rte_eth_dev_data \<Rightarrow> queue_name list \<Rightarrow> bool" where
  "queues_complete dat L \<longleftrightarrow> tx_queues dat \<noteq> None \<and> rx_queues dat \<noteq> None \<and>
     unat (nb_tx_queues dat) = length (queue_list dat H2C) \<and> unat (nb_rx_queues dat) = length (queue_list dat C2H) \<and>
     (\<forall>i < length (queue_list dat H2C). (H2C, of_nat i) \<in> set L) \<and>
     (\<forall>i < length (queue_list dat C2H). (C2H, of_nat i) \<in> set L)"

definition port_order :: "rte_eth_dev_data \<Rightarrow> queue_name list" where
  "port_order dat = map (\<lambda>i. (C2H, of_nat i)) [0..<length (queue_list dat C2H)] @
     map (\<lambda>i. (H2C, of_nat i)) [0..<length (queue_list dat H2C)]"

lemma length_queues_u16:
  assumes "queues_complete dat L"
  shows "length (queue_list dat H2C) < 65536" "length (queue_list dat C2H) < 65536"
  using assms unat_u16_less [of "nb_tx_queues dat"] unat_u16_less [of "nb_rx_queues dat"]
  by (simp_all add: queues_complete_def)

lemma port_order_perm:
  assumes fit: "queues_fit dat L" and comp: "queues_complete dat L"
  shows "mset L = mset (port_order dat)"
proof -
  note len = length_queues_u16 [OF comp]
  have inj: "inj_on (\<lambda>i. (d, of_nat i :: u16)) {0..<n}" if "n < 65536" for n and d :: dma_data_direction
  proof (rule inj_onI)
    fix i j assume ij: "i \<in> {0..<n}" "j \<in> {0..<n}" and eq: "(d, of_nat i :: u16) = (d, of_nat j)"
    from ij that have i: "unat (of_nat i :: u16) = i" "unat (of_nat j :: u16) = j" by simp_all
    have "unat (of_nat i :: u16) = unat (of_nat j :: u16)" by (rule arg_cong) (use eq in simp)
    then show "i = j" unfolding i .
  qed
  have d1: "distinct L" using fit by (simp add: queues_fit_def)
  have d2: "distinct (port_order dat)"
    using inj len by (auto simp: port_order_def distinct_map)
  have "set L = set (port_order dat)"
  proof
    show "set (port_order dat) \<subseteq> set L" using comp by (auto simp: port_order_def queues_complete_def)
    show "set L \<subseteq> set (port_order dat)"
    proof
      fix q assume q: "q \<in> set L"
      then have "fst q \<noteq> UNKNOWN" "unat (snd q) < length (queue_list dat (fst q))"
        using fit by (auto simp: queues_fit_def)
      moreover have "q = (fst q, of_nat (unat (snd q)))" by simp
      ultimately show "q \<in> set (port_order dat)"
        unfolding port_order_def by (cases "fst q") (auto simp: image_iff simp del: of_nat_unat split_paired_All)
    qed
  qed
  with d1 d2 show ?thesis by (simp add: set_eq_iff_mset_eq_distinct)
qed

lemma port_order_ptrs:
  assumes "queues_complete dat0 L" and "same_port dat0 dat"
  shows "map (queue_ptr dat) (port_order dat0) = queue_list dat C2H @ queue_list dat H2C"
proof -
  have len: "length (queue_list dat d) = length (queue_list dat0 d)" for d using assms(2) by (simp add: same_port_def)
  have "map (\<lambda>i. queue_ptr dat (d, of_nat i)) [0..<length (queue_list dat d)] = queue_list dat d"
    if "length (queue_list dat d) < 65536" for d
    by (rule nth_equalityI) (use that in \<open>simp_all add: queue_ptr_def\<close>)
  then show ?thesis using length_queues_u16 [OF assms(1)] by (simp add: port_order_def len comp_def)
qed

lemma all_blocks_perm: "mset ps = mset qs \<Longrightarrow> mset (all_blocks w ps) = mset (all_blocks w qs)"
  by (simp add: all_blocks_def mset_concat flip: sum_mset_sum_list)

text \<open>Closing the port gives back what setup allocated, whatever bursts ran in between.\<close>

lemma pmd_close_built:
  assumes built: "ports_built ev dev dat0 xd0 w0 L dat w" and fit: "queues_fit dat0 L"
    and comp: "queues_complete dat0 L" and fresh: "fresh_allocs ev w0 (3 * length L)"
    and kept: "engines_kept w v" and port: "port_dev (uint port) = dev"
  shows "\<exists>u dat'. rte_pmd_xdma_dev_close port_dev port v = Inr u \<and> blocks u = blocks w0 \<and>
    eth_data dev u = Inr dat' \<and> nb_rx_queues dat' = 0 \<and> nb_tx_queues dat' = 0 \<and> \<not> dev_started dat' \<and>
    dev_private dat' = dev_private dat0 \<and> mac_addrs dat' = mac_addrs dat0 \<and> xdevs u = xdevs w"
proof -
  let ?rq = "queue_list dat C2H" and ?tq = "queue_list dat H2C"
  let ?bs = "all_blocks w (map (queue_ptr dat) L)"
  have b: "eth_data dev w = Inr dat" "same_port dat0 dat" "\<forall>q \<in> set L. queue_at dat w q" "distinct ?bs"
    "set ?bs \<subseteq> alloc ev ` {allocs w0..<allocs w}" "allocs w = allocs w0 + 3 * length L"
    "\<forall>b. blocks w b \<noteq> None \<longleftrightarrow> b \<in> set ?bs \<or> blocks w0 b \<noteq> None" "\<forall>b. b \<notin> set ?bs \<longrightarrow> blocks w b = blocks w0 b"
    using built [unfolded ports_built_def Let_def] by blast+
  have k: "blocks v = blocks w" "eth_devs v = eth_devs w" "xdevs v = xdevs w" using kept by (simp_all add: engines_kept_def)
  have new: "x \<noteq> 0 \<and> blocks w0 x = None" if "x \<in> set ?bs" for x
    using that b(5) fresh by (auto simp: b(6) fresh_allocs_def)
  have "mset (map (queue_ptr dat) L) = mset (?rq @ ?tq)"
    using port_order_perm [OF fit comp] port_order_ptrs [OF comp b(2)] by (metis mset_map)
  then have perm: "mset (all_blocks w (?rq @ ?tq)) = mset ?bs" by (intro all_blocks_perm) simp
  then have dist: "distinct (all_blocks v (?rq @ ?tq))" and set: "set (all_blocks v (?rq @ ?tq)) = set ?bs"
    using b(4) mset_eq_imp_distinct_iff [OF perm] mset_eq_setD [OF perm]
    by (simp_all add: engines_kept_blocks(2) [OF kept])
  have sub: "map (queue_ptr dat) (port_order dat0) = ?rq @ ?tq" by (rule port_order_ptrs [OF comp b(2)])
  have ptr: "\<exists>q \<in> set L. fst q = d \<and> p = queue_ptr dat q" if "p \<in> set (queue_list dat d)" "d \<noteq> UNKNOWN" for p d
  proof -
    from that(1) obtain i where i: "i < length (queue_list dat d)" "p = queue_list dat d ! i"
      by (auto simp: in_set_conv_nth)
    have len: "length (queue_list dat d) = length (queue_list dat0 d)" using b(2) by (simp add: same_port_def)
    then have "i < 65536" using i(1) that(2) length_queues_u16 [OF comp] by (cases d) simp_all
    then have "p = queue_ptr dat (d, of_nat i)" using i by (simp add: queue_ptr_def)
    moreover have "(d, of_nat i) \<in> set L"
      using comp i(1) len that(2) by (cases d) (simp_all add: queues_complete_def)
    ultimately show ?thesis by force
  qed
  have own: "queue_owned d v p" if "p \<in> set (queue_list dat d)" "d \<noteq> UNKNOWN" for p d
  proof -
    from ptr [OF that] obtain q where q: "q \<in> set L" "fst q = d" "p = queue_ptr dat q" by blast
    with b(3) engines_kept_blocks(3) [OF kept] have "queue_at dat v q" by blast
    moreover have "set (queue_blocks v p) \<subseteq> set ?bs"
      using q by (auto simp: engines_kept_blocks(1) [OF kept] all_blocks_def)
    ultimately show ?thesis using q new b(7) by (auto simp: queue_owned_def queue_at_def k(1))
  qed
  have "eth_data dev v = Inr dat" using b(1) k(2) by (simp add: eth_data_def)
  moreover have "queues_ok dat ?tq ?rq"
  proof -
    have some: "tx_queues dat \<noteq> None" "rx_queues dat \<noteq> None" and n: "unat (nb_tx_queues dat) = length ?tq"
      "unat (nb_rx_queues dat) = length ?rq"
      using comp b(2) by (auto simp: queues_complete_def same_port_def)
    then show ?thesis by (auto simp: queues_ok_def queue_list_def)
  qed
  ultimately obtain u dat' where u: "rte_pmd_xdma_dev_close port_dev port v = Inr u"
    "blocks u = blocks v |` (- set (all_blocks v (?rq @ ?tq)))" "eth_data dev u = Inr dat'" "nb_rx_queues dat' = 0"
    "nb_tx_queues dat' = 0" "\<not> dev_started dat'" "xdevs u = xdevs v" "dev_private dat' = dev_private dat"
    "mac_addrs dat' = mac_addrs dat"
    using pmd_close_eq [where port_dev = port_dev and port = port, OF _ port _ _ _ dist] own by blast
  have "blocks u = blocks w0"
  proof
    fix x
    show "blocks u x = blocks w0 x"
      using new [of x] b(8) by (cases "x \<in> set ?bs") (simp_all add: u(2) set k(1))
  qed
  with u b(2) k(3) show ?thesis by (auto simp: same_port_def)
qed

text \<open>Uninit of a device without queues gives back the MAC address and the function table.\<close>

lemma uninit_eq:
  assumes "eth_data dev w = Inr dat" and "\<not> dev_started dat" and "nb_rx_queues dat = 0" and "nb_tx_queues dat = 0"
    and "deref (xdevs w) (dev_private dat) = Inr d" and "mac_addrs dat = m" and "hw_access d = h"
    and "m \<noteq> 0" and "h \<noteq> 0" and "m \<noteq> h" and "blocks w m = Some x" and "blocks w h = Some y"
  shows "\<exists>w'. xdma_eth_dev_uninit True dev w = Inr (0, w') \<and> blocks w' = (blocks w)(m := None, h := None)"
proof -
  obtain ed where ed: "dev \<noteq> 0" "eth_devs w dev = Some ed" "data ed = Some dat"
    using assms(1) by (auto simp: eth_data_def andThen_eq_Inr deref_eq_Inr split: option.splits)
  have xd: "dev_private dat \<noteq> 0" "xdevs w (dev_private dat) = Some d" using assms(5) by (simp_all add: deref_eq_Inr)
  have "xdma_dev_close dev w = Inr w" using assms(1-4) by (simp add: xdma_dev_close_def)
  then have "(if dev_configured d then xdma_dev_close dev w else Inr w) = Inr w" by simp
  then show ?thesis
    using ed xd assms(6-12) not_sym [OF assms(10)]
    by (simp add: xdma_eth_dev_uninit_def eth_data_def set_eth_data_def rte_free_def Let_def)
qed

lemma close_and_remove:
  assumes built: "ports_built ev dev dat1 xd0 w3 L dat w4" and fit: "queues_fit dat1 L" "queues_complete dat1 L"
    and fresh: "fresh_allocs ev w3 (3 * length L)" and kept: "engines_kept w4 w5" and port: "port_dev (uint port) = dev"
    and own: "mac_addrs dat1 = m" "hw_access xd0 = h" "m \<noteq> 0" "h \<noteq> 0" "m \<noteq> h"
    and blk: "blocks w3 = (blocks w)(m \<mapsto> x, h \<mapsto> y)" "blocks w m = None" "blocks w h = None"
  shows "\<exists>w6 w7. rte_pmd_xdma_dev_close port_dev port w5 = Inr w6 \<and> blocks w6 = blocks w3 \<and>
    xdma_eth_dev_uninit True dev w6 = Inr (0, w7) \<and> blocks w7 = blocks w"
proof -
  obtain w6 dat6 where w6: "rte_pmd_xdma_dev_close port_dev port w5 = Inr w6" "blocks w6 = blocks w3"
    "eth_data dev w6 = Inr dat6" "nb_rx_queues dat6 = 0" "nb_tx_queues dat6 = 0" "\<not> dev_started dat6"
    "dev_private dat6 = dev_private dat1" "mac_addrs dat6 = mac_addrs dat1" "xdevs w6 = xdevs w4"
    using pmd_close_built [where port_dev = port_dev, OF built fit fresh kept port] by blast
  obtain xd where xd: "deref (xdevs w4) (dev_private dat1) = Inr xd" "hw_access xd = h"
    using built own(2) by (auto simp: ports_built_def same_dev_def)
  obtain w7 where "xdma_eth_dev_uninit True dev w6 = Inr (0, w7)" "blocks w7 = (blocks w6)(m := None, h := None)"
    using uninit_eq [OF w6(3,6,4,5), of xd m h] w6(2,7,8,9) xd own by (auto simp: blk(1))
  moreover have "(blocks w6)(m := None, h := None) = blocks w"
    using blk(2,3) by (auto simp: w6(2) blk(1) fun_eq_iff)
  ultimately show ?thesis using w6(1,2) by auto
qed

section \<open>Properties\<close>

text \<open>The structure of the port after init and after \<open>rte_eth_dev_configure\<close> has sized its queue arrays.\<close>

definition configured_data :: "u64 \<Rightarrow> u64 list \<Rightarrow> u64 list \<Rightarrow> rte_eth_dev_data \<Rightarrow> rte_eth_dev_data" where
  "configured_data m tq rq dat = dat\<lparr>mac_addrs := m, tx_queues := Some tq, rx_queues := Some rq,
     nb_tx_queues := of_nat (length tq), nb_rx_queues := of_nat (length rq)\<rparr>"


end
