(* ===== verification/Regs.thy ===== *)
theory Regs
  imports Engine
begin

text \<open>
  The register overlays of \<open>xdma.h\<close> and the register map of \<open>xdma_regs.h\<close>.  The driver
  describes the device's registers twice: by structures that lie over a window of registers,
  and by numbers it uses in its accesses.  Here the structures are layouts, lists of fields
  with their sizes in words, and the two descriptions are compared.
\<close>

section \<open>Layouts\<close>

text \<open>A field with the number of \<open>uint32_t\<close> it takes.\<close>

type_synonym layout = "(string \<times> nat) list"

definition engine_regs_layout :: layout where
  "engine_regs_layout = [(''identifier'', 1), (''control'', 1), (''control_w1s'', 1), (''control_w1c'', 1),
     (''reserved_1'', 12), (''status'', 1), (''status_rc'', 1), (''completed_desc_count'', 1),
     (''alignments'', 1), (''reserved_2'', 14), (''poll_mode_wb_lo'', 1), (''poll_mode_wb_hi'', 1),
     (''interrupt_enable_mask'', 1), (''interrupt_enable_mask_w1s'', 1), (''interrupt_enable_mask_w1c'', 1),
     (''reserved_3'', 9), (''perf_ctrl'', 1), (''perf_cyc_lo'', 1), (''perf_cyc_hi'', 1), (''perf_dat_lo'', 1),
     (''perf_dat_hi'', 1), (''perf_pnd_lo'', 1), (''perf_pnd_hi'', 1)]"

definition config_regs_layout :: layout where
  "config_regs_layout = [(''identifier'', 1), (''reserved_1'', 4), (''msi_enable'', 1)]"

definition engine_sgdma_regs_layout :: layout where
  "engine_sgdma_regs_layout = [(''identifier'', 1), (''reserved_1'', 31), (''first_desc_lo'', 1),
     (''first_desc_hi'', 1), (''first_desc_adjacent'', 1), (''credits'', 1)]"

definition sgdma_common_regs_layout :: layout where
  "sgdma_common_regs_layout = [(''padding'', 8), (''credit_mode_enable'', 1), (''credit_mode_enable_w1s'', 1),
     (''credit_mode_enable_w1c'', 1)]"

text \<open>\<open>offsetof\<close> from a starting offset, and \<open>sizeof\<close>.\<close>

primrec field_offset :: "layout \<Rightarrow> string \<Rightarrow> nat \<Rightarrow> nat option" where
  "field_offset [] f k = None"
| "field_offset (x # xs) f k = (if fst x = f then Some k else field_offset xs f (k + 4 * snd x))"

definition layout_size :: "layout \<Rightarrow> nat" where
  "layout_size l = 4 * sum_list (map snd l)"

lemma field_offset_bound:
  "field_offset l f k = Some j \<Longrightarrow> \<forall>x \<in> set l. 0 < snd x \<Longrightarrow> k \<le> j \<and> j + 4 \<le> k + layout_size l"
proof (induction l arbitrary: k)
  case Nil
  then show ?case by simp
next
  case (Cons x l)
  show ?case
  proof (cases "fst x = f")
    case True
    with Cons.prems show ?thesis by (simp add: layout_size_def)
  next
    case False
    with Cons.prems Cons.IH [of "k + 4 * snd x"] show ?thesis by (simp add: layout_size_def)
  qed
qed

section \<open>Windows\<close>

text \<open>The blocks of registers a channel has, in each direction.\<close>

datatype reg_block = Channel_Block | Sgdma_Block

definition block_layout :: "reg_block \<Rightarrow> layout" where
  "block_layout b = (case b of Channel_Block \<Rightarrow> engine_regs_layout | Sgdma_Block \<Rightarrow> engine_sgdma_regs_layout)"

definition block_base :: "dma_data_direction \<Rightarrow> reg_block \<Rightarrow> u32" where
  "block_base d b = (case b of
     Channel_Block \<Rightarrow> if d = H2C then 0x0000 else 0x1000
   | Sgdma_Block \<Rightarrow> if d = H2C then 0x4000 else 0x5000)"

text \<open>The register of a field in the window of a channel.\<close>

definition field_reg :: "dma_data_direction \<Rightarrow> 2 word \<Rightarrow> reg_block \<times> string \<Rightarrow> u32" where
  "field_reg d ch x = block_base d (fst x) + ucast ch * 0x100 +
     of_nat (case field_offset (block_layout (fst x)) (snd x) 0 of None \<Rightarrow> 0 | Some k \<Rightarrow> k)"

definition start_fields :: "(reg_block \<times> string) list" where
  "start_fields = [(Sgdma_Block, ''first_desc_lo''), (Sgdma_Block, ''first_desc_hi''),
     (Channel_Block, ''poll_mode_wb_lo''), (Channel_Block, ''poll_mode_wb_hi''), (Channel_Block, ''control'')]"

lemmas layout_defs = engine_regs_layout_def engine_sgdma_regs_layout_def block_layout_def block_base_def field_reg_def

lemma chan_reg_field:
  "chan_reg H2C_SGDMA_DESC_LO_ADDR e = field_reg H2C (channel e) (Sgdma_Block, ''first_desc_lo'')"
  "chan_reg H2C_SGDMA_DESC_HI_ADDR e = field_reg H2C (channel e) (Sgdma_Block, ''first_desc_hi'')"
  "chan_reg H2C_SGDMA_DESC_ADJ e = field_reg H2C (channel e) (Sgdma_Block, ''first_desc_adjacent'')"
  "chan_reg H2C_POLL_MODE_LO_WB_ADDR e = field_reg H2C (channel e) (Channel_Block, ''poll_mode_wb_lo'')"
  "chan_reg H2C_POLL_MODE_HI_WB_ADDR e = field_reg H2C (channel e) (Channel_Block, ''poll_mode_wb_hi'')"
  "chan_reg H2C_CHANNEL_CTRL e = field_reg H2C (channel e) (Channel_Block, ''control'')"
  "chan_reg H2C_INTERRUPT_ENABLE_MASK e = field_reg H2C (channel e) (Channel_Block, ''interrupt_enable_mask'')"
  "chan_reg C2H_SGDMA_DESC_LO_ADDR e = field_reg C2H (channel e) (Sgdma_Block, ''first_desc_lo'')"
  "chan_reg C2H_SGDMA_DESC_HI_ADDR e = field_reg C2H (channel e) (Sgdma_Block, ''first_desc_hi'')"
  "chan_reg C2H_SGDMA_DESC_ADJ e = field_reg C2H (channel e) (Sgdma_Block, ''first_desc_adjacent'')"
  "chan_reg C2H_POLL_MODE_LO_WB_ADDR e = field_reg C2H (channel e) (Channel_Block, ''poll_mode_wb_lo'')"
  "chan_reg C2H_POLL_MODE_HI_WB_ADDR e = field_reg C2H (channel e) (Channel_Block, ''poll_mode_wb_hi'')"
  "chan_reg C2H_CHANNEL_CTRL e = field_reg C2H (channel e) (Channel_Block, ''control'')"
  "chan_reg C2H_INTERRUPT_ENABLE_MASK e = field_reg C2H (channel e) (Channel_Block, ''interrupt_enable_mask'')"
  by (simp_all add: chan_reg_def layout_defs c_consts)

text \<open>A channel's structures fit into its window of 256 bytes.\<close>

lemma layouts_fit: "layout_size (block_layout b) \<le> 0x100"
  by (cases b) (simp_all add: layout_size_def layout_defs)

section \<open>The control word\<close>

definition ctrl_bits :: "u32 list" where
  "ctrl_bits = [CTRL_RUN_STOP, CTRL_IE_DESC_STOPPED, CTRL_IE_DESC_COMPLETED, CTRL_IE_DESC_ALIGN_MISMATCH,
     CTRL_IE_MAGIC_STOPPED, CTRL_IE_INVALID_LENGTH, CTRL_IE_IDLE_STOPPED, CTRL_IE_READ_ERROR,
     CTRL_IE_WRITE_ERROR, CTRL_IE_DESC_ERROR, CTRL_NON_INCR_ADDR, CTRL_POLL_MODE_WB, CTRL_STM_MODE_WB]"

section \<open>Properties\<close>

text \<open>
  C29. The numbers and the structures agree: what starting and stopping an engine writes goes
  to the fields first_desc_lo, first_desc_hi, (for transmission) first_desc_adjacent,
  poll_mode_wb_lo, poll_mode_wb_hi and control of the structures that lie over the windows of
  its channel, in this order, and to control alone.
\<close>

theorem engine_writes_overlay_fields:
  assumes "engine_at p a e r w"
  shows "(\<exists>w'. xdma_tx_engine_start p f adj w = Inr w' \<and> map fst (mmio w') = map fst (mmio w) @
      map (\<lambda>x. a + ucast (field_reg H2C (channel e) x))
        (take 2 start_fields @ (Sgdma_Block, ''first_desc_adjacent'') # drop 2 start_fields)) \<and>
    (\<exists>w'. xdma_rx_engine_start p f w = Inr w' \<and> map fst (mmio w') = map fst (mmio w) @
      map (\<lambda>x. a + ucast (field_reg C2H (channel e) x)) start_fields) \<and>
    (\<exists>w'. xdma_tx_engine_stop p w = Inr w' \<and>
      map fst (mmio w') = map fst (mmio w) @ [a + ucast (field_reg H2C (channel e) (Channel_Block, ''control''))]) \<and>
    (\<exists>w'. xdma_rx_engine_stop p w = Inr w' \<and>
      map fst (mmio w') = map fst (mmio w) @ [a + ucast (field_reg C2H (channel e) (Channel_Block, ''control''))])"
  using tx_start_eq [OF assms] rx_start_eq [OF assms] tx_stop_eq [OF assms] rx_stop_eq [OF assms]
  by (simp_all add: start_fields_def chan_reg_field)

text \<open>
  The fields of the control word do not overlap; a started engine runs, with polled
  write-back and every interrupt source enabled but invalid length, idle stop and write error,
  with incrementing addresses and without stream write-back; a stopped one differs in RUN only.
\<close>

theorem control_word_fields:
  "sorted_wrt (\<lambda>x y. x AND y = 0) ctrl_bits \<and>
   filter (\<lambda>m. start_ctrl AND m \<noteq> 0) ctrl_bits = [CTRL_RUN_STOP, CTRL_IE_DESC_STOPPED, CTRL_IE_DESC_COMPLETED,
     CTRL_IE_DESC_ALIGN_MISMATCH, CTRL_IE_MAGIC_STOPPED, CTRL_IE_READ_ERROR, CTRL_IE_DESC_ERROR, CTRL_POLL_MODE_WB] \<and>
   (\<forall>m \<in> set ctrl_bits. start_ctrl AND m = m \<or> start_ctrl AND m = 0) \<and>
   stop_ctrl OR CTRL_RUN_STOP = start_ctrl \<and> stop_ctrl AND CTRL_RUN_STOP = 0"
  by (simp add: ctrl_bits_def start_ctrl_def stop_ctrl_def c_consts)

end
