(* ===== verification/Witnesses_Lifetime.thy ===== *)
theory Witnesses_Lifetime
  imports Witnesses_Isolation Witnesses_Device Lifetime Regs
begin

text \<open>
  The life of the device of \<open>Examples\<close> with one transmit and one receive queue, and the
  register overlays on its engine.
\<close>

definition ex_queues :: "queue_name list" where "ex_queues = [(H2C, 0), (C2H, 0)]"

definition ex_configured :: rte_eth_dev_data where "ex_configured = configured_data 0x10000 [0] [0] ex_data"

lemma ex_fresh: "fresh_allocs ex_env (ex_world e) (2 + 3 * length ex_queues)"
proof -
  have "{allocs (ex_world e)..<allocs (ex_world e) + (2 + 3 * length ex_queues)} = {0, 1, 2, 3, 4, 5, 6, 7}"
    by (auto simp: ex_world_def empty_world_def ex_queues_def)
  then show ?thesis
    by (simp add: fresh_allocs_def) (simp add: ex_env_def ex_world_def empty_world_def)
qed


theorem engine_writes_overlay_fields_witness:
  "\<exists>w'. xdma_tx_engine_stop 0x300 (ex_world (ex_engine H2C)) = Inr w' \<and>
     map fst (mmio w') = map fst (mmio (ex_world (ex_engine H2C))) @ [0xA0000004]"
proof -
  have "0xA0000000 + ucast (field_reg H2C (channel (ex_engine H2C)) (Channel_Block, ''control'')) = (0xA0000004 :: u64)"
    by (simp add: layout_defs ex_engine_def zero_engine_def)
  then show ?thesis using engine_writes_overlay_fields [OF ex_idle_engine [of H2C]] by simp
qed

end
