(* ===== verification/Typing.thy ===== *)
theory Typing
  imports Lifecycle Pmd_Api
begin

text \<open>
  The type invariant of the driver's memory: the shape of every structure, kept by every
  operation of the driver, whatever its arguments and whatever the hardware answers.
\<close>

section \<open>Well-typed memory\<close>

text \<open>
  A device has its arrays of 6 BARs and 4 engines per direction, and user and bypass BAR are
  indices of BARs or -1; a ring has 32 descriptors and an engine knows it; a MAC address has 6
  bytes; a function table is complete.
\<close>

definition dev_shape :: "xdma_dev \<Rightarrow> bool" where
  "dev_shape d \<longleftrightarrow> length (bar d) = 6 \<and> length (engine_h2c d) = 4 \<and> length (engine_c2h d) = 4 \<and>
     - 1 \<le> user_bar_idx d \<and> user_bar_idx d < 6 \<and> - 1 \<le> bypass_bar_idx d \<and> bypass_bar_idx d < 6"

definition engine_shape :: "xdma_engine \<Rightarrow> bool" where
  "engine_shape e \<longleftrightarrow> magic e = XDMA_ENGINE_MAGIC_NUMBER \<and> desc_max e = 32"

definition well_typed :: "world \<Rightarrow> bool" where
  "well_typed w \<longleftrightarrow> (\<forall>p d. xdevs w p = Some d \<longrightarrow> dev_shape d) \<and>
     (\<forall>p e. engines w p = Some e \<longrightarrow> engine_shape e) \<and>
     (\<forall>p r. rings w p = Some r \<longrightarrow> length r = 32) \<and>
     (\<forall>p m. macs w p = Some m \<longrightarrow> length m = RTE_ETHER_ADDR_LEN) \<and>
     (\<forall>p t. hw_tables w p = Some t \<longrightarrow> t = xdma_hw_access_init)"

named_theorems typed \<open>operations keep memory well-typed\<close>

lemma well_typedD:
  "well_typed w \<Longrightarrow> xdevs w p = Some d \<Longrightarrow> dev_shape d"
  "well_typed w \<Longrightarrow> engines w p = Some e \<Longrightarrow> engine_shape e"
  "well_typed w \<Longrightarrow> rings w p = Some r \<Longrightarrow> length r = 32"
  by (simp_all add: well_typed_def)

lemma well_typed_other [simp]:
  "well_typed (w\<lparr>words := x\<rparr>) = well_typed w" "well_typed (w\<lparr>mbufs := y\<rparr>) = well_typed w"
  "well_typed (w\<lparr>eth_devs := z\<rparr>) = well_typed w" "well_typed (w\<lparr>blocks := b\<rparr>) = well_typed w"
  "well_typed (w\<lparr>zones := q\<rparr>) = well_typed w" "well_typed (w\<lparr>allocs := n\<rparr>) = well_typed w"
  "well_typed (w\<lparr>mmio := l\<rparr>) = well_typed w"
  by (simp_all add: well_typed_def)

lemma well_typed_engine:
  "well_typed w \<Longrightarrow> engine_shape e \<Longrightarrow> well_typed (w\<lparr>engines := (engines w)(p \<mapsto> e)\<rparr>)"
  by (simp add: well_typed_def)

lemma well_typed_dev:
  "well_typed w \<Longrightarrow> dev_shape d \<Longrightarrow> well_typed (w\<lparr>xdevs := (xdevs w)(p \<mapsto> d)\<rparr>)"
  by (simp add: well_typed_def)

lemma well_typed_drop: "well_typed w \<Longrightarrow> well_typed (drop_block p n w)"
  by (simp add: well_typed_def drop_block_def)

lemma engine_shape_upd [simp]:
  "engine_shape (e\<lparr>running := r\<rparr>) = engine_shape e" "engine_shape (e\<lparr>desc_used := u\<rparr>) = engine_shape e"
  "engine_shape (e\<lparr>status := s\<rparr>) = engine_shape e" "engine_shape (e\<lparr>poll_mode_addr_virt := v\<rparr>) = engine_shape e"
  by (simp_all add: engine_shape_def)

section \<open>Results that keep it\<close>

text \<open>\<open>post Q m\<close>: if the call returns, \<open>Q\<close> holds of its result.\<close>

definition post :: "('a \<Rightarrow> bool) \<Rightarrow> fault + 'a \<Rightarrow> bool" where
  "post Q m \<longleftrightarrow> (\<forall>x. m = Inr x \<longrightarrow> Q x)"

abbreviation post_world :: "fault + world \<Rightarrow> bool" where
  "post_world \<equiv> post well_typed"

abbreviation post_pair :: "fault + 'a \<times> world \<Rightarrow> bool" where
  "post_pair \<equiv> post (\<lambda>x. well_typed (snd x))"

lemma postI: "(\<And>x. m = Inr x \<Longrightarrow> Q x) \<Longrightarrow> post Q m"
  by (simp add: post_def)

lemma postD: "post Q m \<Longrightarrow> m = Inr x \<Longrightarrow> Q x"
  by (simp add: post_def)

lemma post_Inr [simp]: "post Q (Inr x) = Q x" and post_Inl [simp]: "post Q (Inl e)"
  by (simp_all add: post_def)

lemma post_seq: "post P m \<Longrightarrow> (\<And>x. P x \<Longrightarrow> post Q (f x)) \<Longrightarrow> post Q (andThen m f)"
  by (auto simp: post_def andThen_eq_Inr)

lemma post_any: "(\<And>x. m = Inr x \<Longrightarrow> post Q (f x)) \<Longrightarrow> post Q (andThen m f)"
  by (auto simp: post_def andThen_eq_Inr)

lemma post_world_seq: "post_world m \<Longrightarrow> (\<And>w. well_typed w \<Longrightarrow> post Q (f w)) \<Longrightarrow> post Q (andThen m f)"
  by (rule post_seq)

lemma post_pair_seq:
  "post_pair m \<Longrightarrow> (\<And>a w. well_typed w \<Longrightarrow> post Q (f (a, w))) \<Longrightarrow> post Q (andThen m f)"
  by (auto simp: post_def andThen_eq_Inr)

lemma post_for_loop:
  assumes "P s" and "\<And>i s. P s \<Longrightarrow> post P (body i s)"
  shows "post P (for_loop a n body s)"
proof (rule postI)
  fix t assume t: "for_loop a n body s = Inr t"
  show "P t" using for_loop_invariant [where P = "\<lambda>_. P", OF assms(1) t] postD [OF assms(2)] by blast
qed

section \<open>Primitive operations\<close>

lemma mmio_store_typed [simp]: "well_typed (mmio_store a v w) = well_typed w"
  by (simp add: mmio_store_def)

lemma reg_write_typed [typed]: "well_typed w \<Longrightarrow> post_world (xdma_reg_write h off v w)"
  by (simp add: xdma_reg_write_def post_any)

lemma user_write_typed [typed]: "well_typed w \<Longrightarrow> post_world (xdma_user_write h off v w)"
  by (simp add: xdma_user_write_def post_any)

lemma bus_typed [typed]: "well_typed w \<Longrightarrow> post_world (bus_program (xdma_reg_write h) xs w)"
proof (induction xs arbitrary: w)
  case Nil
  then show ?case by (simp add: bus_program.simps)
next
  case (Cons x xs)
  then show ?case by (auto simp: bus_program.simps intro!: post_world_seq reg_write_typed)
qed

lemma store_word_typed [typed]: "well_typed w \<Longrightarrow> post_world (store_word a v w)"
  by (simp add: store_word_def post_any)

lemma update_ring_typed:
  assumes "well_typed w" and "\<And>r. length r = 32 \<Longrightarrow> post (\<lambda>r'. length r' = length r) (f r)"
  shows "post_world (update_ring b f w)"
proof (rule postI)
  fix w' assume "update_ring b f w = Inr w'"
  then obtain r r' where r: "rings w b = Some r" "f r = Inr r'" "w' = w\<lparr>rings := (rings w)(b \<mapsto> r')\<rparr>"
    by (auto simp: update_ring_def andThen_eq_Inr deref_eq_Inr)
  have "length r = 32" using assms(1) r(1) by (rule well_typedD)
  with assms(2) r(2) have "length r' = 32" using postD by fastforce
  with assms(1) r(3) show "well_typed w'" by (simp add: well_typed_def)
qed

lemma modify_length: "post (\<lambda>r'. length r' = n) (modify_idx i f r)" if "length r = n"
  using that by (auto intro!: postI simp: modify_idx_eq_Inr)

lemma ring_init_typed [typed]: "well_typed w \<Longrightarrow> post_world (xdma_desc_ring_init ev e w)"
  unfolding xdma_desc_ring_init_def
  by (rule update_ring_typed, assumption, rule post_for_loop) (simp_all add: modify_length)

lemma ring_clear_typed [typed]: "well_typed w \<Longrightarrow> post_world (xdma_desc_ring_clear e w)"
  unfolding xdma_desc_ring_clear_def
  by (rule update_ring_typed, assumption, rule post_for_loop) (simp_all add: modify_length)

lemma desc_at_typed [typed]: "well_typed w \<Longrightarrow> post_world (desc_at p i f w)"
  unfolding desc_at_def by (rule post_any, rule update_ring_typed) (simp_all add: modify_length)

lemma free_typed [typed]: "well_typed w \<Longrightarrow> post_world (rte_free p w)"
  by (auto simp: rte_free_def well_typed_drop split: option.split)

lemma memzone_free_typed [typed]: "well_typed w \<Longrightarrow> post_world (rte_memzone_free p w)"
  by (auto simp: rte_memzone_free_def intro!: post_world_seq free_typed)

lemma alloc_typed: "well_typed w \<Longrightarrow> well_typed (snd (rte_alloc ev n w))"
  by (simp add: rte_alloc_def Let_def)

section \<open>Engines\<close>

lemma engine_typed: "well_typed w \<Longrightarrow> deref (engines w) p = Inr e \<Longrightarrow> engine_shape e"
  by (auto simp: deref_eq_Inr intro: well_typedD)

lemma tx_start_typed [typed]: "well_typed w \<Longrightarrow> post_world (xdma_tx_engine_start p f adj w)"
  by (auto simp: xdma_tx_engine_start_def Let_def intro!: post_any bus_typed well_typed_engine dest: engine_typed)

lemma rx_start_typed [typed]: "well_typed w \<Longrightarrow> post_world (xdma_rx_engine_start p f w)"
  by (auto simp: xdma_rx_engine_start_def Let_def intro!: post_any bus_typed well_typed_engine dest: engine_typed)

lemma tx_stop_typed [typed]: "well_typed w \<Longrightarrow> post_world (xdma_tx_engine_stop p w)"
  unfolding xdma_tx_engine_stop_def Let_def
  by (rule post_any, rule post_world_seq, erule reg_write_typed, rule post_world_seq, erule ring_clear_typed,
      rule store_word_typed) (auto intro!: well_typed_engine dest: engine_typed)

lemma rx_stop_typed [typed]: "well_typed w \<Longrightarrow> post_world (xdma_rx_engine_stop p w)"
  unfolding xdma_rx_engine_stop_def
  by (rule post_any, rule post_world_seq, erule reg_write_typed, rule post_world_seq, erule ring_clear_typed,
      rule post_world_seq, erule store_word_typed) (auto intro!: well_typed_engine dest: engine_typed)

lemma stop_fn_typed: "well_typed w \<Longrightarrow> post_world (engine_stop_fn f p w)"
  by (auto simp: engine_stop_fn_def tx_stop_typed rx_stop_typed split: option.split engine_stop_fn.split)

lemma call_typed [typed]:
  "well_typed w \<Longrightarrow> post_world (call_tx_start xd p f adj w)" "well_typed w \<Longrightarrow> post_world (call_rx_start xd p f w)"
  "well_typed w \<Longrightarrow> post_world (call_tx_stop xd p w)" "well_typed w \<Longrightarrow> post_world (call_rx_stop xd p w)"
  unfolding call_tx_start_def call_rx_start_def call_tx_stop_def call_rx_stop_def
  by (auto intro!: post_any tx_start_typed rx_start_typed stop_fn_typed split: option.split tx_start_fn.split rx_start_fn.split)

section \<open>Setup\<close>

lemma zone_typed: "well_typed w \<Longrightarrow> well_typed (snd (xdma_zone_reserve ev port nm ch sz w))"
  by (simp add: xdma_zone_reserve_def rte_memzone_reserve_def rte_alloc_def Let_def)

lemma format_zone_typed: "well_typed w \<Longrightarrow> n = 32 \<Longrightarrow> well_typed (format_zone ev p n sz w)"
  by (simp add: format_zone_def well_typed_def)

lemma engine_setup_typed: "well_typed w \<Longrightarrow> post_pair (engine_setup ev d tag extra dev ch w)"
  unfolding engine_setup_def Let_def split_beta
  by (rule post_any)
     (auto simp: engine_shape_def XDMA_DESC_MAX_def intro!: post_world_seq ring_init_typed format_zone_typed
        alloc_typed zone_typed well_typed_engine)

lemma set_eth_data_typed [typed]: "well_typed w \<Longrightarrow> post_world (set_eth_data dev x w)"
  by (auto simp: set_eth_data_def intro!: post_any)

lemma dev_typed: "well_typed w \<Longrightarrow> deref (xdevs w) p = Inr d \<Longrightarrow> dev_shape d"
  by (auto simp: deref_eq_Inr intro: well_typedD)

lemma install_tx_typed: "well_typed w \<Longrightarrow> post_world (install_tx dev ch p w)"
  unfolding install_tx_def Let_def
  by (intro post_any)
     (auto simp: store_idx_eq_Inr dev_shape_def intro!: set_eth_data_typed well_typed_dev dest!: dev_typed [rotated])

lemma install_rx_typed: "well_typed w \<Longrightarrow> post_world (install_rx dev ch p w)"
  unfolding install_rx_def Let_def
  by (intro post_any)
     (auto simp: store_idx_eq_Inr dev_shape_def intro!: set_eth_data_typed well_typed_dev dest!: dev_typed [rotated])

lemma tx_setup_typed [typed]: "well_typed w \<Longrightarrow> post_world (xdma_tx_engine_setup ev dev ch nb w)"
  unfolding xdma_tx_engine_setup_def
  by (rule post_pair_seq, erule engine_setup_typed) (simp add: install_tx_typed)

lemma rx_setup_typed [typed]: "well_typed w \<Longrightarrow> post_world (xdma_rx_engine_setup ev dev ch nb w)"
  unfolding xdma_rx_engine_setup_def
  by (rule post_pair_seq, erule engine_setup_typed) (simp add: install_rx_typed)

section \<open>Bursts\<close>

lemma post_deref [typed]: "(\<And>x. t p = Some x \<Longrightarrow> post Q (f x)) \<Longrightarrow> post Q (andThen (deref t p) f)"
  by (rule post_any) (simp add: deref_eq_Inr)

lemma post_load [typed]: "(\<And>x. post Q (f x)) \<Longrightarrow> post Q (andThen (load_idx xs i) f)"
  by (rule post_any)

lemma post_store [typed]: "(\<And>x. post Q (f x)) \<Longrightarrow> post Q (andThen (store_idx xs i v) f)"
  by (rule post_any)

lemma post_store_int:
  "(\<And>ys. length ys = length xs \<Longrightarrow> post Q (f ys)) \<Longrightarrow> post Q (andThen (store_int xs i v) f)"
  by (rule post_any) (auto simp: store_int_def store_idx_eq_Inr split: if_splits)

lemma get_desc_typed: "well_typed w \<Longrightarrow> post_pair (get_desc p w)"
  unfolding get_desc_def Let_def
  by (rule post_deref) (auto intro!: well_typed_engine dest: well_typedD)

lemmas world_seq [typed] =
  post_world_seq [OF desc_at_typed] post_world_seq [OF store_word_typed] post_pair_seq [OF get_desc_typed]
  post_world_seq [OF call_typed(1)] post_world_seq [OF call_typed(2)] post_world_seq [OF call_typed(3)]
  post_world_seq [OF call_typed(4)]

lemma h2c_loop_typed: "well_typed w \<Longrightarrow> post_world (h2c_desc_loop n mb p w)"
proof (induction n mb p w rule: h2c_desc_loop.induct)
  case (1 mb p w)
  then show ?case by simp
next
  case (2 n mb p w)
  then show ?case by (auto intro!: typed)
qed

lemma h2c_set_typed: "well_typed w \<Longrightarrow> post_world (xdma_h2c_desc_set p mb w)"
  unfolding xdma_h2c_desc_set_def by (rule post_deref) (rule h2c_loop_typed)

lemma tx_fill_typed: "well_typed w \<Longrightarrow> post_pair (tx_fill pkts n c avail p w)"
proof (induction n arbitrary: c avail w)
  case 0
  then show ?case by simp
next
  case (Suc n)
  then show ?case by (auto simp: Let_def intro!: post_deref post_load post_world_seq [OF h2c_set_typed])
qed

lemma adjacency_typed: "well_typed w \<Longrightarrow> post_world (adjacency_loop c p m w)"
  unfolding adjacency_loop_def by (rule post_for_loop) (auto intro: desc_at_typed)

lemma xmit_prepare_typed: "well_typed w \<Longrightarrow> post_pair (xmit_prepare p pkts nb w)"
  unfolding xmit_prepare_def Let_def
  by (auto intro!: typed post_pair_seq [OF tx_fill_typed] post_world_seq [OF adjacency_typed])

lemma xmit_typed: "well_typed w \<Longrightarrow> post_pair (xdma_xmit_pkts hw p pkts nb w)"
  unfolding xdma_xmit_pkts_def Let_def
  by (rule post_deref)
     (auto intro!: typed post_pair_seq [OF xmit_prepare_typed] well_typed_engine dest: well_typedD split: option.split)

lemma c2h_set_typed: "well_typed w \<Longrightarrow> post_world (xdma_c2h_desc_set p mb w)"
  unfolding xdma_c2h_desc_set_def by (auto intro!: post_deref world_seq desc_at_typed)

lemma rx_fill_typed: "well_typed w \<Longrightarrow> post_world (rx_fill pkts n p w)"
  unfolding rx_fill_def by (rule post_for_loop) (auto intro!: post_load c2h_set_typed)

lemma rx_post_typed: "well_typed w \<Longrightarrow> post_pair (rx_post p pkts nb w)"
  unfolding rx_post_def Let_def
  by (rule post_any, rule post_world_seq, erule rx_fill_typed, rule post_world_seq, erule call_typed) simp

abbreviation post_burst :: "fault + u16 \<times> u64 list \<times> world \<Rightarrow> bool" where
  "post_burst \<equiv> post (\<lambda>x. well_typed (snd (snd x)))"

lemma prepare_typed: "well_typed w \<Longrightarrow> post_burst (prepare_packets swb p pkts n c w)"
proof -
  assume wt: "well_typed w"
  have one: "post_pair (prepare_segmented_packet swb p i ps u)" if "well_typed u" for i ps u
    unfolding prepare_segmented_packet_def Let_def using that by (auto intro!: post_deref post_load world_seq)
  have "post_pair (for_loop a k (prepare_round swb p) (pkts, w))" for a k
    by (rule post_for_loop) (auto simp: wt prepare_round_def intro!: post_pair_seq [OF one] post_load post_store)
  then show ?thesis unfolding prepare_packets_def by (rule post_seq) (simp split: prod.split)
qed

lemma collect_typed: "well_typed w \<Longrightarrow> post_burst (rx_collect hw swb p pkts w)"
  unfolding rx_collect_def Let_def
  by (rule post_deref, frule (1) well_typedD(2))
     (auto intro!: post_world_seq [OF store_word_typed] post_seq [OF prepare_typed] well_typed_engine
        split: option.split)

lemma tail_typed: "well_typed w \<Longrightarrow> post_burst (rx_tail hw swb xd p pkts nb w)"
  unfolding rx_tail_def by (rule post_seq, erule collect_typed) (auto intro!: post_deref world_seq)

lemma recv_typed: "well_typed w \<Longrightarrow> post_burst (xdma_recv_pkts hw swb p pkts nb w)"
  unfolding xdma_recv_pkts_def Let_def
  by (rule post_deref)
     (auto intro!: post_pair_seq [OF rx_post_typed] well_typed_engine tail_typed dest: well_typedD)

section \<open>Devices\<close>

lemma poll_rx_typed: "well_typed w \<Longrightarrow> post_pair (xdma_poll_rx_complete hw d q w)"
  unfolding xdma_poll_rx_complete_def Let_def
  by (rule post_deref, frule (1) well_typedD(1), rule post_any)
     (auto simp: dev_shape_def intro!: world_seq post_store_int well_typed_dev split: option.split)

lemma poll_tx_typed: "well_typed w \<Longrightarrow> post_pair (xdma_poll_tx_complete hw d nb q w)"
  unfolding xdma_poll_tx_complete_def Let_def
  by (auto intro!: post_deref post_any split: option.split)

lemma dev_start_typed: "well_typed w \<Longrightarrow> post_world (xdma_dev_start dev w)"
  unfolding xdma_dev_start_def user_interrupts_enable_def channel_interrupts_enable_def
  by (rule post_any) (auto intro!: post_world_seq reg_write_typed)

lemma dev_stop_typed: "well_typed w \<Longrightarrow> post_world (xdma_dev_stop dev w)"
  unfolding xdma_dev_stop_def
  by (rule post_any, rule post_world_seq, erule post_for_loop)
     (auto intro!: post_any tx_stop_typed rx_stop_typed post_for_loop)

lemma release_typed: "well_typed w \<Longrightarrow> post_world (release_engine d p w)"
  unfolding release_engine_def
  by (rule post_deref) (auto intro!: post_world_seq [OF free_typed] post_world_seq [OF memzone_free_typed] free_typed)

lemma dev_close_typed: "well_typed w \<Longrightarrow> post_world (xdma_dev_close dev w)"
  unfolding xdma_dev_close_def
  by (rule post_any, rule post_world_seq, simp add: dev_stop_typed, rule post_world_seq, erule post_for_loop)
     (auto intro!: post_any release_typed post_for_loop)

lemma configure_typed: "well_typed w \<Longrightarrow> post_world (xdma_dev_configure dev w)"
  unfolding xdma_dev_configure_def
  by (rule post_any, rule post_deref) (auto simp: dev_shape_def intro!: well_typed_dev dest: well_typedD(1))

lemma ops_init_typed: "well_typed w \<Longrightarrow> post_world (xdma_dev_ops_init dev w)"
  unfolding xdma_dev_ops_init_def xdma_set_rx_function_def xdma_set_tx_function_def
  by (rule post_deref) (auto simp: post_def andThen_eq_Inr deref_eq_Inr)

section \<open>Init and uninit\<close>

text \<open>
  The DPDK argument library reaches the driver's data only through the handler it is given: what
  the handler keeps, the library keeps.
\<close>

definition kv_keeps :: "kvargs \<Rightarrow> bool" where
  "kv_keeps kv \<longleftrightarrow> (\<forall>kvl key h Q d. (\<forall>v d. Q d \<longrightarrow> Q (snd (h v d))) \<longrightarrow> Q d \<longrightarrow> Q (snd (kv_process kv kvl key h d)))"

lemma check_kvargs_shape:
  assumes "kv_keeps kv" and "dev_shape d"
  shows "dev_shape (snd (xdma_check_kvargs kv args d))"
proof -
  have h: "\<forall>v d. dev_shape d \<longrightarrow> dev_shape (snd (config_bar_idx_handler v d))"
    by (simp add: config_bar_idx_handler_def dev_shape_def Let_def)
  have "dev_shape (snd (kv_process kv kvl key config_bar_idx_handler d))" for kvl key
    using assms h unfolding kv_keeps_def by blast
  then show ?thesis
    using assms(2) by (auto simp: xdma_check_kvargs_def split: option.split)
qed

lemma bypass_search_less: "bypass_search res u c i n = Inr (Some j) \<Longrightarrow> j < i + n"
  by (induction res u c i n rule: bypass_search.induct)
     (fastforce simp: andThen_eq_Inr split: if_splits)+

lemma user_bar_search_less: "user_bar_search m i n = Some j \<Longrightarrow> j < i + n"
  by (induction m i n rule: user_bar_search.induct) (fastforce split: if_splits)+

lemma get_user_bar_less: "snd (xdma_get_user_bar d) = Some b \<Longrightarrow> unat b < 6"
  using user_bar_search_less [of 1 0 XDMA_BAR_NUM]
  by (auto simp: xdma_get_user_bar_def XDMA_BAR_NUM_def unat_of_nat split: if_splits option.splits)

lemma assign_bars_shape:
  assumes "dev_shape d" and "\<forall>b. snd ub = Some b \<longrightarrow> unat b < 6"
  shows "post dev_shape (assign_bars res ub d)"
proof -
  obtain r u where ub: "ub = (r, u)" by (cases ub)
  have "(case u of None \<Rightarrow> 0 | Some b \<Rightarrow> unat b) < 6"
    using assms(2) ub by (simp split: option.split)
  then have user: "post (\<lambda>i. - 1 \<le> i \<and> i < 6) (if none
      then andThen (load_idx res 1) (\<lambda>b. Inr (if res_len b = 0 then 2 else 1))
      else Inr (int (case u of None \<Rightarrow> 0 | Some b \<Rightarrow> unat b)))" for none
    by (simp add: post_load)
  show ?thesis
    unfolding assign_bars_def ub Let_def prod.case
  proof (rule post_any, rule post_seq [OF user], rule post_any)
    fix user bp
    assume i: "- 1 \<le> user \<and> user < 6"
      and bp: "bypass_search res user (config_bar_idx (d\<lparr>user_bar_idx := user\<rparr>)) 0 XDMA_BAR_NUM = Inr bp"
    show "post dev_shape (Inr (case bp of None \<Rightarrow> d\<lparr>user_bar_idx := user\<rparr>
        | Some i \<Rightarrow> d\<lparr>user_bar_idx := user, bypass_bar_idx := int i\<rparr>))"
    proof (cases bp)
      case None
      then show ?thesis using assms(1) i by (simp add: dev_shape_def)
    next
      case (Some j)
      then have "j < 6" using bypass_search_less [OF bp [unfolded Some]] by (simp add: XDMA_BAR_NUM_def)
      then show ?thesis using assms(1) i Some by (simp add: dev_shape_def)
    qed
  qed
qed

lemma set_xdev_typed: "well_typed w \<Longrightarrow> dev_shape d \<Longrightarrow> well_typed (set_xdev p d w)"
  by (simp add: set_xdev_def well_typed_dev)

lemma call_user_bar_less: "post (\<lambda>ub. \<forall>b. snd ub = Some b \<longrightarrow> unat b < 6) (call_get_user_bar dev d w)"
  unfolding call_get_user_bar_def
  by (rule post_any) (simp add: get_user_bar_less split: option.split user_bar_fn.split)

lemma identify_typed: "well_typed w \<Longrightarrow> post_pair (xdma_identify_bars dev w)"
  unfolding xdma_identify_bars_def
  by (rule post_any, rule post_any, rule post_deref, frule (1) well_typedD(1), rule post_any)
     (auto intro!: post_seq [OF call_user_bar_less] post_seq [OF assign_bars_shape] well_typed_dev)

lemma map_bar_shape: "dev_shape d \<Longrightarrow> post dev_shape (map_bar res i d)"
  unfolding map_bar_def
  by (rule post_any, rule post_store_int) (simp add: dev_shape_def)

lemma map_other_bars_shape: "dev_shape d \<Longrightarrow> post dev_shape (map_other_bars res d)"
  unfolding map_other_bars_def
  by (rule post_seq [where P = dev_shape]) (simp_all add: map_bar_shape)

lemma default_bars_shape: "dev_shape d \<Longrightarrow> dev_shape (default_bars d)"
  by (simp add: default_bars_def dev_shape_def BAR_ID_INVALID_def)

lemma dev_shape_upd [simp]:
  "dev_shape (d\<lparr>hw_access := h\<rparr>) = dev_shape d" "dev_shape (d\<lparr>trigger_mode := t\<rparr>) = dev_shape d"
  by (simp_all add: dev_shape_def)

lemma hw_fill_typed: "well_typed w \<Longrightarrow> well_typed (w\<lparr>hw_tables := (hw_tables w)(h \<mapsto> xdma_hw_access_init)\<rparr>)"
  by (simp add: well_typed_def)

lemma set_fill_typed:
  "well_typed w \<Longrightarrow> dev_shape d
    \<Longrightarrow> well_typed (set_xdev p d w\<lparr>hw_tables := (hw_tables w)(h \<mapsto> xdma_hw_access_init)\<rparr>)"
  using hw_fill_typed [OF set_xdev_typed] by (simp add: set_xdev_def)

lemma mac_typed: "well_typed w \<Longrightarrow> well_typed (w\<lparr>macs := (macs w)(p \<mapsto> dummy_mac)\<rparr>)"
  by (simp add: well_typed_def dummy_mac_def)

lemma alloc_pair_typed: "rte_alloc ev n w = (h, u) \<Longrightarrow> well_typed w \<Longrightarrow> well_typed u"
  using alloc_typed [of w ev n] by simp

lemma init_bars_typed:
  assumes "well_typed w" and "dev_shape d"
  shows "post_pair (init_bars ev dev mac res p d w)"
proof -
  obtain h u where h: "rte_alloc ev sizeof_xdma_hw_access w = (h, u)"
    by (cases "rte_alloc ev sizeof_xdma_hw_access w")
  note u = alloc_pair_typed [OF h assms(1)]
  have rest: "post_pair (andThen (xdma_identify_bars dev v) (\<lambda>(idx, w).
     if idx < 0 then andThen (rte_free h w) (\<lambda>w. andThen (rte_free mac w) (\<lambda>w. Inr (- EINVAL, w))) else
     andThen (deref (xdevs w) p) (\<lambda>d.
     andThen (map_other_bars res d) (\<lambda>d.
     andThen (xdma_dev_ops_init dev (set_xdev p d w)) (\<lambda>w.
     Inr (0, set_xdev p (d\<lparr>trigger_mode := trig_value RTE_PMD_QDMA_TRIG_MODE_USER_TIMER\<rparr>) w))))))"
    if "well_typed v" for v
    by (rule post_pair_seq [OF identify_typed [OF that]])
       (auto intro!: post_world_seq [OF free_typed] post_deref post_seq [OF map_other_bars_shape]
          post_world_seq [OF ops_init_typed] set_xdev_typed dest: well_typedD(1))
  then show ?thesis
    unfolding init_bars_def h Let_def
    using u assms(2)
    by (auto simp: hw_access_fill_def
        intro!: post_seq [OF map_bar_shape] post_world_seq [OF free_typed] set_xdev_typed rest set_fill_typed)
qed

lemma init_primary_typed:
  assumes "kv_keeps kv" and "well_typed w"
  shows "post_pair (init_primary ev kv args dev dat res w)"
proof -
  obtain m u where m: "rte_alloc ev (RTE_ETHER_ADDR_LEN * 1) w = (m, u)"
    by (cases "rte_alloc ev (RTE_ETHER_ADDR_LEN * 1) w")
  note u = alloc_pair_typed [OF m assms(2)]
  have shape: "dev_shape d'" if "dev_shape d" "xdma_check_kvargs kv args (default_bars d) = (r, d')" for r d d'
    using check_kvargs_shape [OF assms(1) default_bars_shape [OF that(1)], of args] that(2) by simp
  show ?thesis
    unfolding init_primary_def m Let_def prod.case
    by (rule post_world_seq [OF set_eth_data_typed [OF u]])
       (auto intro!: post_deref post_world_seq [OF free_typed] init_bars_typed set_xdev_typed mac_typed
          intro: shape [OF well_typedD(1)] split: prod.split)
qed

lemma eth_init_typed:
  "kv_keeps kv \<Longrightarrow> well_typed w \<Longrightarrow> post_pair (xdma_eth_dev_init ev kv prim args dev w)"
  unfolding xdma_eth_dev_init_def
  by (auto intro!: post_deref init_primary_typed post_world_seq [OF ops_init_typed] split: option.split)

lemma post_world_opt:
  assumes "well_typed w" and "post_world m" and "\<And>w. well_typed w \<Longrightarrow> post Q (f w)"
  shows "post Q (andThen (if b then m else Inr w) f)"
  by (rule post_world_seq [of "if b then m else Inr w"]) (simp_all add: assms)

lemma post_dev:
  "well_typed w \<Longrightarrow> (\<And>d. dev_shape d \<Longrightarrow> post Q (f d)) \<Longrightarrow> post Q (andThen (deref (xdevs w) p) f)"
  using well_typedD(1) by (blast intro: post_deref)

lemma eth_uninit_typed: "well_typed w \<Longrightarrow> post_pair (xdma_eth_dev_uninit prim dev w)"
  unfolding xdma_eth_dev_uninit_def Let_def
  by (rule post_any)
     (auto intro!: post_dev post_deref [of "eth_devs w" for w] post_world_opt post_world_seq [OF free_typed]
        post_world_seq [OF set_eth_data_typed] set_eth_data_typed set_xdev_typed dev_close_typed
        post_any [of "eth_data d w" for d w])

section \<open>Application interface\<close>

lemma pmd_close_typed: "well_typed w \<Longrightarrow> post_world (rte_pmd_xdma_dev_close port_dev port w)"
  unfolding rte_pmd_xdma_dev_close_def Let_def
  by (auto intro!: post_any [of "eth_data d w" for d w] post_world_seq [OF set_eth_data_typed]
        post_world_seq [OF dev_close_typed] set_eth_data_typed)

lemma rte_write_typed: "well_typed w \<Longrightarrow> post_world (rte_user_write port_dev port off v w)"
  unfolding rte_user_write_def by (rule post_any) (rule user_write_typed)

lemma rte_poll_typed: "well_typed w \<Longrightarrow> post_pair (rte_poll_complete hw port_dev port q nb tx w)"
  unfolding rte_poll_complete_def
  by (rule post_any) (auto intro!: post_pair_seq [OF poll_rx_typed] post_pair_seq [OF poll_tx_typed])

lemma link_typed: "well_typed w \<Longrightarrow> post_world (xdma_dev_link_update dev w)"
  unfolding xdma_dev_link_update_def by (rule post_any) (rule set_eth_data_typed)

lemma compat_copy_typed:
  assumes "well_typed w"
  shows "post_world (rte_pmd_xdma_compat_memzone_reserve_aligned ev port_dev max_ports sz w)"
proof -
  have "well_typed (snd (rte_memzone_reserve ev nm n w))" for nm n
    using assms by (simp add: rte_memzone_reserve_def rte_alloc_def Let_def)
  then have "rte_memzone_reserve ev nm n w = (m, u) \<Longrightarrow> well_typed u" for nm n m u
    by (metis snd_conv)
  then show ?thesis
    unfolding rte_pmd_xdma_compat_memzone_reserve_aligned_def Let_def
    by (auto intro!: post_for_loop post_deref split: prod.split)
qed

section \<open>Every sequence of calls\<close>

text \<open>
  One step of the world: a call of the driver that returns, whatever its arguments and whatever
  the hardware answers, or a step of the rest of the system, which may change packet buffers,
  words the device writes and the data of the device layer.
\<close>

inductive driver_step :: "env \<Rightarrow> kvargs \<Rightarrow> world \<Rightarrow> world \<Rightarrow> bool" for ev kv where
  init: "xdma_eth_dev_init ev kv prim args dev w = Inr (r, w') \<Longrightarrow> driver_step ev kv w w'"
| uninit: "xdma_eth_dev_uninit prim dev w = Inr (r, w') \<Longrightarrow> driver_step ev kv w w'"
| configure: "xdma_dev_configure dev w = Inr w' \<Longrightarrow> driver_step ev kv w w'"
| link: "xdma_dev_link_update dev w = Inr w' \<Longrightarrow> driver_step ev kv w w'"
| start: "xdma_dev_start dev w = Inr w' \<Longrightarrow> driver_step ev kv w w'"
| stop: "xdma_dev_stop dev w = Inr w' \<Longrightarrow> driver_step ev kv w w'"
| close: "xdma_dev_close dev w = Inr w' \<Longrightarrow> driver_step ev kv w w'"
| tx_setup: "xdma_tx_engine_setup ev dev ch nb w = Inr w' \<Longrightarrow> driver_step ev kv w w'"
| rx_setup: "xdma_rx_engine_setup ev dev ch nb w = Inr w' \<Longrightarrow> driver_step ev kv w w'"
| tx_start: "xdma_tx_engine_start p f adj w = Inr w' \<Longrightarrow> driver_step ev kv w w'"
| rx_start: "xdma_rx_engine_start p f w = Inr w' \<Longrightarrow> driver_step ev kv w w'"
| tx_stop: "xdma_tx_engine_stop p w = Inr w' \<Longrightarrow> driver_step ev kv w w'"
| rx_stop: "xdma_rx_engine_stop p w = Inr w' \<Longrightarrow> driver_step ev kv w w'"
| transmit: "xdma_xmit_pkts hw p tx nb w = Inr (n, w') \<Longrightarrow> driver_step ev kv w w'"
| receive: "xdma_recv_pkts hw swb p rx nb w = Inr (n, rx', w') \<Longrightarrow> driver_step ev kv w w'"
| poll: "rte_poll_complete hw port_dev port q m tx w = Inr (i, w') \<Longrightarrow> driver_step ev kv w w'"
| pmd_close: "rte_pmd_xdma_dev_close port_dev prt w = Inr w' \<Longrightarrow> driver_step ev kv w w'"
| user_write: "rte_user_write port_dev port off v w = Inr w' \<Longrightarrow> driver_step ev kv w w'"
| compat: "rte_pmd_xdma_compat_memzone_reserve_aligned ev port_dev max_ports sz w = Inr w' \<Longrightarrow> driver_step ev kv w w'"
| outside: "driver_step ev kv w (w\<lparr>mbufs := ms, words := ws, eth_devs := es\<rparr>)"

lemma post_pairD: "m = Inr (a, w) \<Longrightarrow> post_pair m \<Longrightarrow> well_typed w"
  and post_worldD: "n = Inr w \<Longrightarrow> post_world n \<Longrightarrow> well_typed w"
  and post_burstD: "k = Inr (b, ps, w) \<Longrightarrow> post_burst k \<Longrightarrow> well_typed w"
  by (auto dest: postD)

lemmas preserved = post_pairD [OF _ eth_init_typed] post_pairD [OF _ eth_uninit_typed] post_pairD [OF _ xmit_typed]
  post_pairD [OF _ rte_poll_typed] post_burstD [OF _ recv_typed] post_worldD [OF _ configure_typed]
  post_worldD [OF _ link_typed] post_worldD [OF _ dev_start_typed] post_worldD [OF _ dev_stop_typed]
  post_worldD [OF _ dev_close_typed] post_worldD [OF _ tx_setup_typed] post_worldD [OF _ rx_setup_typed]
  post_worldD [OF _ tx_start_typed] post_worldD [OF _ rx_start_typed] post_worldD [OF _ tx_stop_typed]
  post_worldD [OF _ rx_stop_typed] post_worldD [OF _ pmd_close_typed] post_worldD [OF _ rte_write_typed] post_worldD [OF _ compat_copy_typed]

lemma driver_step_typed: "driver_step ev kv w w' \<Longrightarrow> kv_keeps kv \<Longrightarrow> well_typed w \<Longrightarrow> well_typed w'"
  by (induction rule: driver_step.induct) (simp; fail | erule preserved; assumption)+


end
