(* ===== verification/App_Ports.thy ===== *)
theory App_Ports
  imports Pmd_Api
begin

text \<open>
  Port management of the test applications, \<open>testapp_count.c\<close> and \<open>testapp_inter.c\<close>: bringing
  a port up, closing, removing and resetting it, the event callbacks, and the start and the end
  of \<open>main\<close>.  The two programs share the text of most of these functions.

  The driver's own functions are those of the other theories.  The functions of DPDK are a
  parameter: the record \<open>dpdk\<close> has one field per function, acting on the state \<open>sys\<close>, of which
  \<open>rest\<close> is what only DPDK knows (memory pools, the state of its bus).  The application's
  variable \<open>pinfo\<close> is out of its reach.  Log messages are left out.
\<close>

section \<open>State\<close>

definition XDMA_MAX_PORTS :: nat where [c_consts]: "XDMA_MAX_PORTS = 256"
definition NUM_TX_PKTS :: int where [c_consts]: "NUM_TX_PKTS = 32"
definition NUM_RX_PKTS :: nat where [c_consts]: "NUM_RX_PKTS = 32"
definition SIZE_OF_PKTS_BUFFER :: nat where [c_consts]: "SIZE_OF_PKTS_BUFFER = 32"
definition MP_CACHE_SZ :: u32 where [c_consts]: "MP_CACHE_SZ = 512"
definition RTE_PKTMBUF_HEADROOM :: int where [c_consts]: "RTE_PKTMBUF_HEADROOM = 128"
definition ENOMSG :: int where "ENOMSG = 42"

text \<open>\<open>queue_base\<close> is never used.  A spinlock is taken or free.\<close>

record port_info =
  pi_config_bar_idx :: int
  pi_user_bar_idx :: int
  pi_bypass_bar_idx :: int
  num_queues :: u32
  nb_descs :: u32
  st_queues :: u32
  buff_size :: u32
  port_update_lock :: bool
  mem_pool :: string

record 'x sys =
  mem :: world
  fp_ops :: "eth_fp_ops list"
  rest :: 'x

record 'x app =
  sys :: "'x sys"
  pinfo :: "port_info list"

text \<open>
  The configuration structures handed to DPDK: all zero, zero with the multi-queue modes set
  to none, or the defaults of the device without offloads.
\<close>

datatype conf = Conf_zero | Conf_mq_none | Conf_default

datatype eth_event = RTE_ETH_EVENT_INTR_RMV | RTE_ETH_EVENT_INTR_RESET | Event_other nat

record 'x dpdk =
  port_dev :: "int \<Rightarrow> u64"
  max_ethports :: nat
  sizeof_eth_dev :: nat
  eal_init :: "'x sys \<Rightarrow> int \<times> 'x sys"
  dev_count_avail :: "'x sys \<Rightarrow> u16"
  is_valid_port :: "u16 \<Rightarrow> 'x sys \<Rightarrow> bool"
  callback_register :: "eth_event \<Rightarrow> 'x sys \<Rightarrow> int \<times> 'x sys"
  callback_unregister :: "eth_event \<Rightarrow> 'x sys \<Rightarrow> int \<times> 'x sys"
  eth_dev_configure :: "u16 \<Rightarrow> u16 \<Rightarrow> u16 \<Rightarrow> conf \<Rightarrow> 'x sys \<Rightarrow> fault + int \<times> 'x sys"
  eth_tx_queue_setup :: "u16 \<Rightarrow> u16 \<Rightarrow> u16 \<Rightarrow> u32 \<Rightarrow> conf \<Rightarrow> 'x sys \<Rightarrow> fault + int \<times> 'x sys"
  eth_rx_queue_setup :: "u16 \<Rightarrow> u16 \<Rightarrow> u16 \<Rightarrow> u32 \<Rightarrow> conf \<Rightarrow> u64 \<Rightarrow> 'x sys \<Rightarrow> fault + int \<times> 'x sys"
  eth_dev_start :: "u16 \<Rightarrow> 'x sys \<Rightarrow> fault + int \<times> 'x sys"
  eth_dev_stop :: "u16 \<Rightarrow> 'x sys \<Rightarrow> fault + int \<times> 'x sys"
  eth_dev_reset :: "u16 \<Rightarrow> 'x sys \<Rightarrow> fault + int \<times> 'x sys"
  promiscuous_enable :: "u16 \<Rightarrow> 'x sys \<Rightarrow> fault + int \<times> 'x sys"
  dev_socket_id :: "u16 \<Rightarrow> u32"
  dev_remove :: "mem_resource list option \<Rightarrow> 'x sys \<Rightarrow> fault + int \<times> 'x sys"
  mempool_lookup :: "string \<Rightarrow> 'x sys \<Rightarrow> u64"
  mempool_free :: "u64 \<Rightarrow> 'x sys \<Rightarrow> fault + 'x sys"
  pktmbuf_pool_create :: "string \<Rightarrow> u32 \<Rightarrow> u32 \<Rightarrow> u16 \<Rightarrow> u16 \<Rightarrow> 'x sys \<Rightarrow> u64 \<times> 'x sys"
  pktmbuf_alloc :: "u64 \<Rightarrow> 'x sys \<Rightarrow> u64 \<times> 'x sys"

text \<open>Calls: of a DPDK function, of one whose failure ends the process, of a driver function.\<close>

definition dpdk_call :: "('x sys \<Rightarrow> fault + int \<times> 'x sys) \<Rightarrow> 'x app \<Rightarrow> fault + int \<times> 'x app" where
  "dpdk_call f s = andThen (f (sys s)) (\<lambda>(r, y). Inr (r, s\<lparr>sys := y\<rparr>))"

definition call_or_exit :: "('x sys \<Rightarrow> fault + int \<times> 'x sys) \<Rightarrow> 'x app \<Rightarrow> fault + 'x app" where
  "call_or_exit f s = andThen (dpdk_call f s) (\<lambda>(r, s). if r < 0 then Inl Exited else Inr s)"

definition driver_call :: "(world \<Rightarrow> fault + world) \<Rightarrow> 'x app \<Rightarrow> fault + 'x app" where
  "driver_call f s = andThen (f (mem (sys s))) (\<lambda>w. Inr (s\<lparr>sys := (sys s)\<lparr>mem := w\<rparr>\<rparr>))"

definition upd_port :: "int \<Rightarrow> (port_info \<Rightarrow> port_info) \<Rightarrow> 'x app \<Rightarrow> fault + 'x app" where
  "upd_port port f s =
     andThen (load_int (pinfo s) port) (\<lambda>p.
     andThen (store_int (pinfo s) port (f p)) (\<lambda>ps. Inr (s\<lparr>pinfo := ps\<rparr>)))"

text \<open>Taking a lock that is taken waits for another thread to release it, for ever if there is none.\<close>

definition spinlock_lock :: "int \<Rightarrow> 'x app \<Rightarrow> fault + 'x app" where
  "spinlock_lock port s =
     andThen (load_int (pinfo s) port) (\<lambda>p.
     if port_update_lock p then Inl Hang else upd_port port (\<lambda>p. p\<lparr>port_update_lock := True\<rparr>) s)"

definition spinlock_unlock :: "int \<Rightarrow> 'x app \<Rightarrow> fault + 'x app" where
  "spinlock_unlock port s = upd_port port (\<lambda>p. p\<lparr>port_update_lock := False\<rparr>) s"

definition get_device :: "'x dpdk \<Rightarrow> int \<Rightarrow> 'x app \<Rightarrow> fault + mem_resource list option" where
  "get_device E port s = rte_pmd_xdma_get_device (port_dev E) port (mem (sys s))"

section \<open>Closing and removing a port\<close>

definition port_close :: "'x dpdk \<Rightarrow> int \<Rightarrow> 'x app \<Rightarrow> fault + 'x app" where
  "port_close E port s =
     andThen (get_device E port s) (\<lambda>dev.
     if dev = None then Inr s else
     andThen (load_int (pinfo s) port) (\<lambda>_.
     andThen (dpdk_call (eth_dev_stop E (of_int port)) s) (\<lambda>(_, s).
     andThen (driver_call (rte_pmd_xdma_dev_close (port_dev E) (of_int port)) s) (\<lambda>s.
     andThen (upd_port port (\<lambda>p. p\<lparr>num_queues := 0\<rparr>) s) (\<lambda>s.
     andThen (load_int (pinfo s) port) (\<lambda>p.
     let mp = mempool_lookup E (mem_pool p) (sys s) in
     if mp \<noteq> 0 then andThen (mempool_free E mp (sys s)) (\<lambda>y. Inr (s\<lparr>sys := y\<rparr>)) else Inr s))))))"

definition port_detach :: "'x dpdk \<Rightarrow> int \<Rightarrow> 'x app \<Rightarrow> fault + int \<times> 'x app" where
  "port_detach E port s =
     andThen (rte_pmd_xdma_dev_remove (dev_remove E) (port_dev E) port (mem (sys s)) (sys s)) (\<lambda>(r, y).
     Inr (r, s\<lparr>sys := y\<rparr>))"

definition port_remove :: "'x dpdk \<Rightarrow> int \<Rightarrow> 'x app \<Rightarrow> fault + int \<times> 'x app" where
  "port_remove E port s =
     andThen (get_device E port s) (\<lambda>dev.
     if dev = None then Inr (0, s) else
     andThen (spinlock_lock port s) (\<lambda>s.
     andThen (port_close E port s) (\<lambda>s.
     andThen (port_detach E port s) (\<lambda>(ret, s).
     andThen (spinlock_unlock port s) (\<lambda>s. Inr (ret, s))))))"

section \<open>Bringing a port up\<close>

text \<open>The number of buffers in the pool of a port, an \<open>uint32_t\<close>.\<close>

definition pool_size :: "int \<Rightarrow> int \<Rightarrow> u32" where
  "pool_size nq nd = max (of_int (nd * nq * 2) + of_int (NUM_TX_PKTS * nq)) (MP_CACHE_SZ * 2)"

definition pool_name :: "int \<Rightarrow> string" where
  "pool_name port = ''mbuf_pool_'' @ dec (nat port)"

definition set_bar_details :: "'x dpdk \<Rightarrow> int \<Rightarrow> 'x app \<Rightarrow> fault + 'x app" where
  "set_bar_details E port s =
     andThen (rte_pmd_xdma_get_bar_details (port_dev E) port (True, True, True) (mem (sys s))) (\<lambda>(c, u, b).
     upd_port port (\<lambda>p. p\<lparr>pi_config_bar_idx := the c, pi_user_bar_idx := the u, pi_bypass_bar_idx := the b\<rparr>) s)"

definition queue_pair_setup :: "'x dpdk \<Rightarrow> int \<Rightarrow> int \<Rightarrow> u64 \<Rightarrow> nat \<Rightarrow> 'x app \<Rightarrow> fault + 'x app" where
  "queue_pair_setup E port nd mp x s =
     andThen (call_or_exit (eth_tx_queue_setup E (of_int port) (of_nat x) (of_int nd) 0 Conf_zero) s)
       (call_or_exit (eth_rx_queue_setup E (of_int port) (of_nat x) (of_int nd) 0 Conf_zero mp))"

definition fp_ops_config :: "'x dpdk \<Rightarrow> int \<Rightarrow> 'x app \<Rightarrow> fault + 'x app" where
  "fp_ops_config E port s =
     andThen (rte_pmd_xdma_dev_fp_ops_config (port_dev E) (dev_count_avail E (sys s)) port
                (fp_ops (sys s)) (mem (sys s))) (\<lambda>(_, f).
     Inr (s\<lparr>sys := (sys s)\<lparr>fp_ops := f\<rparr>\<rparr>))"

definition port_init :: "'x dpdk \<Rightarrow> int \<Rightarrow> int \<Rightarrow> int \<Rightarrow> int \<Rightarrow> int \<Rightarrow> 'x app \<Rightarrow> fault + int \<times> 'x app" where
  "port_init E port nq stq nd bsize s =
     andThen (get_device E port s) (\<lambda>dev.
     if dev = None then Inr (- 1, s) else
     andThen (upd_port port (\<lambda>p. p\<lparr>mem_pool := pool_name port\<rparr>) s) (\<lambda>s.
     let (mp, y) = pktmbuf_pool_create E (pool_name port) (pool_size nq nd) MP_CACHE_SZ 0
                     (of_int (bsize + RTE_PKTMBUF_HEADROOM)) (sys s);
         s = s\<lparr>sys := y\<rparr> in
     if mp = 0 then Inl Exited else
     andThen (set_bar_details E port s) (\<lambda>s.
     andThen (call_or_exit (eth_dev_configure E (of_int port) (of_int nq) (of_int nq) Conf_zero) s) (\<lambda>s.
     andThen (upd_port port (\<lambda>p. p\<lparr>num_queues := of_int nq, st_queues := of_int stq,
                buff_size := of_int bsize, nb_descs := of_int nd\<rparr>) s) (\<lambda>s.
     andThen (for_loop 0 (nat nq) (queue_pair_setup E port nd mp) s) (\<lambda>s.
     andThen (call_or_exit (eth_dev_start E (of_int port)) s) (\<lambda>s.
     andThen (fp_ops_config E port s) (\<lambda>s. Inr (0, s)))))))))"

section \<open>Resetting a port\<close>

text \<open>\<open>init\<close> is the function that brings the port up again, \<open>port_init\<close> or \<open>port_init_xdma\<close>.\<close>

definition port_reset :: "('x dpdk \<Rightarrow> int \<Rightarrow> int \<Rightarrow> int \<Rightarrow> int \<Rightarrow> int \<Rightarrow> 'x app \<Rightarrow> fault + int \<times> 'x app)
    \<Rightarrow> 'x dpdk \<Rightarrow> int \<Rightarrow> int \<Rightarrow> int \<Rightarrow> int \<Rightarrow> int \<Rightarrow> 'x app \<Rightarrow> fault + int \<times> 'x app" where
  "port_reset init E port nq stq nd bsize s =
     andThen (get_device E port s) (\<lambda>dev.
     if dev = None then Inr (- 1, s) else
     andThen (spinlock_lock port s) (\<lambda>s.
     andThen (port_close E port s) (\<lambda>s.
     andThen (dpdk_call (eth_dev_reset E (of_int port)) s) (\<lambda>(ret, s).
     if ret < 0 then andThen (spinlock_unlock port s) (\<lambda>s. Inr (- 1, s)) else
     andThen (init E port nq stq nd bsize s) (\<lambda>(ret, s).
     andThen (spinlock_unlock port s) (\<lambda>s. Inr (ret, s)))))))"

definition dev_remove_callback :: "'x dpdk \<Rightarrow> u16 \<Rightarrow> eth_event \<Rightarrow> 'x app \<Rightarrow> fault + int \<times> 'x app" where
  "dev_remove_callback E port type s =
     (if type \<noteq> RTE_ETH_EVENT_INTR_RMV then Inr (- ENOMSG, s)
      else andThen (port_remove E (uint port) s) (\<lambda>(_, s). Inr (0, s)))"

text \<open>The arguments are read from \<open>pinfo\<close> before the call, and converted to \<open>int\<close>.\<close>

definition dev_reset_callback :: "('x dpdk \<Rightarrow> int \<Rightarrow> int \<Rightarrow> int \<Rightarrow> int \<Rightarrow> int \<Rightarrow> 'x app \<Rightarrow> fault + int \<times> 'x app)
    \<Rightarrow> 'x dpdk \<Rightarrow> u16 \<Rightarrow> eth_event \<Rightarrow> 'x app \<Rightarrow> fault + int \<times> 'x app" where
  "dev_reset_callback init E port type s =
     (if type \<noteq> RTE_ETH_EVENT_INTR_RESET then Inr (- ENOMSG, s)
      else andThen (load_int (pinfo s) (uint port)) (\<lambda>p.
           port_reset init E (uint port) (sint (num_queues p)) (sint (st_queues p))
             (sint (nb_descs p)) (sint (buff_size p)) s))"

section \<open>The start and the end of main\<close>

text \<open>Up to the point where the ports are brought up.  The result is the number of ports.\<close>

definition main_begin :: "env \<Rightarrow> 'x dpdk \<Rightarrow> 'x app \<Rightarrow> fault + nat \<times> 'x app" where
  "main_begin ev E s =
     (let (ret, y) = eal_init E (sys s); s = s\<lparr>sys := y\<rparr> in
      if ret < 0 then Inl Exited else
      let num_ports = unat (dev_count_avail E (sys s)) in
      if num_ports < 1 then Inl Exited else
      andThen (for_loop 0 num_ports (\<lambda>i. spinlock_unlock (int i)) s) (\<lambda>s.
      andThen (call_or_exit (\<lambda>y. Inr (callback_register E RTE_ETH_EVENT_INTR_RMV y)) s) (\<lambda>s.
      andThen (call_or_exit (\<lambda>y. Inr (callback_register E RTE_ETH_EVENT_INTR_RESET y)) s) (\<lambda>s.
      andThen (driver_call (rte_pmd_xdma_compat_memzone_reserve_aligned ev (port_dev E) (max_ethports E)
                 (sizeof_eth_dev E)) s) (\<lambda>s.
      andThen (dpdk_call (\<lambda>y. Inr (callback_unregister E RTE_ETH_EVENT_INTR_RMV y)) s) (\<lambda>(_, s).
      andThen (dpdk_call (\<lambda>y. Inr (callback_unregister E RTE_ETH_EVENT_INTR_RESET y)) s) (\<lambda>(_, s).
      Inr (num_ports, s))))))))"

text \<open>
  \<open>pkts[i] = rte_pktmbuf_alloc(mp); pkts[i]->data_len = 65535\<close> for several arrays in turn: an
  exhausted pool gives NULL, which is dereferenced.
\<close>

definition alloc_mbuf :: "'x dpdk \<Rightarrow> u64 \<Rightarrow> 'x app \<Rightarrow> fault + u64 \<times> 'x app" where
  "alloc_mbuf E mp s =
     (let (p, y) = pktmbuf_alloc E mp (sys s); s = s\<lparr>sys := y\<rparr> in
      andThen (deref (mbufs (mem y)) p) (\<lambda>m.
      Inr (p, s\<lparr>sys := y\<lparr>mem := (mem y)\<lparr>mbufs := (mbufs (mem y))(p \<mapsto> m\<lparr>data_len := 65535\<rparr>)\<rparr>\<rparr>\<rparr>)))"

primrec alloc_row :: "'x dpdk \<Rightarrow> u64 \<Rightarrow> nat \<Rightarrow> 'x app \<Rightarrow> fault + u64 list \<times> 'x app" where
  "alloc_row E mp 0 s = Inr ([], s)"
| "alloc_row E mp (Suc k) s =
     andThen (alloc_mbuf E mp s) (\<lambda>(p, s). andThen (alloc_row E mp k s) (\<lambda>(ps, s). Inr (p # ps, s)))"

primrec alloc_rows :: "'x dpdk \<Rightarrow> u64 \<Rightarrow> nat \<Rightarrow> nat \<Rightarrow> 'x app \<Rightarrow> fault + u64 list list \<times> 'x app" where
  "alloc_rows E mp k 0 s = Inr ([], s)"
| "alloc_rows E mp k (Suc n) s =
     andThen (alloc_row E mp k s) (\<lambda>(r, s). andThen (alloc_rows E mp k n s) (\<lambda>(rs, s). Inr (r # rs, s)))"

text \<open>
  The pool of port \<open>port\<close> and \<open>n\<close> rows of \<open>k\<close> buffers from it; \<open>None\<close> when there is no pool, where
  \<open>main\<close> releases the lock of the port and returns -1.
\<close>

definition take_buffers :: "'x dpdk \<Rightarrow> int \<Rightarrow> nat \<Rightarrow> nat \<Rightarrow> 'x app \<Rightarrow> fault + u64 list list option \<times> 'x app" where
  "take_buffers E port k n s =
     andThen (load_int (pinfo s) port) (\<lambda>p.
     let mp = mempool_lookup E (mem_pool p) (sys s) in
     if mp = 0 then andThen (spinlock_unlock port s) (\<lambda>s. Inr (None, s))
     else andThen (alloc_rows E mp k n s) (\<lambda>(rs, s). Inr (Some rs, s)))"

definition teardown_port :: "'x dpdk \<Rightarrow> nat \<Rightarrow> 'x app \<Rightarrow> fault + 'x app" where
  "teardown_port E k s =
     andThen (load_int (pinfo s) (int k)) (\<lambda>p.
     andThen (if num_queues p \<noteq> 0 then port_close E (int k) s else Inr s) (\<lambda>s.
     andThen (get_device E (int k) s) (\<lambda>dev.
     if dev = None then Inr s else andThen (port_detach E (int k) s) (\<lambda>(_, s). Inr s))))"

primrec teardown_loop :: "'x dpdk \<Rightarrow> nat \<Rightarrow> 'x app \<Rightarrow> fault + 'x app" where
  "teardown_loop E 0 s = Inr s"
| "teardown_loop E (Suc k) s = andThen (teardown_port E k s) (teardown_loop E k)"

definition teardown :: "'x dpdk \<Rightarrow> nat \<Rightarrow> 'x app \<Rightarrow> fault + 'x app" where
  "teardown E num_ports s = (if dev_count_avail E (sys s) = 0 then Inr s else teardown_loop E num_ports s)"

end
