(* ===== verification/App_Forward.thy ===== *)
theory App_Forward
  imports App_Ports
begin

text \<open>
  The forwarding threads of the test applications: \<open>fpga_to_fpga\<close> of \<open>testapp_count.c\<close>, which
  runs for a second, and of \<open>testapp_inter.c\<close>, which runs until 16 packets have been sent.

  The burst functions of DPDK are a parameter, over a device state of any type: a receive burst
  gets the array and its size and returns the number of packets and the new array; a transmit
  burst gets the packets from a position of the array on and their number.  The clock is a
  function that tells in which rounds more than a second has passed.  Messages and the delays
  they print are left out.
\<close>

section \<open>Operations\<close>

record thread_args =
  src_port_id :: int
  src_queue_id :: int
  dst_port_id :: int
  dst_queue_id :: int
  arg_pkts :: "u64 list"

record 'd burst_io =
  rx_burst :: "u16 \<Rightarrow> u16 \<Rightarrow> u64 list \<Rightarrow> u16 \<Rightarrow> 'd \<Rightarrow> fault + u16 \<times> u64 list \<times> 'd"
  tx_burst :: "u16 \<Rightarrow> u16 \<Rightarrow> u64 list \<Rightarrow> u16 \<Rightarrow> 'd \<Rightarrow> fault + u16 \<times> 'd"
  io_mbufs :: "'d \<Rightarrow> u64 \<rightharpoonup> rte_mbuf"
  io_byte :: "'d \<Rightarrow> u64 \<Rightarrow> u8"

text \<open>The variables of a forwarder: its counters, \<open>pkts_buffer_idx\<close>, the array, the device.\<close>

record 'd fwd =
  recv_batch :: int
  recv_pkts :: int
  xmit_batch :: int
  xmit_pkts :: int
  fw_idx :: nat
  fw_pkts :: "u64 list"
  fw_dev :: 'd

definition fwd_start :: "thread_args \<Rightarrow> 'd \<Rightarrow> 'd fwd" where
  "fwd_start a d = \<lparr>recv_batch = 0, recv_pkts = 0, xmit_batch = 0, xmit_pkts = 0, fw_idx = 0,
     fw_pkts = arg_pkts a, fw_dev = d\<rparr>"

definition receive :: "'d burst_io \<Rightarrow> thread_args \<Rightarrow> 'd fwd \<Rightarrow> fault + u16 \<times> 'd fwd" where
  "receive io a st =
     andThen (rx_burst io (of_int (src_port_id a)) (of_int (src_queue_id a)) (fw_pkts st)
                (of_nat SIZE_OF_PKTS_BUFFER) (fw_dev st)) (\<lambda>(ret, ps, d).
     Inr (ret, st\<lparr>fw_pkts := ps, fw_dev := d\<rparr>))"

definition transmit :: "'d burst_io \<Rightarrow> thread_args \<Rightarrow> u16 \<Rightarrow> 'd fwd \<Rightarrow> fault + u16 \<times> 'd fwd" where
  "transmit io a ret st =
     andThen (tx_burst io (of_int (dst_port_id a)) (of_int (dst_queue_id a)) (drop (fw_idx st) (fw_pkts st))
                ret (fw_dev st)) (\<lambda>(ret, d).
     Inr (ret, st\<lparr>fw_dev := d\<rparr>))"

text \<open>
  The test of the counting program looks at the byte at the address of the buffer structure
  plus its data offset.  The results of the bursts are unsigned, so that \<open>ret < 0\<close> never holds.
\<close>

definition test_bit :: "'d burst_io \<Rightarrow> 'd fwd \<Rightarrow> nat \<Rightarrow> unit \<Rightarrow> fault + unit" where
  "test_bit io st i _ =
     andThen (load_idx (fw_pkts st) i) (\<lambda>p.
     andThen (deref (io_mbufs io (fw_dev st)) p) (\<lambda>m.
     let test_bit_addr = p + ucast (data_off m);
         b = uint (drop_bit 7 (io_byte io (fw_dev st) test_bit_addr) AND 0x01)
     in if b \<noteq> 0 \<and> NOT b \<noteq> 0 then Inl Exited else Inr ()))"

definition count_round :: "'d burst_io \<Rightarrow> thread_args \<Rightarrow> 'd fwd \<Rightarrow> fault + 'd fwd" where
  "count_round io a st =
     andThen (receive io a st) (\<lambda>(ret, st).
     andThen (for_loop (fw_idx st) (unat ret) (test_bit io st) ()) (\<lambda>_.
     if ret > 0 then
       let st = st\<lparr>recv_pkts := recv_pkts st + uint ret, recv_batch := recv_batch st + 1\<rparr> in
       andThen (transmit io a ret st) (\<lambda>(ret, st).
       let st = st\<lparr>fw_idx := (fw_idx st + unat ret) mod SIZE_OF_PKTS_BUFFER\<rparr> in
       if ret > 0 then Inr (st\<lparr>xmit_pkts := xmit_pkts st + uint ret, xmit_batch := xmit_batch st + 1\<rparr>)
       else Inr st)
     else Inr st))"

definition count_fpga_to_fpga :: "'d burst_io \<Rightarrow> thread_args \<Rightarrow> (nat \<Rightarrow> bool) \<Rightarrow> 'd \<Rightarrow> (fault + 'd fwd) option" where
  "count_fpga_to_fpga io a late d = do_until (count_round io a) (\<lambda>k _. late k) 0 (fwd_start a d)"

text \<open>
  The forwarder of the interleaving program, after its synchronisation with the others.
  \<open>target_num\<close> decides only whether a message is printed and is left out.
\<close>

definition pkt_num :: int where "pkt_num = 16"

definition inter_round :: "'d burst_io \<Rightarrow> thread_args \<Rightarrow> 'd fwd \<Rightarrow> fault + 'd fwd" where
  "inter_round io a st =
     andThen (receive io a st) (\<lambda>(ret, st).
     if ret > 0 then
       let st = st\<lparr>recv_pkts := recv_pkts st + uint ret, recv_batch := recv_batch st + 1\<rparr> in
       andThen (transmit io a ret st) (\<lambda>(ret, st).
       Inr (st\<lparr>xmit_pkts := xmit_pkts st + uint ret, xmit_batch := xmit_batch st + 1\<rparr>))
     else Inr st)"

definition inter_fpga_to_fpga :: "'d burst_io \<Rightarrow> thread_args \<Rightarrow> 'd \<Rightarrow> (fault + 'd fwd) option" where
  "inter_fpga_to_fpga io a d =
     do_until (inter_round io a) (\<lambda>_ st. xmit_pkts st = pkt_num) 0 (fwd_start a d)"

section \<open>One round of the interleaving forwarder\<close>

text \<open>
  What the forwarder relies on when it sends: in a good state \<open>ok\<close>, packets that are \<open>good\<close> and
  whose transmission the device completes are all accepted, and the state stays good.
\<close>

locale tx_port =
  fixes tx :: "u64 list \<Rightarrow> u16 \<Rightarrow> 'd \<Rightarrow> fault + u16 \<times> 'd"
    and ok :: "'d \<Rightarrow> bool" and good :: "'d \<Rightarrow> u64 \<Rightarrow> bool" and completes :: "'d \<Rightarrow> u16 \<Rightarrow> bool"
  assumes accept: "ok d \<Longrightarrow> \<forall>mb \<in> set ps. good d mb \<Longrightarrow> unat n \<le> length ps \<Longrightarrow> completes d n \<Longrightarrow>
      \<exists>d'. tx ps n d = Inr (n, d') \<and> ok d' \<and> good d' = good d"
begin

lemma inter_round_accepts:
  assumes rx: "rx_burst io (of_int (src_port_id a)) (of_int (src_queue_id a)) (fw_pkts st) 32 (fw_dev st) = Inr (r, ps, d)"
    and tx: "\<And>p q. tx_burst io p q = tx"
    and "ok d" and "\<forall>mb \<in> set ps. good d mb" and "unat r \<le> length ps" and "completes d r" and "fw_idx st = 0"
  shows "\<exists>st'. inter_round io a st = Inr st' \<and> recv_pkts st' = recv_pkts st + uint r \<and>
    xmit_pkts st' = xmit_pkts st + uint r \<and> fw_idx st' = 0 \<and> fw_pkts st' = ps \<and>
    (\<exists>d'. fw_dev st' = d' \<and> ok d' \<and> good d' = good d \<and> (r > 0 \<longrightarrow> tx ps r d = Inr (r, d')) \<and> (r = 0 \<longrightarrow> d' = d))"
proof (cases "r > 0")
  case False
  then have "r = 0" by (simp add: word_greater_zero_iff)
  with assms show ?thesis by (simp add: inter_round_def receive_def SIZE_OF_PKTS_BUFFER_def)
next
  case True
  from accept [OF assms(3-6)] obtain d' where "tx ps r d = Inr (r, d')" "ok d'" "good d' = good d" by blast
  with True assms show ?thesis
    by (auto simp: inter_round_def receive_def transmit_def SIZE_OF_PKTS_BUFFER_def Let_def)
qed

end

section \<open>Forwarding into the driver\<close>

text \<open>
  Receive bursts that bring the packets \<open>b 0\<close>, \<open>b 1\<close>, \<dots> and transmit bursts that go to the
  engine at \<open>p\<close> of the driver; the device state is the number of receive bursts so far and the
  driver's memory, and \<open>hw k\<close> the completion counts that the engine reports after the \<open>k\<close>th.
\<close>

definition driver_tx :: "(nat \<Rightarrow> nat \<Rightarrow> u32) \<Rightarrow> u64 \<Rightarrow> u64 list \<Rightarrow> u16 \<Rightarrow> nat \<times> world \<Rightarrow> fault + u16 \<times> nat \<times> world" where
  "driver_tx hw p ps n d =
     andThen (xdma_xmit_pkts (hw (fst d)) p ps n (snd d)) (\<lambda>(r, w). Inr (r, fst d, w))"

definition driver_io :: "(nat \<Rightarrow> u64 list) \<Rightarrow> (nat \<Rightarrow> nat \<Rightarrow> u32) \<Rightarrow> u64 \<Rightarrow> (nat \<times> world) burst_io" where
  "driver_io b hw p = \<lparr>
     rx_burst = (\<lambda>_ _ ps n d. let k = fst d in
       Inr (of_nat (length (b k)), b k @ drop (length (b k)) ps, Suc k, snd d)),
     tx_burst = (\<lambda>_ _. driver_tx hw p),
     io_mbufs = (\<lambda>d. mbufs (snd d)), io_byte = (\<lambda>_ _. 0)\<rparr>"

interpretation driver: tx_port "driver_tx hw p" "\<lambda>d. tx_idle p a v (snd d)" "\<lambda>d. pkt_ok (mbufs (snd d))"
    "\<lambda>d n. \<exists>j. hw (fst d) j AND 0xFFFFFF = ucast n" for hw p a v
proof unfold_locales
  fix d :: "nat \<times> world" and ps and n :: u16
  assume "tx_idle p a v (snd d)" and "\<forall>mb \<in> set ps. pkt_ok (mbufs (snd d)) mb" and "unat n \<le> length ps"
    and "\<exists>j. hw (fst d) j AND 0xFFFFFF = ucast n"
  then obtain w' where "xdma_xmit_pkts (hw (fst d)) p ps n (snd d) = Inr (n, w')" "tx_idle p a v w'"
    "mbufs w' = mbufs (snd d)"
    using tx_idle_xmit by blast
  then show "\<exists>d'. driver_tx hw p ps n d = Inr (n, d') \<and> tx_idle p a v (snd d') \<and>
      pkt_ok (mbufs (snd d')) = pkt_ok (mbufs (snd d))"
    by (intro exI [of _ "(fst d, w')"]) (simp add: driver_tx_def)
qed

text \<open>The packets brought by the first \<open>k\<close> receive bursts.\<close>

definition brought :: "(nat \<Rightarrow> u64 list) \<Rightarrow> nat \<Rightarrow> int" where
  "brought b k = (\<Sum>i<k. int (length (b i)))"

lemma brought_Suc [simp]: "brought b (Suc k) = brought b k + int (length (b k))"
  by (simp add: brought_def)

lemma brought_0 [simp]: "brought b 0 = 0"
  by (simp add: brought_def)

lemma inter_rounds_driver:
  assumes idle: "tx_idle p a v w" and args: "length (arg_pkts ta) = 32" "\<forall>mb \<in> set (arg_pkts ta). pkt_ok (mbufs w) mb"
    and b: "\<forall>k. length (b k) \<le> 32 \<and> (\<forall>mb \<in> set (b k). pkt_ok (mbufs w) mb)"
    and hw: "\<forall>k. \<exists>j. hw (Suc k) j AND 0xFFFFFF = of_nat (length (b k))"
  shows "\<exists>st. repeat_body (inter_round (driver_io b hw p) ta) k (fwd_start ta (0, w)) = Inr st \<and>
    xmit_pkts st = brought b k \<and> recv_pkts st = brought b k \<and> fw_idx st = 0 \<and> length (fw_pkts st) = 32 \<and>
    (\<forall>mb \<in> set (fw_pkts st). pkt_ok (mbufs w) mb) \<and>
    (\<exists>u. fw_dev st = (k, u) \<and> tx_idle p a v u \<and> pkt_ok (mbufs u) = pkt_ok (mbufs w))"
proof (induction k)
  case 0
  show ?case using idle args by (simp add: fwd_start_def)
next
  case (Suc k)
  then obtain st u where st: "repeat_body (inter_round (driver_io b hw p) ta) k (fwd_start ta (0, w)) = Inr st"
    "xmit_pkts st = brought b k" "recv_pkts st = brought b k" "fw_idx st = 0" "length (fw_pkts st) = 32"
    "\<forall>mb \<in> set (fw_pkts st). pkt_ok (mbufs w) mb"
    "fw_dev st = (k, u)" "tx_idle p a v u" "pkt_ok (mbufs u) = pkt_ok (mbufs w)" by blast
  let ?r = "of_nat (length (b k)) :: u16" and ?ps = "b k @ drop (length (b k)) (fw_pkts st)"
  have len: "length (b k) \<le> 32" "unat ?r = length (b k)" "uint ?r = int (length (b k))"
    using spec [OF b, of k] by (simp_all add: uint_nat)
  have good: "\<forall>mb \<in> set ?ps. pkt_ok (mbufs w) mb"
    using spec [OF b, of k] st(6) by (auto dest: in_set_dropD)
  have u32: "(ucast ?r :: u32) = of_nat (length (b k))"
    using len(1) by (simp add: word_unat_eq_iff unsigned_ucast_eq unsigned_of_nat take_bit_nat_eq_self)
  have "\<exists>st'. inter_round (driver_io b hw p) ta st = Inr st' \<and> recv_pkts st' = recv_pkts st + uint ?r \<and>
    xmit_pkts st' = xmit_pkts st + uint ?r \<and> fw_idx st' = 0 \<and> fw_pkts st' = ?ps \<and>
    (\<exists>d'. fw_dev st' = d' \<and> tx_idle p a v (snd d') \<and> pkt_ok (mbufs (snd d')) = pkt_ok (mbufs (snd (Suc k, u))) \<and>
      (?r > 0 \<longrightarrow> driver_tx hw p ?ps ?r (Suc k, u) = Inr (?r, d')) \<and> (?r = 0 \<longrightarrow> d' = (Suc k, u)))"
  proof (rule driver.inter_round_accepts)
    show "\<exists>j. hw (fst (Suc k, u)) j AND 0xFFFFFF = ucast ?r" using spec [OF hw, of k] by (simp add: u32)
  qed (use st good len in \<open>simp_all add: driver_io_def Let_def\<close>)
  then obtain st' d' where st': "inter_round (driver_io b hw p) ta st = Inr st'"
    "recv_pkts st' = recv_pkts st + uint ?r" "xmit_pkts st' = xmit_pkts st + uint ?r" "fw_idx st' = 0"
    "fw_pkts st' = ?ps" "fw_dev st' = d'" "tx_idle p a v (snd d')" "pkt_ok (mbufs (snd d')) = pkt_ok (mbufs (snd (Suc k, u)))"
    "?r > 0 \<longrightarrow> driver_tx hw p ?ps ?r (Suc k, u) = Inr (?r, d')" "?r = 0 \<longrightarrow> d' = (Suc k, u)" by blast
  have "fst d' = Suc k"
  proof (cases "?r = 0")
    case False
    then have "driver_tx hw p ?ps ?r (Suc k, u) = Inr (?r, d')" using st'(9) by (simp add: word_greater_zero_iff)
    then show ?thesis by (auto simp: driver_tx_def andThen_eq_Inr)
  qed (use st'(10) in simp)
  with st st' good len show ?case
    by (intro exI [of _ st']) (auto simp: repeat_body_Suc prod_eq_iff simp del: repeat_body.simps)
qed

section \<open>Properties\<close>



end
