(* ===== verification/App_Count.thy ===== *)
theory App_Count
  imports App_Forward
begin

text \<open>
  The counting application, \<open>testapp_count.c\<close>: its \<open>main\<close> up to the start of the forwarders,
  and what its forwarder does with steady traffic of a device that keeps to DPDK's contract.
\<close>

section \<open>The program\<close>

text \<open>
  \<open>main\<close> until the threads are created: the buffers of the two forwarders and the number of
  ports, or \<open>None\<close> when it returns -1.  The results of \<open>port_init\<close> are not looked at.
\<close>

definition count_main_start :: "env \<Rightarrow> 'x dpdk \<Rightarrow> 'x app \<Rightarrow> fault + (nat \<times> thread_args \<times> thread_args) option \<times> 'x app" where
  "count_main_start ev E s =
     andThen (main_begin ev E s) (\<lambda>(n, s).
     andThen (port_init E 0 4 4 1 1024 s) (\<lambda>(_, s).
     andThen (port_init E 1 4 4 1 1024 s) (\<lambda>(_, s).
     andThen (take_buffers E 0 2 32 s) (\<lambda>(rows, s).
     case rows of
       None \<Rightarrow> Inr (None, s)
     | Some rs \<Rightarrow> Inr (Some (n,
         \<lparr>src_port_id = 0, src_queue_id = 0, dst_port_id = 1, dst_queue_id = 0, arg_pkts = map (\<lambda>r. r ! 0) rs\<rparr>,
         \<lparr>src_port_id = 1, src_queue_id = 0, dst_port_id = 0, dst_queue_id = 0, arg_pkts = map (\<lambda>r. r ! 1) rs\<rparr>), s)))))"

section \<open>Steady traffic\<close>

text \<open>
  A device on which every receive burst brings \<open>n\<close> packets, \<open>batch k\<close> the \<open>k\<close>th time, and every
  transmit burst is accepted; its state is the list of the batches sent so far.
\<close>

definition steady_io :: "nat \<Rightarrow> (nat \<Rightarrow> u64 list) \<Rightarrow> (u64 \<rightharpoonup> rte_mbuf) \<Rightarrow> (u64 \<Rightarrow> u8) \<Rightarrow> u64 list list burst_io" where
  "steady_io n batch m mbyte = \<lparr>
     rx_burst = (\<lambda>_ _ ps _ sent. Inr (of_nat n, batch (length sent) @ drop n ps, sent)),
     tx_burst = (\<lambda>_ _ ps k sent. Inr (k, sent @ [take (unat k) ps])),
     io_mbufs = (\<lambda>_. m), io_byte = (\<lambda>_. mbyte)\<rparr>"

text \<open>A buffer on which the test of the forwarder passes.\<close>

definition passes :: "(u64 \<rightharpoonup> rte_mbuf) \<Rightarrow> (u64 \<Rightarrow> u8) \<Rightarrow> u64 \<Rightarrow> bool" where
  "passes m mbyte p \<longleftrightarrow> p \<noteq> 0 \<and> (\<exists>x. m p = Some x \<and> drop_bit 7 (mbyte (p + ucast (data_off x))) AND 1 = 0)"

lemma test_bit_passes:
  assumes "i < length (fw_pkts st)" and "passes (io_mbufs io (fw_dev st)) (io_byte io (fw_dev st)) (fw_pkts st ! i)"
  shows "test_bit io st i u = Inr ()"
  using assms by (auto simp: test_bit_def passes_def)

lemma test_loop:
  assumes "\<forall>p \<in> set (fw_pkts st). passes (io_mbufs io (fw_dev st)) (io_byte io (fw_dev st)) p"
  shows "i + c \<le> length (fw_pkts st) \<Longrightarrow> for_loop i c (test_bit io st) () = Inr ()"
    and "i \<le> length (fw_pkts st) \<Longrightarrow> length (fw_pkts st) < i + c \<Longrightarrow>
         for_loop i c (test_bit io st) () = Inl OutOfBounds"
proof -
  have pass: "test_bit io st j u = Inr ()" if "j < length (fw_pkts st)" for j u
    using assms that by (intro test_bit_passes) simp_all
  show "i + c \<le> length (fw_pkts st) \<Longrightarrow> for_loop i c (test_bit io st) () = Inr ()"
    by (induction c arbitrary: i) (simp_all add: pass)
  show "i \<le> length (fw_pkts st) \<Longrightarrow> length (fw_pkts st) < i + c \<Longrightarrow>
      for_loop i c (test_bit io st) () = Inl OutOfBounds"
  proof (induction c arbitrary: i)
    case 0
    then show ?case by simp
  next
    case (Suc c)
    show ?case
    proof (cases "i < length (fw_pkts st)")
      case True
      with Suc show ?thesis by (simp add: pass)
    next
      case False
      then show ?thesis by (simp add: test_bit_def load_idx_def)
    qed
  qed
qed

text \<open>What the forwarder sends in round \<open>j\<close>: the buffers from position \<open>j * n mod 32\<close> on.\<close>

definition sent_in :: "nat \<Rightarrow> (nat \<Rightarrow> u64 list) \<Rightarrow> u64 list \<Rightarrow> nat \<Rightarrow> u64 list" where
  "sent_in n batch ps0 j = take n (drop (j * n mod 32) (batch j @ drop n ps0))"

definition steady_ok :: "nat \<Rightarrow> (nat \<Rightarrow> u64 list) \<Rightarrow> thread_args \<Rightarrow> (u64 \<rightharpoonup> rte_mbuf) \<Rightarrow> (u64 \<Rightarrow> u8) \<Rightarrow> bool" where
  "steady_ok n batch ta m mbyte \<longleftrightarrow> 0 < n \<and> n \<le> 32 \<and>
     length (arg_pkts ta) = 32 \<and> (\<forall>p \<in> set (arg_pkts ta). passes m mbyte p) \<and>
     (\<forall>k. length (batch k) = n \<and> (\<forall>p \<in> set (batch k). passes m mbyte p))"

lemma round_eq:
  assumes ok: "steady_ok n batch ta m mbyte"
    and ps: "length (fw_pkts st) = 32" "\<forall>p \<in> set (fw_pkts st). passes m mbyte p" and i: "fw_idx st \<le> 32"
  shows "fw_idx st + n \<le> 32 \<Longrightarrow> count_round (steady_io n batch m mbyte) ta st = Inr (st\<lparr>
      fw_pkts := batch (length (fw_dev st)) @ drop n (fw_pkts st),
      fw_dev := fw_dev st @ [take n (drop (fw_idx st) (batch (length (fw_dev st)) @ drop n (fw_pkts st)))],
      fw_idx := (fw_idx st + n) mod 32, recv_pkts := recv_pkts st + int n, recv_batch := recv_batch st + 1,
      xmit_pkts := xmit_pkts st + int n, xmit_batch := xmit_batch st + 1\<rparr>)"
    and "32 < fw_idx st + n \<Longrightarrow> count_round (steady_io n batch m mbyte) ta st = Inl OutOfBounds"
proof -
  let ?io = "steady_io n batch m mbyte" and ?ps = "batch (length (fw_dev st)) @ drop n (fw_pkts st)"
  let ?st = "st\<lparr>fw_pkts := ?ps\<rparr>"
  have n_range: "0 < n" "n \<le> 32" and batches: "\<forall>k. length (batch k) = n \<and> (\<forall>p \<in> set (batch k). passes m mbyte p)"
    using ok by (simp_all add: steady_ok_def)
  have n16: "unat (of_nat n :: u16) = n" "(of_nat n :: u16) > 0" "uint (of_nat n :: u16) = int n"
    using n_range by (simp_all add: word_greater_zero_iff word_unat_eq_iff uint_nat)
  have rx: "receive ?io ta st = Inr (of_nat n, ?st)"
    by (simp add: receive_def steady_io_def)
  have len: "length ?ps = 32" using n_range ps(1) batches by simp
  have "\<forall>p \<in> set (fw_pkts ?st). passes (io_mbufs ?io (fw_dev ?st)) (io_byte ?io (fw_dev ?st)) p"
    using batches ps(2) by (auto simp: steady_io_def dest: in_set_dropD)
  note test = test_loop [OF this, of "fw_idx st" n]
  show "count_round ?io ta st = Inl OutOfBounds" if "32 < fw_idx st + n"
    using that test(2) i len by (simp add: count_round_def rx n16)
  show "count_round ?io ta st = Inr (st\<lparr>fw_pkts := ?ps,
      fw_dev := fw_dev st @ [take n (drop (fw_idx st) ?ps)],
      fw_idx := (fw_idx st + n) mod 32, recv_pkts := recv_pkts st + int n, recv_batch := recv_batch st + 1,
      xmit_pkts := xmit_pkts st + int n, xmit_batch := xmit_batch st + 1\<rparr>)" if "fw_idx st + n \<le> 32"
    using that test(1) len n16
    by (simp add: count_round_def rx transmit_def Let_def SIZE_OF_PKTS_BUFFER_def del: drop_append)
       (simp add: steady_io_def del: drop_append)
qed

lemma rounds_eq:
  assumes ok: "steady_ok n batch ta m mbyte" and "\<forall>j < k. j * n mod 32 + n \<le> 32"
  shows "\<exists>st. repeat_body (count_round (steady_io n batch m mbyte) ta) k (fwd_start ta []) = Inr st \<and>
    fw_dev st = map (sent_in n batch (arg_pkts ta)) [0..<k] \<and> fw_idx st = k * n mod 32 \<and>
    recv_pkts st = int (k * n) \<and> xmit_pkts st = int (k * n) \<and> length (fw_pkts st) = 32 \<and>
    drop n (fw_pkts st) = drop n (arg_pkts ta) \<and> (\<forall>p \<in> set (fw_pkts st). passes m mbyte p)"
  using assms(2)
proof (induction k)
  case 0
  show ?case using ok by (simp add: fwd_start_def steady_ok_def)
next
  case (Suc k)
  then obtain st where st: "repeat_body (count_round (steady_io n batch m mbyte) ta) k (fwd_start ta []) = Inr st"
    "fw_dev st = map (sent_in n batch (arg_pkts ta)) [0..<k]" "fw_idx st = k * n mod 32"
    "recv_pkts st = int (k * n)" "xmit_pkts st = int (k * n)" "length (fw_pkts st) = 32"
    "drop n (fw_pkts st) = drop n (arg_pkts ta)" "\<forall>p \<in> set (fw_pkts st). passes m mbyte p" by auto
  have "fw_idx st \<le> 32" "fw_idx st + n \<le> 32" using st(3) Suc.prems by auto
  note round = round_eq(1) [OF ok st(6,8) this]
  have n_range: "0 < n" "n \<le> 32" and args: "length (arg_pkts ta) = 32" "\<forall>p \<in> set (arg_pkts ta). passes m mbyte p"
    and batches: "\<forall>k. length (batch k) = n \<and> (\<forall>p \<in> set (batch k). passes m mbyte p)"
    using ok by (simp_all add: steady_ok_def)
  have "length (batch k) = n" using batches by simp
  moreover have "\<forall>p \<in> set (batch k). passes m mbyte p" using batches by simp
  moreover have "\<forall>p \<in> set (drop n (arg_pkts ta)). passes m mbyte p" using args(2) by (auto dest: in_set_dropD)
  moreover have "(k * n mod 32 + n) mod 32 = Suc k * n mod 32" by (simp add: mod_simps add.commute)
  moreover have "drop n (batch k @ drop n (arg_pkts ta)) = drop n (arg_pkts ta)" using batches by simp
  ultimately show ?case
    using round st args(1) n_range
    by (auto simp: repeat_body_Suc sent_in_def algebra_simps simp del: repeat_body.simps drop_append)
qed

lemma dvd_fits: "n dvd 32 \<Longrightarrow> j * n mod 32 + n \<le> 32" for n :: nat
proof -
  assume "n dvd 32"
  then obtain q where q: "32 = n * q" by blast
  then have "j * n mod 32 = n * (j mod q)" by (simp add: q mult.commute [of j])
  moreover have "j mod q < q" using q by (cases "q = 0") auto
  ultimately have "j * n mod 32 + n \<le> n * (j mod q + 1)" "n * (j mod q + 1) \<le> n * q"
    by (simp_all add: algebra_simps) (metis Suc_leI mult_Suc_right mult_le_mono2)
  then show ?thesis using q by linarith
qed

lemma below_fits: "0 < n \<Longrightarrow> j < 32 div n \<Longrightarrow> j * n mod 32 + n \<le> 32" for n :: nat
proof -
  assume n_range: "0 < n" and "j < 32 div n"
  then have "Suc j * n \<le> 32" using n_range by (metis Suc_leI div_times_less_eq_dividend mult_le_mono1 order_trans)
  then have "j * n + n \<le> 32" by simp
  moreover have "j * n mod 32 = j * n" using calculation n_range by simp
  ultimately show ?thesis by simp
qed

lemma not_dvd_overflow: "0 < n \<Longrightarrow> \<not> n dvd 32 \<Longrightarrow> (32 div n) * n mod 32 \<le> 32 \<and> 32 < (32 div n) * n mod 32 + n" for n :: nat
proof -
  assume n_range: "0 < n" and nd: "\<not> n dvd 32"
  have "32 = (32 div n) * n + 32 mod n" by simp
  moreover have "32 mod n < n" "0 < 32 mod n" using n_range nd by (simp_all add: dvd_eq_mod_eq_0)
  ultimately have "(32 div n) * n < 32" "32 < (32 div n) * n + n" by linarith+
  then show ?thesis by simp
qed

section \<open>Properties\<close>

text \<open>
  The counting forwarder over a device that follows the contract of DPDK and puts the \<open>n\<close>
  packets of every burst at the front of the array.  The forwarder tests and sends from
  \<open>pkts_buffer_idx\<close> on.  If \<open>n\<close> divides 32, all counters are right after any number of rounds, but
  round \<open>j\<close> has sent the buffers from position \<open>j * n mod 32\<close>: the packets it received only if
  that is 0, otherwise buffers that were in the array from the start.  If \<open>n\<close> does not divide 32, round
  \<open>32 div n\<close> reads past the end of the array.  (The driver of this repository puts the packets where the
  forwarder looks for them, \<open>App_Relay\<close>.)
\<close>

theorem count_forward_steady:
  assumes "0 < n" and "n \<le> 32" and "length (arg_pkts ta) = 32" and "\<forall>p \<in> set (arg_pkts ta). passes m mbyte p"
    and "\<forall>k. length (batch k) = n \<and> (\<forall>p \<in> set (batch k). passes m mbyte p)"
  shows "if n dvd 32
    then \<exists>st. repeat_body (count_round (steady_io n batch m mbyte) ta) k (fwd_start ta []) = Inr st \<and>
      recv_pkts st = int (k * n) \<and> xmit_pkts st = int (k * n) \<and> length (fw_dev st) = k \<and>
      (\<forall>j < k. fw_dev st ! j = (if j * n mod 32 = 0 then batch j else take n (drop (j * n mod 32) (arg_pkts ta))))
    else (\<forall>j < 32 div n. \<not> late j) \<longrightarrow>
      count_fpga_to_fpga (steady_io n batch m mbyte) ta late [] = Some (Inl OutOfBounds)"
proof -
  have ok: "steady_ok n batch ta m mbyte" using assms by (simp add: steady_ok_def)
  show ?thesis
  proof (cases "n dvd 32")
    case True
    then have "\<forall>j < k. j * n mod 32 + n \<le> 32" using dvd_fits by simp
    from rounds_eq [OF ok this] obtain st where
      st: "repeat_body (count_round (steady_io n batch m mbyte) ta) k (fwd_start ta []) = Inr st"
      "fw_dev st = map (sent_in n batch (arg_pkts ta)) [0..<k]" "recv_pkts st = int (k * n)" "xmit_pkts st = int (k * n)"
      by blast
    have "sent_in n batch (arg_pkts ta) j = (if j * n mod 32 = 0 then batch j else take n (drop (j * n mod 32) (arg_pkts ta)))" for j
    proof (cases "j * n mod 32 = 0")
      case False
      have "n dvd j * n mod 32" using True by (simp add: dvd_mod)
      with False have "n \<le> j * n mod 32" by (simp add: dvd_imp_le)
      then show ?thesis using False assms(5) by (simp add: sent_in_def)
    qed (use assms(5) in \<open>simp add: sent_in_def\<close>)
    with st True show ?thesis by (intro if_P [THEN iffD2]) auto
  next
    case False
    let ?body = "count_round (steady_io n batch m mbyte) ta"
    have fits: "\<forall>j < 32 div n. j * n mod 32 + n \<le> 32" using below_fits assms(1) by simp
    from rounds_eq [OF ok fits] obtain st where st: "repeat_body ?body (32 div n) (fwd_start ta []) = Inr st"
      "fw_idx st = (32 div n) * n mod 32" "length (fw_pkts st) = 32" "\<forall>p \<in> set (fw_pkts st). passes m mbyte p" by blast
    have "?body st = Inl OutOfBounds"
      using round_eq(2) [OF ok st(3,4)] not_dvd_overflow [OF assms(1) False] by (simp add: st(2))
    moreover have "runs_on ?body (\<lambda>k _. late k) 0 (fwd_start ta []) (32 div n) st" if "\<forall>j < 32 div n. \<not> late j"
      using that st(1) by (simp add: runs_on_def)
    ultimately show ?thesis
      using False by (auto simp: count_fpga_to_fpga_def intro: do_until_fault)
  qed
qed

end
