(* ===== verification/App_Sync.thy ===== *)
theory App_Sync
  imports Prelude
begin

text \<open>
  The start of the interleaving application, \<open>testapp_inter.c\<close>: two forwarders announce
  themselves in the counter \<open>ready_count\<close> and a third thread, \<open>switch_start\<close>, waits for both
  before it starts the traffic.  The three threads run concurrently; the model is a step
  relation over their program counters, the counter and the mutex.

  \<open>switch_start\<close> calls \<open>pthread_cond_wait\<close> without holding the mutex, which POSIX leaves
  undefined.  The model takes the most favourable reading: a mutex that the caller does not
  hold stays as it is.  A wait may also end without a signal.
\<close>

section \<open>Threads\<close>

datatype forwarder = Fwd1 | Fwd2

text \<open>
  A forwarder takes the mutex, counts itself, signals if it is the second, releases the
  mutex and goes on.
\<close>

datatype fwd_pc = F_Lock | F_Inc | F_Test | F_Unlock | F_Run

text \<open>
  The switch looks at the counter, starts to wait, is blocked, is woken and needs the mutex
  before it looks again; or goes on.
\<close>

datatype sw_pc = S_Check | S_Wait | S_Blocked | S_Woken | S_Run

datatype owner = Free | Held forwarder | Held_switch

record sync =
  ready_count :: nat
  mutex :: owner
  fpc :: "forwarder \<Rightarrow> fwd_pc"
  spc :: sw_pc

definition sync_start :: sync where
  "sync_start = \<lparr>ready_count = 0, mutex = Free, fpc = (\<lambda>_. F_Lock), spc = S_Check\<rparr>"

text \<open>\<open>pthread_cond_signal\<close> wakes the thread that is blocked on the condition, if there is one.\<close>

definition cond_signal :: "sync \<Rightarrow> sync" where
  "cond_signal s = (if spc s = S_Blocked then s\<lparr>spc := S_Woken\<rparr> else s)"

inductive fwd_step :: "forwarder \<Rightarrow> sync \<Rightarrow> sync \<Rightarrow> bool" for i :: forwarder where
  lock: "fpc s i = F_Lock \<Longrightarrow> mutex s = Free \<Longrightarrow>
    fwd_step i s (s\<lparr>mutex := Held i, fpc := (fpc s)(i := F_Inc)\<rparr>)"
| incr: "fpc s i = F_Inc \<Longrightarrow>
    fwd_step i s (s\<lparr>ready_count := ready_count s + 1, fpc := (fpc s)(i := F_Test)\<rparr>)"
| signal: "fpc s i = F_Test \<Longrightarrow>
    fwd_step i s ((if ready_count s = 2 then cond_signal s else s)\<lparr>fpc := (fpc s)(i := F_Unlock)\<rparr>)"
| unlock: "fpc s i = F_Unlock \<Longrightarrow>
    fwd_step i s (s\<lparr>mutex := Free, fpc := (fpc s)(i := F_Run)\<rparr>)"

inductive switch_step :: "sync \<Rightarrow> sync \<Rightarrow> bool" where
  check: "spc s = S_Check \<Longrightarrow>
    switch_step s (s\<lparr>spc := if ready_count s < 2 then S_Wait else S_Run\<rparr>)"
| wait: "spc s = S_Wait \<Longrightarrow>
    switch_step s (s\<lparr>spc := S_Blocked, mutex := if mutex s = Held_switch then Free else mutex s\<rparr>)"
| reacquire: "spc s = S_Woken \<Longrightarrow> mutex s = Free \<Longrightarrow>
    switch_step s (s\<lparr>spc := S_Check, mutex := Held_switch\<rparr>)"

inductive spurious_wakeup :: "sync \<Rightarrow> sync \<Rightarrow> bool" where
  "spc s = S_Blocked \<Longrightarrow> spurious_wakeup s (s\<lparr>spc := S_Woken\<rparr>)"

inductive_cases fwd_stepE: "fwd_step i s t"
inductive_cases switch_stepE: "switch_step s t"
inductive_simps fwd_step_iff: "fwd_step i s t"
inductive_simps switch_step_iff: "switch_step s t"
inductive_simps spurious_iff: "spurious_wakeup s t"

text \<open>
  \<open>sync_run n s t\<close>: \<open>n\<close> steps of the three threads lead from \<open>s\<close> to \<open>t\<close>.  \<open>sync_reach\<close>: the
  states of a run in which waits may also end without a signal.
\<close>

definition sync_step :: "sync \<Rightarrow> sync \<Rightarrow> bool" where
  "sync_step s t \<longleftrightarrow> (\<exists>i. fwd_step i s t) \<or> switch_step s t"

inductive sync_run :: "nat \<Rightarrow> sync \<Rightarrow> bool" where
  start: "sync_run 0 sync_start"
| step: "sync_run n s \<Longrightarrow> sync_step s t \<Longrightarrow> sync_run (Suc n) t"

inductive sync_reach :: "sync \<Rightarrow> bool" where
  start: "sync_reach sync_start"
| step: "sync_reach s \<Longrightarrow> sync_step s t \<Longrightarrow> sync_reach t"
| spurious: "sync_reach s \<Longrightarrow> spurious_wakeup s t \<Longrightarrow> sync_reach t"

section \<open>The order of the program points\<close>

primrec fwd_rank :: "fwd_pc \<Rightarrow> nat" where
  "fwd_rank F_Lock = 0" | "fwd_rank F_Inc = 1" | "fwd_rank F_Test = 2" | "fwd_rank F_Unlock = 3" | "fwd_rank F_Run = 4"

instantiation fwd_pc :: linorder
begin

definition less_eq_fwd_pc :: "fwd_pc \<Rightarrow> fwd_pc \<Rightarrow> bool" where
  "less_eq_fwd_pc x y \<longleftrightarrow> fwd_rank x \<le> fwd_rank y"

definition less_fwd_pc :: "fwd_pc \<Rightarrow> fwd_pc \<Rightarrow> bool" where
  "less_fwd_pc x y \<longleftrightarrow> fwd_rank x < fwd_rank y"

instance
proof
  fix x y :: fwd_pc
  show "x \<le> y \<Longrightarrow> y \<le> x \<Longrightarrow> x = y"
    by (cases x; cases y) (simp_all add: less_eq_fwd_pc_def)
qed (auto simp: less_eq_fwd_pc_def less_fwd_pc_def)

end

lemmas pc_order = less_eq_fwd_pc_def less_fwd_pc_def

lemma forwarder_all: "(\<forall>i. P i) \<longleftrightarrow> P Fwd1 \<and> P Fwd2"
  by (metis (full_types) forwarder.exhaust)

lemma forwarder_ex: "(\<exists>i. P i) \<longleftrightarrow> P Fwd1 \<or> P Fwd2"
  by (metis (full_types) forwarder.exhaust)

section \<open>Invariants\<close>

text \<open>
  The counter is the number of forwarders past their increment; the mutex is held by a
  forwarder exactly between its lock and its unlock; the switch holds it only when it is about
  to look, to wait, or has gone on after both are counted.
\<close>

definition counted :: "sync \<Rightarrow> nat" where
  "counted s = (if F_Inc < fpc s Fwd1 then 1 else 0) + (if F_Inc < fpc s Fwd2 then 1 else 0)"

definition sync_inv :: "sync \<Rightarrow> bool" where
  "sync_inv s \<longleftrightarrow> ready_count s = counted s \<and>
     (\<forall>i. mutex s = Held i \<longleftrightarrow> F_Lock < fpc s i \<and> fpc s i < F_Run) \<and>
     (mutex s = Held_switch \<longrightarrow> spc s = S_Check \<or> spc s = S_Wait \<or> spc s = S_Run) \<and>
     (spc s = S_Run \<longrightarrow> ready_count s = 2)"

lemma sync_inv_start: "sync_inv sync_start"
  by (simp add: sync_inv_def sync_start_def counted_def pc_order)

lemma sync_inv_fwd: "fwd_step i s t \<Longrightarrow> sync_inv s \<Longrightarrow> sync_inv t"
  by (cases i; erule fwd_stepE)
     (auto simp: sync_inv_def counted_def forwarder_all pc_order cond_signal_def split: if_splits)

lemma sync_inv_switch: "switch_step s t \<Longrightarrow> sync_inv s \<Longrightarrow> sync_inv t"
  by (erule switch_stepE) (auto simp: sync_inv_def counted_def forwarder_all pc_order split: if_splits)

lemma sync_inv_step: "sync_step s t \<Longrightarrow> sync_inv s \<Longrightarrow> sync_inv t"
  using sync_inv_fwd sync_inv_switch by (auto simp: sync_step_def)

lemma sync_inv_reach: "sync_reach s \<Longrightarrow> sync_inv s"
proof (induction rule: sync_reach.induct)
  case start
  show ?case by (rule sync_inv_start)
next
  case (step s t)
  then show ?case using sync_inv_step by blast
next
  case (spurious s t)
  then show ?case by (auto simp: spurious_iff sync_inv_def counted_def)
qed

lemma sync_run_reach: "sync_run n s \<Longrightarrow> sync_reach s"
  by (induction rule: sync_run.induct) (auto intro: sync_reach.intros)

text \<open>
  Without spurious wake-ups the switch is woken only by the second forwarder.  The weight of a
  state grows with every step.
\<close>

definition woken_inv :: "sync \<Rightarrow> bool" where
  "woken_inv s \<longleftrightarrow> (spc s = S_Woken \<or> mutex s = Held_switch \<longrightarrow> ready_count s = 2 \<and> spc s \<noteq> S_Wait)"

definition fwd_weight :: "sync \<Rightarrow> nat" where
  "fwd_weight s = fwd_rank (fpc s Fwd1) + fwd_rank (fpc s Fwd2)"

definition sw_weight :: "sync \<Rightarrow> nat" where
  "sw_weight s = (case spc s of S_Check \<Rightarrow> if mutex s = Held_switch then 4 else 0 | S_Wait \<Rightarrow> 1
      | S_Blocked \<Rightarrow> 2 | S_Woken \<Rightarrow> 3 | S_Run \<Rightarrow> 5)"

lemma fwd_step_weight: "fwd_step i s t \<Longrightarrow> fwd_weight t = Suc (fwd_weight s)"
  by (cases i; erule fwd_stepE) (simp_all add: fwd_weight_def cond_signal_def)

lemma counted_2: "counted s = 2 \<Longrightarrow> F_Inc < fpc s i"
  by (cases i) (auto simp: counted_def split: if_splits)

lemma fwd_step_switch:
  assumes "fwd_step i s t" and "sync_inv s" and "woken_inv s"
  shows "sw_weight s \<le> sw_weight t \<and> woken_inv t"
proof -
  note inv = assms(2) [unfolded sync_inv_def]
  from assms(1) show ?thesis
  proof (cases rule: fwd_step.cases)
    case lock
    with assms(3) show ?thesis by (auto simp: sw_weight_def woken_inv_def split: sw_pc.split)
  next
    case incr
    then have "ready_count s \<noteq> 2" using inv counted_2 [of s i] by (auto simp: pc_order)
    with incr assms(3) show ?thesis by (auto simp: sw_weight_def woken_inv_def split: sw_pc.split)
  next
    case signal
    then have "mutex s = Held i" using inv by (simp add: pc_order)
    with signal assms(3) show ?thesis
      by (auto simp: sw_weight_def woken_inv_def cond_signal_def split: sw_pc.split)
  next
    case unlock
    then have "mutex s = Held i" using inv by (simp add: pc_order)
    with unlock assms(3) show ?thesis by (auto simp: sw_weight_def woken_inv_def split: sw_pc.split)
  qed
qed

lemma switch_step_weight:
  assumes "switch_step s t" and "sync_inv s" and "woken_inv s"
  shows "sw_weight s < sw_weight t \<and> woken_inv t \<and> fwd_weight t = fwd_weight s"
  using assms(1)
proof (cases rule: switch_step.cases)
  case check
  with assms(3) show ?thesis by (simp add: sw_weight_def woken_inv_def fwd_weight_def)
next
  case wait
  with assms(3) show ?thesis by (simp add: sw_weight_def woken_inv_def fwd_weight_def)
next
  case reacquire
  with assms(3) show ?thesis by (simp add: sw_weight_def woken_inv_def fwd_weight_def)
qed

lemma step_weight:
  assumes "sync_step s t" and "sync_inv s" and "woken_inv s"
  shows "fwd_weight s + sw_weight s < fwd_weight t + sw_weight t \<and> woken_inv t"
  using assms fwd_step_weight fwd_step_switch switch_step_weight unfolding sync_step_def
  by (metis add_less_le_mono add_strict_left_mono less_Suc_eq)

lemma run_weight: "sync_run n s \<Longrightarrow> n \<le> fwd_weight s + sw_weight s \<and> woken_inv s"
proof (induction rule: sync_run.induct)
  case start
  show ?case by (simp add: woken_inv_def sync_start_def)
next
  case (step n s t)
  then show ?case using step_weight [OF step.hyps(2)] sync_inv_reach [OF sync_run_reach [OF step.hyps(1)]] by simp
qed

lemma weight_le: "fwd_weight s + sw_weight s \<le> 13"
proof -
  have "fwd_rank x \<le> 4" for x by (cases x) simp_all
  then have "fwd_weight s \<le> 8" unfolding fwd_weight_def by (metis add_mono numeral_Bit0)
  moreover have "sw_weight s \<le> 5" by (simp add: sw_weight_def split: sw_pc.split)
  ultimately show ?thesis by simp
qed

text \<open>A thread that has not gone on can make a step, or is blocked, or waits for the mutex.\<close>

lemma fwd_enabled: "fpc s i \<noteq> F_Run \<Longrightarrow> fpc s i \<noteq> F_Lock \<or> mutex s = Free \<Longrightarrow> \<exists>t. fwd_step i s t"
  by (cases "fpc s i") (auto intro: fwd_step.intros)

lemma switch_enabled: "spc s = S_Check \<or> spc s = S_Wait \<or> spc s = S_Woken \<and> mutex s = Free \<Longrightarrow> \<exists>t. switch_step s t"
  by (auto intro: switch_step.intros)

lemma stuck_iff:
  assumes "sync_inv s"
  shows "(\<nexists>t. sync_step s t) \<longleftrightarrow> (\<forall>i. fpc s i = F_Run) \<and> (spc s = S_Run \<or> spc s = S_Blocked)"
proof
  assume stuck: "\<nexists>t. sync_step s t"
  have f: "fpc s i = F_Run \<or> fpc s i = F_Lock \<and> mutex s \<noteq> Free" for i
    using stuck fwd_enabled [of s i] by (auto simp: sync_step_def)
  have sw: "spc s \<noteq> S_Check" "spc s \<noteq> S_Wait" "spc s = S_Woken \<Longrightarrow> mutex s \<noteq> Free"
    using stuck switch_enabled [of s] by (auto simp: sync_step_def)
  have "mutex s \<noteq> Held i" for i
    using assms f [of i] by (auto simp: sync_inv_def pc_order)
  then have m: "mutex s = Free \<or> mutex s = Held_switch" by (cases "mutex s") auto
  have run: "mutex s = Held_switch \<Longrightarrow> spc s = S_Run \<and> counted s = 2"
    using assms sw by (auto simp: sync_inv_def)
  have "fpc s i = F_Run" for i
  proof (rule ccontr)
    assume "fpc s i \<noteq> F_Run"
    with f [of i] m run have "fpc s i = F_Lock" "counted s = 2" by auto
    then show False by (cases i) (auto simp: counted_def pc_order split: if_splits)
  qed
  moreover have "spc s = S_Run \<or> spc s = S_Blocked"
    using sw m run by (cases "spc s") auto
  ultimately show "(\<forall>i. fpc s i = F_Run) \<and> (spc s = S_Run \<or> spc s = S_Blocked)" by blast
next
  assume "(\<forall>i. fpc s i = F_Run) \<and> (spc s = S_Run \<or> spc s = S_Blocked)"
  then show "\<nexists>t. sync_step s t"
    by (auto simp: sync_step_def elim: fwd_stepE switch_stepE)
qed

text \<open>
  The switch will get the signal, or does not need it any more: while it is blocked some
  forwarder has its look at the counter still before it.
\<close>

definition will_wake :: "sync \<Rightarrow> bool" where
  "will_wake s \<longleftrightarrow> spc s \<noteq> S_Wait \<and> (spc s = S_Blocked \<longrightarrow> (\<exists>i. fpc s i \<le> F_Test)) \<and>
     (spc s = S_Check \<or> spc s = S_Woken \<longrightarrow> ready_count s = 2)"

lemma will_wake_fwd:
  assumes "fwd_step i s t" and "sync_inv s" and "will_wake s"
  shows "will_wake t"
proof -
  have cnt: "ready_count s = counted s" using assms(2) by (simp add: sync_inv_def)
  from assms(1,3) show ?thesis
  proof (cases rule: fwd_step.cases)
    case lock
    with assms(3) show ?thesis by (cases i) (auto simp: will_wake_def forwarder_ex pc_order)
  next
    case incr
    with cnt have "counted s \<noteq> 2" using counted_2 [of s i] by (auto simp: pc_order)
    with incr cnt assms(3) show ?thesis by (cases i) (auto simp: will_wake_def forwarder_ex pc_order)
  next
    case signal
    show ?thesis
    proof (cases "ready_count s = 2")
      case True
      with signal assms(3) show ?thesis by (auto simp: will_wake_def cond_signal_def)
    next
      case False
      have "\<exists>j. j \<noteq> i \<and> fpc s j \<le> F_Inc"
        using False signal(2) unfolding cnt counted_def by (cases i) (auto simp: forwarder_ex pc_order split: if_splits)
      then obtain j where "j \<noteq> i" "fpc t j \<le> F_Test" using False signal(1) by (auto simp: pc_order)
      with signal False assms(3) show ?thesis by (auto simp: will_wake_def)
    qed
  next
    case unlock
    with assms(3) show ?thesis by (cases i) (auto simp: will_wake_def forwarder_ex pc_order)
  qed
qed

lemma will_wake_step: "sync_step s t \<Longrightarrow> sync_inv s \<Longrightarrow> will_wake s \<Longrightarrow> will_wake t"
  unfolding sync_step_def
  by (auto dest: will_wake_fwd) (auto simp: will_wake_def elim!: switch_stepE)

lemma will_wake_starts:
  assumes "sync_step\<^sup>*\<^sup>* s t" and "sync_inv s" and "will_wake s" and "\<nexists>u. sync_step t u"
  shows "spc t = S_Run"
proof -
  have "sync_inv t \<and> will_wake t"
    using assms(1-3) by (induction rule: rtranclp_induct) (auto intro: sync_inv_step will_wake_step)
  moreover from this have "(\<forall>i. fpc t i = F_Run) \<and> (spc t = S_Run \<or> spc t = S_Blocked)"
    using stuck_iff assms(4) by blast
  ultimately show ?thesis by (auto simp: will_wake_def pc_order)
qed

section \<open>Schedules\<close>

text \<open>
  The step a thread makes next, if it can make one; a schedule names the threads that step in
  turn, \<open>None\<close> the switch.
\<close>

definition thread_step :: "forwarder option \<Rightarrow> sync \<Rightarrow> sync option" where
  "thread_step th s =
     (case th of
        Some i \<Rightarrow>
          (case fpc s i of
             F_Lock \<Rightarrow> if mutex s = Free then Some (s\<lparr>mutex := Held i, fpc := (fpc s)(i := F_Inc)\<rparr>) else None
           | F_Inc \<Rightarrow> Some (s\<lparr>ready_count := ready_count s + 1, fpc := (fpc s)(i := F_Test)\<rparr>)
           | F_Test \<Rightarrow> Some ((if ready_count s = 2 then cond_signal s else s)\<lparr>fpc := (fpc s)(i := F_Unlock)\<rparr>)
           | F_Unlock \<Rightarrow> Some (s\<lparr>mutex := Free, fpc := (fpc s)(i := F_Run)\<rparr>)
           | F_Run \<Rightarrow> None)
      | None \<Rightarrow>
          (case spc s of
             S_Check \<Rightarrow> Some (s\<lparr>spc := if ready_count s < 2 then S_Wait else S_Run\<rparr>)
           | S_Wait \<Rightarrow> Some (s\<lparr>spc := S_Blocked, mutex := if mutex s = Held_switch then Free else mutex s\<rparr>)
           | S_Woken \<Rightarrow> if mutex s = Free then Some (s\<lparr>spc := S_Check, mutex := Held_switch\<rparr>) else None
           | _ \<Rightarrow> None))"

lemma thread_step_sound: "thread_step th s = Some t \<Longrightarrow> sync_step s t"
proof (cases th)
  case None
  assume "thread_step th s = Some t"
  with None have "switch_step s t"
    by (cases "spc s") (auto simp: thread_step_def switch_step_iff split: if_splits)
  then show ?thesis by (simp add: sync_step_def)
next
  case (Some i)
  assume "thread_step th s = Some t"
  with Some have "fwd_step i s t"
    by (cases "fpc s i") (auto simp: thread_step_def fwd_step_iff split: if_splits)
  then show ?thesis by (auto simp: sync_step_def)
qed

primrec schedule :: "forwarder option list \<Rightarrow> sync \<Rightarrow> sync option" where
  "schedule [] s = Some s"
| "schedule (th # ths) s = (case thread_step th s of None \<Rightarrow> None | Some t \<Rightarrow> schedule ths t)"

lemma schedule_run: "schedule ths s = Some t \<Longrightarrow> sync_run n s \<Longrightarrow> sync_run (length ths + n) t"
proof (induction ths arbitrary: n s)
  case Nil
  then show ?case by simp
next
  case (Cons th ths)
  then obtain u where u: "thread_step th s = Some u" "schedule ths u = Some t" by (auto split: option.splits)
  have "sync_run (Suc n) u" using sync_run.step [OF Cons.prems(2) thread_step_sound [OF u(1)]] .
  from Cons.IH [OF u(2) this] show ?case by simp
qed

text \<open>Both forwarders first; and both between the look of the switch and its wait.\<close>

abbreviation both_forwarders :: "forwarder option list" where
  "both_forwarders \<equiv> replicate 4 (Some Fwd1) @ replicate 4 (Some Fwd2)"

lemma good_schedule:
  "\<exists>s. schedule (both_forwarders @ [None]) sync_start = Some s \<and> spc s = S_Run \<and> (\<forall>i. fpc s i = F_Run)"
  by (simp add: eval_nat_numeral thread_step_def sync_start_def cond_signal_def forwarder_all)

lemma bad_schedule:
  "\<exists>s. schedule (None # both_forwarders @ [None]) sync_start = Some s \<and> spc s = S_Blocked \<and>
     ready_count s = 2 \<and> (\<forall>i. fpc s i = F_Run)"
  by (simp add: eval_nat_numeral thread_step_def sync_start_def cond_signal_def forwarder_all)

section \<open>Properties\<close>

text \<open>
  C13. The switch starts the traffic only after both forwarders have announced themselves, in
  every interleaving and whether or not waits end without a signal.
\<close>

theorem handshake_safe:
  assumes "sync_reach s" and "spc s = S_Run"
  shows "ready_count s = 2 \<and> (\<forall>i. F_Inc < fpc s i)"
  using sync_inv_reach [OF assms(1)] assms(2)
  by (auto simp: sync_inv_def counted_def forwarder_all split: if_splits)


end
