(* ===== verification/App_Inter.thy ===== *)
theory App_Inter
  imports App_Forward App_Sync
begin

text \<open>
  The interleaving application, \<open>testapp_inter.c\<close>: the network port, the packet generator
  behind the user BAR of port 1 that \<open>switch_start\<close> programs and reads out, and \<open>main\<close>.  Its
  forwarder is in \<open>App_Forward\<close>, the start of its threads in \<open>App_Sync\<close>.

  The file includes a header \<open>testapp_lat.h\<close> with the addresses of the generator's registers,
  which is not in the repository; the register tables are a parameter.
\<close>

section \<open>Ports\<close>

text \<open>The port functions that have the same text in both programs.\<close>

definition inter_port_close :: "'x dpdk \<Rightarrow> int \<Rightarrow> 'x app \<Rightarrow> fault + 'x app" where
  "inter_port_close = port_close"

definition inter_port_remove :: "'x dpdk \<Rightarrow> int \<Rightarrow> 'x app \<Rightarrow> fault + int \<times> 'x app" where
  "inter_port_remove = port_remove"

definition port_init_xdma :: "'x dpdk \<Rightarrow> int \<Rightarrow> int \<Rightarrow> int \<Rightarrow> int \<Rightarrow> int \<Rightarrow> 'x app \<Rightarrow> fault + int \<times> 'x app" where
  "port_init_xdma = port_init"

definition inter_port_reset :: "'x dpdk \<Rightarrow> int \<Rightarrow> int \<Rightarrow> int \<Rightarrow> int \<Rightarrow> int \<Rightarrow> 'x app \<Rightarrow> fault + int \<times> 'x app" where
  "inter_port_reset = port_reset port_init_xdma"

definition inter_dev_remove_callback :: "'x dpdk \<Rightarrow> u16 \<Rightarrow> eth_event \<Rightarrow> 'x app \<Rightarrow> fault + int \<times> 'x app" where
  "inter_dev_remove_callback = dev_remove_callback"

definition inter_dev_reset_callback :: "'x dpdk \<Rightarrow> u16 \<Rightarrow> eth_event \<Rightarrow> 'x app \<Rightarrow> fault + int \<times> 'x app" where
  "inter_dev_reset_callback = dev_reset_callback port_init_xdma"

definition inter_main_begin :: "env \<Rightarrow> 'x dpdk \<Rightarrow> 'x app \<Rightarrow> fault + nat \<times> 'x app" where
  "inter_main_begin = main_begin"

definition inter_teardown :: "'x dpdk \<Rightarrow> nat \<Rightarrow> 'x app \<Rightarrow> fault + 'x app" where
  "inter_teardown = teardown"

text \<open>
  The network port.  The pool gets the name in \<open>pinfo\<close>, which nothing has set for this port,
  not the name the function has composed.
\<close>

definition nic_pool_size :: "u16 \<Rightarrow> u16 \<Rightarrow> u16 \<Rightarrow> u32" where
  "nic_pool_size nrx ntx nd = max (ucast nd * of_int (uint nrx + uint ntx) * 2) (MP_CACHE_SZ * 2)"

definition port_init_nic :: "'x dpdk \<Rightarrow> u16 \<Rightarrow> u16 \<Rightarrow> u16 \<Rightarrow> u16 \<Rightarrow> u16 \<Rightarrow> 'x app \<Rightarrow> fault + int \<times> 'x app" where
  "port_init_nic E port nb_rx nb_tx nd bsize s =
     (if \<not> is_valid_port E port (sys s) then Inr (- 1, s) else
      andThen (load_int (pinfo s) (uint port)) (\<lambda>p.
      let (mp, y) = pktmbuf_pool_create E (mem_pool p) (nic_pool_size nb_rx nb_tx nd) MP_CACHE_SZ 0
                      (of_int (uint bsize + RTE_PKTMBUF_HEADROOM)) (sys s);
          s = s\<lparr>sys := y\<rparr> in
      if mp = 0 then Inl Exited else
      andThen (call_or_exit (eth_dev_configure E port nb_rx nb_tx Conf_mq_none) s) (\<lambda>s.
      andThen (for_loop 0 (unat nb_rx)
         (\<lambda>q. call_or_exit (eth_rx_queue_setup E port (of_nat q) nd (dev_socket_id E port) Conf_default mp)) s) (\<lambda>s.
      andThen (for_loop 0 (unat nb_tx)
         (\<lambda>q. call_or_exit (eth_tx_queue_setup E port (of_nat q) nd (dev_socket_id E port) Conf_default)) s) (\<lambda>s.
      andThen (call_or_exit (eth_dev_start E port) s) (\<lambda>s.
      andThen (dpdk_call (promiscuous_enable E port) s) (\<lambda>(_, s). Inr (0, s))))))))"

section \<open>The packet generator\<close>

record latpkg =
  reg_soft_clear :: u32
  reg_mode :: "u32 list"
  reg_interval :: "u32 list"
  reg_explambda :: "u32 list"
  reg_packetnum :: "u32 list"
  reg_seed :: "u32 list"
  reg_start :: "u32 list"
  reg_stop :: "u32 list"
  reg_done :: "u32 list"
  reg_recvcount :: "u32 list"
  reg_rx_done :: "u32 list"
  reg_accum_hi :: "u32 list list"
  reg_accum_lo :: "u32 list list"

text \<open>
  The device answers the loads in order: \<open>rd i a\<close> is the answer to the \<open>i\<close>th if it goes to \<open>a\<close>;
  the operations return the number of loads made so far.
\<close>

definition devmem_read :: "(nat \<Rightarrow> u64 \<Rightarrow> u32) \<Rightarrow> (int \<Rightarrow> u64) \<Rightarrow> u32 \<Rightarrow> world \<Rightarrow> nat \<Rightarrow> fault + u32 \<times> nat" where
  "devmem_read rd pd addr w i = andThen (rte_user_read (rd i) pd 1 addr w) (\<lambda>v. Inr (v, Suc i))"

definition devmem_read_64 :: "(nat \<Rightarrow> u64 \<Rightarrow> u32) \<Rightarrow> (int \<Rightarrow> u64) \<Rightarrow> u32 \<Rightarrow> world \<Rightarrow> nat \<Rightarrow> fault + u64 \<times> nat" where
  "devmem_read_64 rd pd addr w i =
     andThen (devmem_read rd pd addr w i) (\<lambda>(ret_hi, i).
     andThen (devmem_read rd pd (addr + 4) w i) (\<lambda>(ret_lo, i).
     Inr (push_bit 32 (ucast ret_hi) OR ucast ret_lo, i)))"

definition devmem_write :: "(int \<Rightarrow> u64) \<Rightarrow> u32 \<Rightarrow> u32 \<Rightarrow> world \<Rightarrow> fault + world" where
  "devmem_write pd addr val w = rte_user_write pd 1 addr val w"

text \<open>A write to a register of channel \<open>ch\<close>.\<close>

definition channel_write :: "(int \<Rightarrow> u64) \<Rightarrow> u32 list \<Rightarrow> int \<Rightarrow> u32 \<Rightarrow> world \<Rightarrow> fault + world" where
  "channel_write pd reg ch val w = andThen (load_int reg ch) (\<lambda>a. devmem_write pd a val w)"

definition configure_channel :: "(int \<Rightarrow> u64) \<Rightarrow> latpkg \<Rightarrow> int \<Rightarrow> u32 \<Rightarrow> u32 \<Rightarrow> u32 \<Rightarrow> u32 \<Rightarrow> u32 \<Rightarrow> world
    \<Rightarrow> fault + world" where
  "configure_channel pd L ch mode interval exp_lambda packet_num seed w =
     andThen (channel_write pd (reg_mode L) ch mode w) (\<lambda>w.
     andThen (channel_write pd (reg_interval L) ch interval w) (\<lambda>w.
     andThen (channel_write pd (reg_explambda L) ch exp_lambda w) (\<lambda>w.
     andThen (channel_write pd (reg_packetnum L) ch packet_num w) (\<lambda>w.
     channel_write pd (reg_seed L) ch seed w))))"

definition start_channel :: "(int \<Rightarrow> u64) \<Rightarrow> latpkg \<Rightarrow> int \<Rightarrow> world \<Rightarrow> fault + world" where
  "start_channel pd L ch = channel_write pd (reg_start L) ch 1"

definition stop_channel :: "(int \<Rightarrow> u64) \<Rightarrow> latpkg \<Rightarrow> int \<Rightarrow> world \<Rightarrow> fault + world" where
  "stop_channel pd L ch = channel_write pd (reg_stop L) ch 1"

definition clear_accum :: "(int \<Rightarrow> u64) \<Rightarrow> latpkg \<Rightarrow> world \<Rightarrow> fault + world" where
  "clear_accum pd L = devmem_write pd (reg_soft_clear L) 1"

text \<open>
  Waiting for the generator: \<open>late i\<close> tells whether more time than the timeout has passed
  after the \<open>i\<close>th load.  Nothing in the code bounds the wait except that clock.
\<close>

partial_function (option) rx_done_loop :: "(nat \<Rightarrow> u64 \<Rightarrow> u32) \<Rightarrow> (nat \<Rightarrow> bool) \<Rightarrow> (int \<Rightarrow> u64) \<Rightarrow> u32 \<Rightarrow> world
    \<Rightarrow> nat \<Rightarrow> (fault + bool \<times> nat) option" where
  "rx_done_loop rd late pd reg w i =
     (case devmem_read rd pd reg w i of
        Inl e \<Rightarrow> Some (Inl e)
      | Inr (v, j) \<Rightarrow>
          if v AND 0x1 \<noteq> 0 then Some (Inr (True, j))
          else if late i then Some (Inr (False, j))
          else rx_done_loop rd late pd reg w j)"

definition wait_rx_done :: "(nat \<Rightarrow> u64 \<Rightarrow> u32) \<Rightarrow> (nat \<Rightarrow> bool) \<Rightarrow> (int \<Rightarrow> u64) \<Rightarrow> latpkg \<Rightarrow> int \<Rightarrow> world
    \<Rightarrow> nat \<Rightarrow> (fault + bool \<times> nat) option" where
  "wait_rx_done rd late pd L ch w i =
     (case load_int (reg_rx_done L) ch of
        Inl e \<Rightarrow> Some (Inl e)
      | Inr reg \<Rightarrow> rx_done_loop rd late pd reg w i)"

text \<open>The accumulators of a channel, read in order.\<close>

fun read_regs :: "(nat \<Rightarrow> u64 \<Rightarrow> u32) \<Rightarrow> (int \<Rightarrow> u64) \<Rightarrow> u32 list \<Rightarrow> world \<Rightarrow> nat \<Rightarrow> fault + u64 list \<times> nat" where
  "read_regs rd pd [] w i = Inr ([], i)"
| "read_regs rd pd (r # rs) w i =
     andThen (devmem_read_64 rd pd r w i) (\<lambda>(v, i).
     andThen (read_regs rd pd rs w i) (\<lambda>(vs, i). Inr (v # vs, i)))"

definition read_results :: "(nat \<Rightarrow> u64 \<Rightarrow> u32) \<Rightarrow> (int \<Rightarrow> u64) \<Rightarrow> latpkg \<Rightarrow> int \<Rightarrow> world \<Rightarrow> nat
    \<Rightarrow> fault + u64 list \<times> nat" where
  "read_results rd pd L ch w i = andThen (load_int (reg_accum_hi L) ch) (\<lambda>rs. read_regs rd pd rs w i)"

definition read_recvcount :: "(nat \<Rightarrow> u64 \<Rightarrow> u32) \<Rightarrow> (int \<Rightarrow> u64) \<Rightarrow> latpkg \<Rightarrow> int \<Rightarrow> world \<Rightarrow> nat
    \<Rightarrow> fault + u32 \<times> nat" where
  "read_recvcount rd pd L ch w i =
     andThen (load_int (reg_recvcount L) ch) (\<lambda>r.
     andThen (devmem_read rd pd r w i) (\<lambda>(ret, i). Inr (ucast (ucast ret :: u64), i)))"

definition generator_init :: "(int \<Rightarrow> u64) \<Rightarrow> world \<Rightarrow> fault + world" where
  "generator_init pd w = andThen (devmem_write pd 0x100000 1 w) (devmem_write pd 0x100000 0)"

text \<open>
  \<open>switch_start\<close> after the forwarders are ready; \<open>init\<close> there is \<open>generator_init\<close>.  The result
  is what it prints: nothing after a timeout, otherwise the number of packets received and the
  accumulators; the averages computed from them, in floating point, are left out.
\<close>

definition switch_program :: "(int \<Rightarrow> u64) \<Rightarrow> latpkg \<Rightarrow> world \<Rightarrow> fault + world" where
  "switch_program pd L w =
     andThen (generator_init pd w) (\<lambda>w.
     andThen (clear_accum pd L w) (\<lambda>w.
     andThen (configure_channel pd L 0 3 2000 16 (of_int pkt_num) 1 w) (\<lambda>w.
     start_channel pd L 0 w)))"

definition switch_results :: "(nat \<Rightarrow> u64 \<Rightarrow> u32) \<Rightarrow> (int \<Rightarrow> u64) \<Rightarrow> latpkg \<Rightarrow> world \<Rightarrow> nat
    \<Rightarrow> fault + int \<times> u64 list" where
  "switch_results rd pd L w i =
     andThen (read_recvcount rd pd L 0 w i) (\<lambda>(n, i).
     andThen (read_results rd pd L 0 w i) (\<lambda>(accum, _). Inr (sint n, accum)))"

definition switch_start :: "(nat \<Rightarrow> u64 \<Rightarrow> u32) \<Rightarrow> (nat \<Rightarrow> bool) \<Rightarrow> (int \<Rightarrow> u64) \<Rightarrow> latpkg \<Rightarrow> world
    \<Rightarrow> (fault + (int \<times> u64 list) option \<times> world) option" where
  "switch_start rd late pd L w =
     (case switch_program pd L w of
        Inl e \<Rightarrow> Some (Inl e)
      | Inr w \<Rightarrow>
          (case wait_rx_done rd late pd L 0 w 0 of
             None \<Rightarrow> None
           | Some (Inl e) \<Rightarrow> Some (Inl e)
           | Some (Inr (done, i)) \<Rightarrow>
               Some (if done then andThen (switch_results rd pd L w i) (\<lambda>r. Inr (Some r, w))
                     else Inr (None, w))))"

section \<open>Main\<close>

text \<open>
  \<open>main\<close> until the threads are started.  Buffers are taken from the pool of port 0 for the
  arrays 1, 3, 5 and from that of port 1 for 0, 2, 4; \<open>None\<close> where \<open>main\<close> returns -1.
\<close>

definition inter_main_start :: "env \<Rightarrow> 'x dpdk \<Rightarrow> 'x app \<Rightarrow> fault + (nat \<times> u64 list list) option \<times> 'x app" where
  "inter_main_start ev E s =
     andThen (inter_main_begin ev E s) (\<lambda>(n, s).
     andThen (port_init_nic E 0 4 4 32 1024 s) (\<lambda>(_, s).
     andThen (port_init_xdma E 1 4 4 32 1024 s) (\<lambda>(_, s).
     andThen (take_buffers E 0 3 32 s) (\<lambda>(rows, s).
     case rows of None \<Rightarrow> Inr (None, s) | Some odd_rows \<Rightarrow>
     andThen (take_buffers E 1 3 32 s) (\<lambda>(rows, s).
     case rows of None \<Rightarrow> Inr (None, s) | Some even_rows \<Rightarrow>
       Inr (Some (n, [map (\<lambda>r. r ! 0) even_rows, map (\<lambda>r. r ! 0) odd_rows, map (\<lambda>r. r ! 1) even_rows,
                      map (\<lambda>r. r ! 1) odd_rows, map (\<lambda>r. r ! 2) even_rows, map (\<lambda>r. r ! 2) odd_rows]), s))))))"

datatype job = Job_forward thread_args | Job_switch

definition THREAD_NUM :: nat where "THREAD_NUM = 3"
definition worker_lcores :: "nat list" where "worker_lcores = [4, 6, 8]"

text \<open>The arguments of thread \<open>i\<close>: it forwards between ports 0 and 1 on queue \<open>i div 2\<close>.\<close>

definition worker_args :: "u64 list list \<Rightarrow> nat \<Rightarrow> thread_args" where
  "worker_args pkts i = \<lparr>src_port_id = int (i mod 2), src_queue_id = int (i div 2),
     dst_port_id = int ((i + 1) mod 2), dst_queue_id = int (i div 2), arg_pkts = pkts ! i\<rparr>"

text \<open>The jobs started on the worker cores; \<open>enabled\<close> tells which cores DPDK runs.\<close>

fun launch_from :: "(nat \<Rightarrow> bool) \<Rightarrow> u64 list list \<Rightarrow> nat \<Rightarrow> nat list \<Rightarrow> fault + (nat \<times> job) list" where
  "launch_from enabled pkts i [] = Inr []"
| "launch_from enabled pkts i (c # cs) =
     (if \<not> enabled c then Inl Exited else
      andThen (launch_from enabled pkts (Suc i) cs) (\<lambda>js.
      Inr ((c, if i = THREAD_NUM - 1 then Job_switch else Job_forward (worker_args pkts i)) # js)))"

definition launch :: "(nat \<Rightarrow> bool) \<Rightarrow> u64 list list \<Rightarrow> fault + (nat \<times> job) list" where
  "launch enabled pkts = launch_from enabled pkts 0 (take THREAD_NUM worker_lcores)"

section \<open>Programming and waiting\<close>

text \<open>Port 1 is a device whose user BAR is mapped at \<open>a\<close>.\<close>

definition generator_at :: "(int \<Rightarrow> u64) \<Rightarrow> u64 \<Rightarrow> world \<Rightarrow> bool" where
  "generator_at pd a w \<longleftrightarrow> (\<exists>dat. eth_data (pd 1) w = Inr dat \<and> bar_mapped user_bar_idx (dev_private dat) a w)"

lemma generator_at_store [simp]: "generator_at pd a (mmio_store b v w) = generator_at pd a w"
  by (simp add: generator_at_def eth_data_def)

lemma devmem_write_eq: "generator_at pd a w \<Longrightarrow> devmem_write pd off v w = Inr (mmio_store (a + ucast off) v w)"
  by (auto simp: generator_at_def devmem_write_def rte_user_write_def)

lemma devmem_read_eq: "generator_at pd a w \<Longrightarrow> devmem_read rd pd off w i = Inr (rd i (a + ucast off), Suc i)"
  by (auto simp: generator_at_def devmem_read_def rte_user_read_def xdma_user_read_def bar_mapped_def)

lemma devmem_read_64_eq: "generator_at pd a w \<Longrightarrow>
  devmem_read_64 rd pd off w i = Inr (addr_join (rd i (a + ucast off)) (rd (Suc i) (a + ucast (off + 4))), Suc (Suc i))"
  by (simp add: devmem_read_64_def devmem_read_eq addr_join_def)

lemma generator_at_cong: "eth_devs w' = eth_devs w \<Longrightarrow> xdevs w' = xdevs w \<Longrightarrow> generator_at pd a w' = generator_at pd a w"
  by (simp add: generator_at_def eth_data_def bar_mapped_def bar_base_def)

lemma channel_write_eq:
  "generator_at pd a w \<Longrightarrow> reg \<noteq> [] \<Longrightarrow> channel_write pd reg 0 v w = Inr (mmio_store (a + ucast (reg ! 0)) v w)"
  by (simp add: channel_write_def devmem_write_eq)

lemma rx_done_loop_step:
  "generator_at pd a w \<Longrightarrow> rx_done_loop rd late pd reg w i =
    (if rd i (a + ucast reg) AND 1 \<noteq> 0 then Some (Inr (True, Suc i))
     else if late i then Some (Inr (False, Suc i)) else rx_done_loop rd late pd reg w (Suc i))"
  by (subst rx_done_loop.simps) (simp add: devmem_read_eq)

text \<open>The wait ends at the first load that finds the bit set or is too late.\<close>

lemma rx_done_loop_ends:
  assumes gen: "generator_at pd a w" and k: "rd (i + k) (a + ucast reg) AND 1 \<noteq> 0 \<or> late (i + k)"
    and before: "\<forall>j < k. rd (i + j) (a + ucast reg) AND 1 = 0 \<and> \<not> late (i + j)"
  shows "rx_done_loop rd late pd reg w i = Some (Inr (rd (i + k) (a + ucast reg) AND 1 \<noteq> 0, Suc (i + k)))"
  using k before
proof (induction k arbitrary: i)
  case 0
  then show ?case by (simp add: rx_done_loop_step [OF gen])
next
  case (Suc k)
  have "rd i (a + ucast reg) AND 1 = 0" "\<not> late i" using spec [OF Suc.prems(2), of 0] by simp_all
  moreover have "\<forall>j < k. rd (Suc i + j) (a + ucast reg) AND 1 = 0 \<and> \<not> late (Suc i + j)"
    using Suc.prems(2) by (metis Suc_less_eq add_Suc_shift)
  ultimately show ?case using Suc.IH [of "Suc i"] Suc.prems(1) by (simp add: rx_done_loop_step [OF gen])
qed

lemma rx_done_loop_None:
  assumes gen: "generator_at pd a w" and "\<forall>j. rd (i + j) (a + ucast reg) AND 1 = 0 \<and> \<not> late (i + j)"
  shows "rx_done_loop rd late pd reg w i = None"
proof (rule ccontr)
  assume "rx_done_loop rd late pd reg w i \<noteq> None"
  then obtain y where "rx_done_loop rd late pd reg w i = Some y" by blast
  have "generator_at pd a w \<longrightarrow> \<not> (\<forall>j. rd (i + j) (a + ucast reg) AND 1 = 0 \<and> \<not> late (i + j))"
  proof (rule rx_done_loop.raw_induct [where P = "\<lambda>rd late pd reg w i y.
      generator_at pd a w \<longrightarrow> \<not> (\<forall>j. rd (i + j) (a + ucast reg) AND 1 = 0 \<and> \<not> late (i + j))",
      OF _ \<open>rx_done_loop rd late pd reg w i = Some y\<close>], intro impI notI)
    fix f :: "(nat \<Rightarrow> u64 \<Rightarrow> u32) \<Rightarrow> (nat \<Rightarrow> bool) \<Rightarrow> (int \<Rightarrow> u64) \<Rightarrow> u32 \<Rightarrow> world \<Rightarrow> nat \<Rightarrow> (fault + bool \<times> nat) option"
    fix rd late pd reg w i y
    assume IH: "\<And>rd late pd reg w i y. f rd late pd reg w i = Some y \<Longrightarrow>
        generator_at pd a w \<longrightarrow> \<not> (\<forall>j. rd (i + j) (a + ucast reg) AND 1 = 0 \<and> \<not> late (i + j))"
      and eq: "(case devmem_read rd pd reg w i of Inl e \<Rightarrow> Some (Inl e)
        | Inr (v, j) \<Rightarrow> if v AND 1 \<noteq> 0 then Some (Inr (True, j))
            else if late i then Some (Inr (False, j)) else f rd late pd reg w j) = Some y"
      and gen: "generator_at pd a w" and never: "\<forall>j. rd (i + j) (a + ucast reg) AND 1 = 0 \<and> \<not> late (i + j)"
    have "rd i (a + ucast reg) AND 1 = 0" "\<not> late i" using spec [OF never, of 0] by simp_all
    with eq gen have "f rd late pd reg w (Suc i) = Some y" by (simp add: devmem_read_eq)
    from IH [OF this] gen obtain j where "\<not> (rd (Suc i + j) (a + ucast reg) AND 1 = 0 \<and> \<not> late (Suc i + j))" by blast
    with spec [OF never, of "Suc j"] show False by simp
  qed
  with assms show False by blast
qed

lemma read_regs_eq:
  "generator_at pd a w \<Longrightarrow> read_regs rd pd rs w i = Inr (map (\<lambda>j. addr_join (rd (i + 2 * j) (a + ucast (rs ! j)))
     (rd (i + 2 * j + 1) (a + ucast (rs ! j + 4)))) [0..<length rs], i + 2 * length rs)"
proof (induction rs arbitrary: i)
  case Nil
  then show ?case by simp
next
  case (Cons r rs)
  have "[0..<length (r # rs)] = 0 # map Suc [0..<length rs]" by (simp add: map_Suc_upt upt_conv_Cons del: upt_Suc)
  with Cons show ?case by (simp add: devmem_read_64_eq o_def del: upt_Suc)
qed

definition generator_ok :: "latpkg \<Rightarrow> bool" where
  "generator_ok L \<longleftrightarrow> reg_mode L \<noteq> [] \<and> reg_interval L \<noteq> [] \<and> reg_explambda L \<noteq> [] \<and> reg_packetnum L \<noteq> [] \<and>
     reg_seed L \<noteq> [] \<and> reg_start L \<noteq> [] \<and> reg_rx_done L \<noteq> [] \<and> reg_recvcount L \<noteq> [] \<and> reg_accum_hi L \<noteq> []"

text \<open>The registers written, in order, to start the traffic on channel 0.\<close>

definition start_writes :: "latpkg \<Rightarrow> (u32 \<times> u32) list" where
  "start_writes L = [(0x100000, 1), (0x100000, 0), (reg_soft_clear L, 1), (reg_mode L ! 0, 3),
     (reg_interval L ! 0, 2000), (reg_explambda L ! 0, 16), (reg_packetnum L ! 0, 16), (reg_seed L ! 0, 1),
     (reg_start L ! 0, 1)]"

lemma switch_program_eq:
  assumes "generator_at pd a w" and "generator_ok L"
  shows "switch_program pd L w = Inr (w\<lparr>mmio := mmio w @ map (\<lambda>(r, v). (a + ucast r, v)) (start_writes L)\<rparr>)"
proof -
  have "switch_program pd L w = Inr (foldl (\<lambda>w (r, v). mmio_store (a + ucast r) v w) w (start_writes L))"
    using assms
    by (simp add: switch_program_def generator_init_def clear_accum_def configure_channel_def start_channel_def
        devmem_write_eq channel_write_eq generator_ok_def start_writes_def pkt_num_def)
  then show ?thesis by (simp add: start_writes_def mmio_store_def)
qed

text \<open>What \<open>switch_start\<close> reports when it stops polling after the \<open>k\<close>th look, and what it leaves.\<close>

definition generator_report :: "(nat \<Rightarrow> u64 \<Rightarrow> u32) \<Rightarrow> u64 \<Rightarrow> latpkg \<Rightarrow> nat \<Rightarrow> int \<times> u64 list" where
  "generator_report rd a L k = (sint (rd (k + 1) (a + ucast (reg_recvcount L ! 0))),
     map (\<lambda>j. addr_join (rd (k + 2 + 2 * j) (a + ucast (reg_accum_hi L ! 0 ! j)))
               (rd (k + 2 + 2 * j + 1) (a + ucast (reg_accum_hi L ! 0 ! j + 4)))) [0..<length (reg_accum_hi L ! 0)])"

definition after_start :: "u64 \<Rightarrow> latpkg \<Rightarrow> world \<Rightarrow> world" where
  "after_start a L w = w\<lparr>mmio := mmio w @ map (\<lambda>(r, v). (a + ucast r, v)) (start_writes L)\<rparr>"

lemma generator_at_after_start: "generator_at pd a (after_start b L w) = generator_at pd a w"
  by (intro generator_at_cong) (simp_all add: after_start_def)

lemma switch_start_eq:
  assumes "generator_at pd a w" and "generator_ok L"
  shows "switch_start rd late pd L w = (case rx_done_loop rd late pd (reg_rx_done L ! 0) (after_start a L w) 0 of
      None \<Rightarrow> None | Some (Inl e) \<Rightarrow> Some (Inl e)
    | Some (Inr (b, i)) \<Rightarrow> Some (if b then andThen (switch_results rd pd L (after_start a L w) i) (\<lambda>r. Inr (Some r, after_start a L w))
                                 else Inr (None, after_start a L w)))"
  using switch_program_eq [OF assms, folded after_start_def] assms(2)
  by (simp add: switch_start_def wait_rx_done_def generator_ok_def)

lemma switch_start_ends:
  assumes gen: "generator_at pd a w" and ok: "generator_ok L"
    and k: "rd k (a + ucast (reg_rx_done L ! 0)) AND 1 \<noteq> 0 \<or> late k"
    and before: "\<forall>j < k. rd j (a + ucast (reg_rx_done L ! 0)) AND 1 = 0 \<and> \<not> late j"
  shows "switch_start rd late pd L w = Some (Inr (if rd k (a + ucast (reg_rx_done L ! 0)) AND 1 \<noteq> 0
    then Some (generator_report rd a L k) else None, after_start a L w))"
proof -
  have gen': "generator_at pd a (after_start a L w)" using gen by (simp add: generator_at_after_start)
  have regs: "load_int (reg_recvcount L) 0 = Inr (reg_recvcount L ! 0)" "load_int (reg_accum_hi L) 0 = Inr (reg_accum_hi L ! 0)"
    using ok by (simp_all add: generator_ok_def)
  have narrow: "(ucast (ucast (v :: u32) :: u64) :: u32) = v" for v
    by (rule bit_word_eqI) (simp add: bit_simps)
  have "switch_results rd pd L (after_start a L w) (Suc k) = Inr (generator_report rd a L k)"
    by (simp add: switch_results_def read_recvcount_def read_results_def regs devmem_read_eq [OF gen']
        read_regs_eq [OF gen'] narrow generator_report_def)
  moreover have "rx_done_loop rd late pd (reg_rx_done L ! 0) (after_start a L w) 0 =
      Some (Inr (rd k (a + ucast (reg_rx_done L ! 0)) AND 1 \<noteq> 0, Suc k))"
    using rx_done_loop_ends [OF gen', of rd 0 k "reg_rx_done L ! 0" late] k before by simp
  ultimately show ?thesis by (simp add: switch_start_eq [OF gen ok])
qed

lemma switch_start_never:
  assumes "generator_at pd a w" and "generator_ok L"
    and "\<forall>k. rd k (a + ucast (reg_rx_done L ! 0)) AND 1 = 0 \<and> \<not> late k"
  shows "switch_start rd late pd L w = None"
  using rx_done_loop_None [of pd a "after_start a L w" rd 0 "reg_rx_done L ! 0" late] assms
  by (simp add: switch_start_eq [OF assms(1,2)] generator_at_after_start)

section \<open>Properties\<close>

text \<open>
  C23. \<open>switch_start\<close> resets the generator, programs channel 0 for 16 packets and starts it, with
  exactly nine register writes in this order.  Then it polls the done bit: at the first look
  that finds the bit set it reports the packet count and every 64-bit accumulator, read as two
  32-bit halves, high half first; if time runs out first it reports nothing.  When neither
  ever happens, it never returns.
\<close>

theorem switch_start_runs_generator:
  assumes "generator_at pd a w" and "generator_ok L"
    and "\<And>i. fin i \<longleftrightarrow> rd i (a + ucast (reg_rx_done L ! 0)) AND 1 \<noteq> 0"
    and "w' = w\<lparr>mmio := mmio w @ map (\<lambda>(r, v). (a + ucast r, v)) (start_writes L)\<rparr>"
  shows "(\<forall>k. (fin k \<or> late k) \<and> (\<forall>j < k. \<not> fin j \<and> \<not> late j) \<longrightarrow>
      switch_start rd late pd L w = Some (Inr (if fin k
        then Some (sint (rd (k + 1) (a + ucast (reg_recvcount L ! 0))),
          map (\<lambda>j. addr_join (rd (k + 2 + 2 * j) (a + ucast (reg_accum_hi L ! 0 ! j)))
                    (rd (k + 2 + 2 * j + 1) (a + ucast (reg_accum_hi L ! 0 ! j + 4)))) [0..<length (reg_accum_hi L ! 0)])
        else None, w'))) \<and>
    ((\<forall>k. \<not> fin k \<and> \<not> late k) \<longrightarrow> switch_start rd late pd L w = None)"
proof (intro conjI allI impI)
  fix k assume k: "(fin k \<or> late k) \<and> (\<forall>j < k. \<not> fin j \<and> \<not> late j)"
  have "switch_start rd late pd L w =
      Some (Inr (if fin k then Some (generator_report rd a L k) else None, after_start a L w))"
    using switch_start_ends [OF assms(1,2), of rd k late] k by (simp add: assms(3))
  then show "switch_start rd late pd L w = Some (Inr (if fin k
      then Some (sint (rd (k + 1) (a + ucast (reg_recvcount L ! 0))),
        map (\<lambda>j. addr_join (rd (k + 2 + 2 * j) (a + ucast (reg_accum_hi L ! 0 ! j)))
                  (rd (k + 2 + 2 * j + 1) (a + ucast (reg_accum_hi L ! 0 ! j + 4)))) [0..<length (reg_accum_hi L ! 0)])
      else None, w'))"
    unfolding generator_report_def after_start_def assms(4) .
next
  assume "\<forall>k. \<not> fin k \<and> \<not> late k"
  then show "switch_start rd late pd L w = None"
    using switch_start_never [OF assms(1,2), of rd late] by (simp add: assms(3))
qed

end
