(* ===== verification/App_Ports_Correct.thy ===== *)
theory App_Ports_Correct
  imports App_Ports
begin

text \<open>
  What the port management of the test applications guarantees over the driver, given what
  DPDK documents of the functions it calls: the contract \<open>ethdev\<close>.
\<close>

section \<open>The contract of DPDK\<close>

text \<open>
  Stopping a started device calls the \<open>dev_stop\<close> operation of its driver and clears the started
  flag; a reset of a device whose driver has no \<open>dev_reset\<close> operation is refused with
  \<open>-ENOTSUP\<close>; freeing a pool that exists succeeds and does not touch the driver; removing a
  device that is there returns.
\<close>

locale ethdev =
  fixes E :: "'x dpdk"
  assumes stop_law: "0 \<le> p \<Longrightarrow> p < 65536 \<Longrightarrow> eth_devs (mem y) (port_dev E p) = Some ed \<Longrightarrow> port_dev E p \<noteq> 0 \<Longrightarrow>
      dev_ops ed = Some t \<Longrightarrow> op_dev_stop t = Some Op_xdma_dev_stop \<Longrightarrow> data ed = Some dat \<Longrightarrow> dev_started dat \<Longrightarrow>
      xdma_dev_stop (port_dev E p) (mem y) = Inr w \<Longrightarrow>
      set_eth_data (port_dev E p) (dat\<lparr>dev_started := False\<rparr>) w = Inr w' \<Longrightarrow>
      \<exists>y'. eth_dev_stop E (of_int p) y = Inr (0, y') \<and> mem y' = w'"
    and reset_law: "0 \<le> p \<Longrightarrow> p < 65536 \<Longrightarrow> eth_devs (mem y) (port_dev E p) = Some ed \<Longrightarrow> port_dev E p \<noteq> 0 \<Longrightarrow>
      dev_ops ed = Some t \<Longrightarrow> op_dev_reset t = None \<Longrightarrow> eth_dev_reset E (of_int p) y = Inr (- ENOTSUP, y)"
    and pool_law: "mempool_lookup E nm y = mp \<Longrightarrow> mp \<noteq> 0 \<Longrightarrow> \<exists>y'. mempool_free E mp y = Inr y' \<and> mem y' = mem y"
    and remove_law: "\<exists>r y'. dev_remove E (Some res) y = Inr (r, y')"

text \<open>A port that is up: its device with its queues \<open>tq\<close> and \<open>rq\<close>.\<close>

definition port_up :: "'x dpdk \<Rightarrow> int \<Rightarrow> rte_eth_dev \<Rightarrow> rte_eth_dev_data \<Rightarrow> u64 list \<Rightarrow> u64 list \<Rightarrow> u64 \<Rightarrow> 'x app \<Rightarrow> bool" where
  "port_up E port ed dat tq rq a s \<longleftrightarrow>
     0 \<le> port \<and> port < int (length (pinfo s)) \<and> port < 65536 \<and> port_dev E port \<noteq> 0 \<and>
     eth_devs (mem (sys s)) (port_dev E port) = Some ed \<and> device ed \<noteq> None \<and> data ed = Some dat \<and>
     dev_ops ed = Some xdma_eth_dev_ops \<and> dev_started dat \<and> queues_ok dat tq rq \<and>
     (\<forall>p \<in> set tq \<union> set rq. engine_live p a (mem (sys s))) \<and>
     (\<forall>p \<in> set tq. queue_owned H2C (mem (sys s)) p) \<and> (\<forall>p \<in> set rq. queue_owned C2H (mem (sys s)) p) \<and>
     distinct (all_blocks (mem (sys s)) (rq @ tq))"

text \<open>
  The same port after it was closed: its engines were stopped, and then the memory of its
  queues was released.
\<close>

definition port_down :: "'x dpdk \<Rightarrow> int \<Rightarrow> rte_eth_dev \<Rightarrow> u64 list \<Rightarrow> u64 list \<Rightarrow> u64 \<Rightarrow> world \<Rightarrow> world \<Rightarrow> bool" where
  "port_down E port ed tq rq a w w' \<longleftrightarrow>
     mmio w' = mmio w @ map (\<lambda>p. (ctrl_addr H2C_CHANNEL_CTRL a w p, stop_ctrl)) tq
                      @ map (\<lambda>p. (ctrl_addr C2H_CHANNEL_CTRL a w p, stop_ctrl)) rq \<and>
     blocks w' = blocks w |` (- set (all_blocks w (rq @ tq))) \<and>
     (\<exists>dat. eth_devs w' (port_dev E port) = Some (ed\<lparr>data := Some dat\<rparr>) \<and> \<not> dev_started dat \<and>
       nb_rx_queues dat = 0 \<and> nb_tx_queues dat = 0 \<and> rx_queues dat = None \<and> tx_queues dat = None)"

lemma uint_of_int_port: "0 \<le> p \<Longrightarrow> p < 65536 \<Longrightarrow> uint (of_int p :: u16) = p"
  by (simp add: uint_word_of_int take_bit_int_eq_self)

lemma get_device_eq:
  "port_dev E port \<noteq> 0 \<Longrightarrow> eth_devs (mem (sys s)) (port_dev E port) = Some ed \<Longrightarrow> get_device E port s = Inr (device ed)"
  by (simp add: get_device_def rte_pmd_xdma_get_device_def)

lemma upd_port_eq:
  "0 \<le> port \<Longrightarrow> port < int (length (pinfo s)) \<Longrightarrow>
   upd_port port f s = Inr (s\<lparr>pinfo := (pinfo s)[nat port := f (pinfo s ! nat port)]\<rparr>)"
  by (simp add: upd_port_def)

lemma lock_eq:
  "0 \<le> port \<Longrightarrow> port < int (length (pinfo s)) \<Longrightarrow> \<not> port_update_lock (pinfo s ! nat port) \<Longrightarrow>
   spinlock_lock port s = Inr (s\<lparr>pinfo := (pinfo s)[nat port := (pinfo s ! nat port)\<lparr>port_update_lock := True\<rparr>]\<rparr>)"
  by (simp add: spinlock_lock_def upd_port_eq)

lemma unlock_eq:
  "0 \<le> port \<Longrightarrow> port < int (length (pinfo s)) \<Longrightarrow>
   spinlock_unlock port s = Inr (s\<lparr>pinfo := (pinfo s)[nat port := (pinfo s ! nat port)\<lparr>port_update_lock := False\<rparr>]\<rparr>)"
  by (simp add: spinlock_unlock_def upd_port_eq)

lemma relock: "\<not> port_update_lock p \<Longrightarrow> p\<lparr>port_update_lock := False\<rparr> = p"
  by (cases p) simp

lemma port_up_pinfo: "length ps = length (pinfo s) \<Longrightarrow> port_up E port ed dat tq rq a (s\<lparr>pinfo := ps\<rparr>) = port_up E port ed dat tq rq a s"
  by (simp add: port_up_def)

lemma queue_eth_devs [simp]:
  "queue_blocks (w\<lparr>eth_devs := x\<rparr>) = queue_blocks w" "queue_owned c (w\<lparr>eth_devs := x\<rparr>) = queue_owned c w"
  by (simp_all add: fun_eq_iff queue_blocks_def queue_owned_def)

context ethdev begin

lemma port_close_eq:
  assumes "port_up E port ed dat tq rq a s"
  shows "\<exists>s'. port_close E port s = Inr s' \<and> port_down E port ed tq rq a (mem (sys s)) (mem (sys s')) \<and>
    pinfo s' = (pinfo s)[nat port := (pinfo s ! nat port)\<lparr>num_queues := 0\<rparr>]"
proof -
  note up = assms [unfolded port_up_def]
  from up obtain res where res: "device ed = Some res" by auto
  have np: "nat port < length (pinfo s)" using up by linarith
  let ?dev = "port_dev E port" and ?w = "mem (sys s)"
  have dat: "eth_data ?dev ?w = Inr dat" using up by (simp add: eth_data_def)
  obtain w1 where w1: "xdma_dev_stop ?dev ?w = Inr w1" "heap_kept ?w w1"
    "mmio w1 = mmio ?w @ map (\<lambda>p. (ctrl_addr H2C_CHANNEL_CTRL a ?w p, stop_ctrl)) tq
                       @ map (\<lambda>p. (ctrl_addr C2H_CHANNEL_CTRL a ?w p, stop_ctrl)) rq"
    using dev_stop_eq [OF dat, of tq rq a] up by blast
  let ?dat = "dat\<lparr>dev_started := False\<rparr>"
  let ?w2 = "w1\<lparr>eth_devs := (eth_devs w1)(?dev \<mapsto> ed\<lparr>data := Some ?dat\<rparr>)\<rparr>"
  have eth1: "eth_devs w1 = eth_devs ?w" using w1(2) by (simp add: heap_kept_def)
  have set2: "set_eth_data ?dev ?dat w1 = Inr ?w2" using up by (simp add: set_eth_data_def eth1)
  obtain y where y: "eth_dev_stop E (of_int port) (sys s) = Inr (0, y)" "mem y = ?w2"
    using stop_law [OF _ _ _ _ _ _ _ _ w1(1) set2, of ed xdma_eth_dev_ops] up by (auto simp: xdma_eth_dev_ops_def)
  have qb: "queue_blocks ?w2 = queue_blocks ?w" "queue_owned c ?w2 = queue_owned c ?w" "blocks ?w2 = blocks ?w" for c
    using w1(2) by (simp_all add: heap_kept_def)
  have all: "all_blocks ?w2 = all_blocks ?w" by (rule ext) (simp only: all_blocks_def qb(1))
  have "eth_data ?dev ?w2 = Inr ?dat" using up by (simp add: eth_data_def)
  moreover have "queues_ok ?dat tq rq" using up by (simp add: queues_ok_def)
  moreover have "port_dev E (uint (of_int port :: u16)) = ?dev" using up by (simp add: uint_of_int_port)
  ultimately obtain w3 dat3 where w3: "rte_pmd_xdma_dev_close (port_dev E) (of_int port) ?w2 = Inr w3"
    "blocks w3 = blocks ?w2 |` (- set (all_blocks ?w2 (rq @ tq)))" "mmio w3 = mmio ?w2"
    "eth_devs w3 = (eth_devs ?w2)(?dev \<mapsto> (the (eth_devs ?w2 ?dev))\<lparr>data := Some dat3\<rparr>)"
    "nb_rx_queues dat3 = 0" "nb_tx_queues dat3 = 0" "rx_queues dat3 = None" "tx_queues dat3 = None"
    "\<not> dev_started dat3"
    using pmd_close_eq [of ?dev ?w2 ?dat "port_dev E" "of_int port" tq rq] up unfolding all qb by blast
  have down: "port_down E port ed tq rq a ?w w3"
    unfolding port_down_def using w1(3) w3 by (intro conjI exI [of _ dat3]) (simp_all add: all qb)
  let ?s = "s\<lparr>sys := y\<lparr>mem := w3\<rparr>, pinfo := (pinfo s)[nat port := (pinfo s ! nat port)\<lparr>num_queues := 0\<rparr>]\<rparr>"
  let ?mp = "mempool_lookup E (mem_pool (pinfo s ! nat port)) (sys ?s)"
  have close: "port_close E port s = (if ?mp \<noteq> 0 then andThen (mempool_free E ?mp (sys ?s)) (\<lambda>y. Inr (?s\<lparr>sys := y\<rparr>)) else Inr ?s)"
    using up res y w3(1)
    by (simp add: port_close_def get_device_eq [of E port s ed] dpdk_call_def driver_call_def upd_port_eq np Let_def)
  show ?thesis
  proof (cases "?mp = 0")
    case True
    with close down show ?thesis by (intro exI [of _ ?s]) simp
  next
    case False
    obtain z where "mempool_free E ?mp (sys ?s) = Inr z" "mem z = w3"
      using pool_law [of "mem_pool (pinfo s ! nat port)" "sys ?s" ?mp] False by auto
    with close down False show ?thesis by (intro exI [of _ "?s\<lparr>sys := z\<rparr>"]) simp
  qed
qed

lemma port_reset_eq:
  assumes "port_up E port ed dat tq rq a s" and "\<not> port_update_lock (pinfo s ! nat port)"
  shows "\<exists>s'. port_reset init E port nq stq nd bsize s = Inr (- 1, s') \<and>
    port_down E port ed tq rq a (mem (sys s)) (mem (sys s')) \<and>
    pinfo s' = (pinfo s)[nat port := (pinfo s ! nat port)\<lparr>num_queues := 0\<rparr>]"
proof -
  note up = assms(1) [unfolded port_up_def]
  from up obtain res where res: "device ed = Some res" by auto
  have np: "nat port < length (pinfo s)" using up by linarith
  let ?s1 = "s\<lparr>pinfo := (pinfo s)[nat port := (pinfo s ! nat port)\<lparr>port_update_lock := True\<rparr>]\<rparr>"
  have "port_up E port ed dat tq rq a ?s1" using assms(1) by (simp add: port_up_pinfo)
  then obtain s2 where s2: "port_close E port ?s1 = Inr s2" "port_down E port ed tq rq a (mem (sys s)) (mem (sys s2))"
    "pinfo s2 = (pinfo s)[nat port := (pinfo s ! nat port)\<lparr>port_update_lock := True, num_queues := 0\<rparr>]"
    using port_close_eq [of port ed dat tq rq a ?s1] up by auto
  then obtain dat2 where "eth_devs (mem (sys s2)) (port_dev E port) = Some (ed\<lparr>data := Some dat2\<rparr>)"
    by (auto simp: port_down_def)
  then have reset: "eth_dev_reset E (of_int port) (sys s2) = Inr (- ENOTSUP, sys s2)"
    using reset_law [of port "sys s2" _ xdma_eth_dev_ops] up by (simp add: xdma_eth_dev_ops_def)
  have neg: "- ENOTSUP < 0" by (simp add: ENOTSUP_def)
  have "port_reset init E port nq stq nd bsize s = andThen (spinlock_unlock port s2) (\<lambda>s. Inr (- 1, s))"
    using up res assms(2) s2(1) reset neg
    by (simp add: port_reset_def get_device_eq [of E port s ed] lock_eq dpdk_call_def)
  with s2 up assms(2) show ?thesis
    by (intro exI [of _ "s2\<lparr>pinfo := (pinfo s)[nat port := (pinfo s ! nat port)\<lparr>num_queues := 0\<rparr>]\<rparr>"])
       (simp add: unlock_eq np relock)
qed

lemma port_remove_eq:
  assumes "port_up E port ed dat tq rq a s" and "\<not> port_update_lock (pinfo s ! nat port)"
  shows "\<exists>(s2 :: 'x app) r y. port_remove E port s = Inr (r, s\<lparr>sys := y, pinfo := (pinfo s)[nat port := (pinfo s ! nat port)\<lparr>num_queues := 0\<rparr>]\<rparr>) \<and>
    port_down E port ed tq rq a (mem (sys s)) (mem (sys s2)) \<and> dev_remove E (device ed) (sys s2) = Inr (r, y)"
proof -
  note up = assms(1) [unfolded port_up_def]
  from up obtain res where res: "device ed = Some res" by auto
  have np: "nat port < length (pinfo s)" using up by linarith
  let ?s1 = "s\<lparr>pinfo := (pinfo s)[nat port := (pinfo s ! nat port)\<lparr>port_update_lock := True\<rparr>]\<rparr>"
  have "port_up E port ed dat tq rq a ?s1" using assms(1) by (simp add: port_up_pinfo)
  then obtain s2 where s2: "port_close E port ?s1 = Inr s2" "port_down E port ed tq rq a (mem (sys s)) (mem (sys s2))"
    "pinfo s2 = (pinfo s)[nat port := (pinfo s ! nat port)\<lparr>port_update_lock := True, num_queues := 0\<rparr>]"
    using port_close_eq [of port ed dat tq rq a ?s1] up by auto
  then obtain dat2 where dev: "eth_devs (mem (sys s2)) (port_dev E port) = Some (ed\<lparr>data := Some dat2\<rparr>)"
    by (auto simp: port_down_def)
  obtain r y where ry: "dev_remove E (device ed) (sys s2) = Inr (r, y)"
    using remove_law [of res "sys s2"] res by auto
  have "port_remove E port s = andThen (spinlock_unlock port (s2\<lparr>sys := y\<rparr>)) (\<lambda>s. Inr (r, s))"
    using up res assms(2) s2(1) dev ry
    by (simp add: port_remove_def port_detach_def rte_pmd_xdma_dev_remove_def get_device_eq [of E port s ed] lock_eq)
  moreover have "s2\<lparr>sys := y, pinfo := ps\<rparr> = s\<lparr>sys := y, pinfo := ps\<rparr>" for ps by (cases s2; cases s) simp
  ultimately have "port_remove E port s = Inr (r, s\<lparr>sys := y, pinfo := (pinfo s)[nat port := (pinfo s ! nat port)\<lparr>num_queues := 0\<rparr>]\<rparr>)"
    using s2(3) up assms(2) by (simp add: unlock_eq np relock)
  with s2(2) ry show ?thesis by (intro exI [of _ s2] exI [of _ r] exI [of _ y] conjI)
qed

end

section \<open>An instance\<close>

text \<open>
  A layer that calls the driver through its table of operations: DPDK as far as the contract
  goes, over the driver's own operations.  Its pools are a list of names and addresses.
\<close>

definition layer_stop :: "(int \<Rightarrow> u64) \<Rightarrow> u16 \<Rightarrow> 'x sys \<Rightarrow> fault + int \<times> 'x sys" where
  "layer_stop pd p y = (let d = pd (uint p) in
     andThen (deref (eth_devs (mem y)) d) (\<lambda>ed.
     case (dev_ops ed, data ed) of
       (Some t, Some dat) \<Rightarrow>
         if \<not> dev_started dat then Inr (0, y)
         else if op_dev_stop t = Some Op_xdma_dev_stop
         then andThen (xdma_dev_stop d (mem y)) (\<lambda>w.
              andThen (set_eth_data d (dat\<lparr>dev_started := False\<rparr>) w) (\<lambda>w. Inr (0, y\<lparr>mem := w\<rparr>)))
         else Inr (- ENOTSUP, y)
     | _ \<Rightarrow> Inl NullDeref))"

definition layer_reset :: "(int \<Rightarrow> u64) \<Rightarrow> u16 \<Rightarrow> 'x sys \<Rightarrow> fault + int \<times> 'x sys" where
  "layer_reset pd p y =
     andThen (deref (eth_devs (mem y)) (pd (uint p))) (\<lambda>ed.
     case dev_ops ed of
       None \<Rightarrow> Inl NullDeref
     | Some t \<Rightarrow> if op_dev_reset t = None then Inr (- ENOTSUP, y) else Inr (0, y))"

definition layer_start :: "(int \<Rightarrow> u64) \<Rightarrow> u16 \<Rightarrow> 'x sys \<Rightarrow> fault + int \<times> 'x sys" where
  "layer_start pd p y = (let d = pd (uint p) in
     andThen (xdma_dev_start d (mem y)) (\<lambda>w.
     andThen (eth_data d w) (\<lambda>dat.
     andThen (set_eth_data d (dat\<lparr>dev_started := True\<rparr>) w) (\<lambda>w. Inr (0, y\<lparr>mem := w\<rparr>)))))"

definition layer_remove :: "mem_resource list option \<Rightarrow> 'x sys \<Rightarrow> fault + int \<times> 'x sys" where
  "layer_remove d y = Inr (0, y\<lparr>mem := (mem y)\<lparr>eth_devs :=
     (\<lambda>q. map_option (\<lambda>ed. if device ed = d then ed\<lparr>device := None\<rparr> else ed) (eth_devs (mem y) q))\<rparr>\<rparr>)"

definition pool_find :: "string \<Rightarrow> (string \<times> u64) list sys \<Rightarrow> u64" where
  "pool_find nm y = (case map_of (rest y) nm of None \<Rightarrow> 0 | Some mp \<Rightarrow> mp)"

definition driver_layer :: "(int \<Rightarrow> u64) \<Rightarrow> nat \<Rightarrow> u64 \<Rightarrow> (string \<times> u64) list dpdk" where
  "driver_layer pd n pool = \<lparr>port_dev = pd, max_ethports = n, sizeof_eth_dev = 64,
     eal_init = (\<lambda>y. (0, y)), dev_count_avail = (\<lambda>_. of_nat n), is_valid_port = (\<lambda>p _. unat p < n),
     callback_register = (\<lambda>_ y. (0, y)), callback_unregister = (\<lambda>_ y. (0, y)),
     eth_dev_configure = (\<lambda>p _ _ _ y. andThen (xdma_dev_configure (pd (uint p)) (mem y)) (\<lambda>w. Inr (0, y\<lparr>mem := w\<rparr>))),
     eth_tx_queue_setup = (\<lambda>_ _ _ _ _ y. Inr (0, y)), eth_rx_queue_setup = (\<lambda>_ _ _ _ _ _ y. Inr (0, y)),
     eth_dev_start = layer_start pd, eth_dev_stop = layer_stop pd, eth_dev_reset = layer_reset pd,
     promiscuous_enable = (\<lambda>_ y. Inr (- ENOTSUP, y)), dev_socket_id = (\<lambda>_. 0), dev_remove = layer_remove,
     mempool_lookup = pool_find, mempool_free = (\<lambda>mp y. Inr (y\<lparr>rest := filter (\<lambda>z. snd z \<noteq> mp) (rest y)\<rparr>)),
     pktmbuf_pool_create = (\<lambda>nm _ _ _ _ y. (pool, y\<lparr>rest := (nm, pool) # rest y\<rparr>)),
     pktmbuf_alloc = (\<lambda>_ y. (0, y))\<rparr>"

interpretation layer: ethdev "driver_layer pd n pool" for pd n pool
proof unfold_locales
  fix p :: int and y :: "(string \<times> u64) list sys" and ed t dat w w'
  assume "0 \<le> p" "p < 65536" "eth_devs (mem y) (port_dev (driver_layer pd n pool) p) = Some ed"
    "port_dev (driver_layer pd n pool) p \<noteq> 0" "dev_ops ed = Some t" "op_dev_stop t = Some Op_xdma_dev_stop"
    "data ed = Some dat" "dev_started dat" "xdma_dev_stop (port_dev (driver_layer pd n pool) p) (mem y) = Inr w"
    "set_eth_data (port_dev (driver_layer pd n pool) p) (dat\<lparr>dev_started := False\<rparr>) w = Inr w'"
  then show "\<exists>y'. eth_dev_stop (driver_layer pd n pool) (of_int p) y = Inr (0, y') \<and> mem y' = w'"
    by (simp add: driver_layer_def layer_stop_def uint_of_int_port Let_def)
next
  fix p :: int and y :: "(string \<times> u64) list sys" and ed t
  assume "0 \<le> p" "p < 65536" "eth_devs (mem y) (port_dev (driver_layer pd n pool) p) = Some ed"
    "port_dev (driver_layer pd n pool) p \<noteq> 0" "dev_ops ed = Some t" "op_dev_reset t = None"
  then show "eth_dev_reset (driver_layer pd n pool) (of_int p) y = Inr (- ENOTSUP, y)"
    by (simp add: driver_layer_def layer_reset_def uint_of_int_port)
next
  fix nm mp and y :: "(string \<times> u64) list sys"
  show "\<exists>y'. mempool_free (driver_layer pd n pool) mp y = Inr y' \<and> mem y' = mem y"
    by (simp add: driver_layer_def)
next
  fix res and y :: "(string \<times> u64) list sys"
  show "\<exists>r y'. dev_remove (driver_layer pd n pool) (Some res) y = Inr (r, y')"
    by (simp add: driver_layer_def layer_remove_def)
qed

section \<open>Bringing a port up\<close>

text \<open>
  What the driver's part of \<open>port_init\<close> needs: the device with its private data, its
  configuration BAR mapped, and a slot for the port in the fast-path table.
\<close>

definition port_ready :: "'x dpdk \<Rightarrow> int \<Rightarrow> 'x sys \<Rightarrow> bool" where
  "port_ready E port y \<longleftrightarrow> port_dev E port \<noteq> 0 \<and> 0 \<le> port \<and> port < uint (dev_count_avail E y) \<and>
     port < int (length (fp_ops y)) \<and>
     (\<exists>ed dat d a. eth_devs (mem y) (port_dev E port) = Some ed \<and> device ed \<noteq> None \<and> data ed = Some dat \<and>
        dev_private dat \<noteq> 0 \<and> xdevs (mem y) (dev_private dat) = Some d \<and>
        bar_mapped config_bar_idx (dev_private dat) a (mem y))"

text \<open>A call that succeeds on a ready port and leaves it ready; the calls \<open>port_init\<close> makes.\<close>

definition succeeds :: "'x dpdk \<Rightarrow> int \<Rightarrow> ('x sys \<Rightarrow> fault + int \<times> 'x sys) \<Rightarrow> bool" where
  "succeeds E port f \<longleftrightarrow> (\<forall>y. port_ready E port y \<longrightarrow> (\<exists>r y'. f y = Inr (r, y') \<and> 0 \<le> r \<and> port_ready E port y'))"

definition setup_succeeds :: "'x dpdk \<Rightarrow> int \<Rightarrow> int \<Rightarrow> int \<Rightarrow> bool" where
  "setup_succeeds E port nq nd \<longleftrightarrow>
     (\<forall>b y. port_ready E port y \<longrightarrow>
        fst (pktmbuf_pool_create E (pool_name port) (pool_size nq nd) MP_CACHE_SZ 0 b y) \<noteq> 0 \<and>
        port_ready E port (snd (pktmbuf_pool_create E (pool_name port) (pool_size nq nd) MP_CACHE_SZ 0 b y))) \<and>
     succeeds E port (eth_dev_configure E (of_int port) (of_int nq) (of_int nq) Conf_zero) \<and>
     (\<forall>x < nat nq. succeeds E port (eth_tx_queue_setup E (of_int port) (of_nat x) (of_int nd) 0 Conf_zero)) \<and>
     (\<forall>x < nat nq. \<forall>mp. succeeds E port (eth_rx_queue_setup E (of_int port) (of_nat x) (of_int nd) 0 Conf_zero mp)) \<and>
     succeeds E port (eth_dev_start E (of_int port))"

lemma call_or_exit_ready:
  assumes "succeeds E port f" and "port_ready E port (sys s)"
  shows "\<exists>y. call_or_exit f s = Inr (s\<lparr>sys := y\<rparr>) \<and> port_ready E port y"
proof -
  from assms obtain r y where "f (sys s) = Inr (r, y)" "0 \<le> r" "port_ready E port y"
    unfolding succeeds_def by blast
  then show ?thesis by (auto simp: call_or_exit_def dpdk_call_def)
qed

lemma queue_pair_ready:
  assumes "setup_succeeds E port nq nd" and "x < nat nq" and "port_ready E port (sys s)"
  shows "\<exists>y. queue_pair_setup E port nd mp x s = Inr (s\<lparr>sys := y\<rparr>) \<and> port_ready E port y"
proof -
  have tx: "succeeds E port (eth_tx_queue_setup E (of_int port) (of_nat x) (of_int nd) 0 Conf_zero)"
    and rx: "succeeds E port (eth_rx_queue_setup E (of_int port) (of_nat x) (of_int nd) 0 Conf_zero mp)"
    using assms(1,2) by (simp_all add: setup_succeeds_def)
  from call_or_exit_ready [OF tx assms(3)] obtain y where
    y: "call_or_exit (eth_tx_queue_setup E (of_int port) (of_nat x) (of_int nd) 0 Conf_zero) s = Inr (s\<lparr>sys := y\<rparr>)"
    "port_ready E port y" by blast
  from call_or_exit_ready [OF rx, of "s\<lparr>sys := y\<rparr>"] y(2) obtain z where
    "call_or_exit (eth_rx_queue_setup E (of_int port) (of_nat x) (of_int nd) 0 Conf_zero mp) (s\<lparr>sys := y\<rparr>)
      = Inr (s\<lparr>sys := z\<rparr>)" "port_ready E port z" by fastforce
  with y(1) show ?thesis by (auto simp: queue_pair_setup_def)
qed

lemma queue_pairs_ready:
  assumes "setup_succeeds E port nq nd"
  shows "i + n \<le> nat nq \<Longrightarrow> port_ready E port (sys s) \<Longrightarrow>
    \<exists>y. for_loop i n (queue_pair_setup E port nd mp) s = Inr (s\<lparr>sys := y\<rparr>) \<and> port_ready E port y"
proof (induction n arbitrary: i s)
  case 0
  then show ?case by (intro exI [of _ "sys s"]) simp
next
  case (Suc n)
  from Suc.prems have "i < nat nq" by simp
  from queue_pair_ready [OF assms this Suc.prems(2)] obtain y where
    y: "queue_pair_setup E port nd mp i s = Inr (s\<lparr>sys := y\<rparr>)" "port_ready E port y" by blast
  with Suc.IH [of "Suc i" "s\<lparr>sys := y\<rparr>"] Suc.prems(1) show ?case by auto
qed

lemma set_bar_details_ready:
  assumes "port_ready E port (sys s)" and "nat port < length (pinfo s)"
  shows "\<exists>c u b. set_bar_details E port s = Inr (s\<lparr>pinfo := (pinfo s)[nat port := (pinfo s ! nat port)
    \<lparr>pi_config_bar_idx := c, pi_user_bar_idx := u, pi_bypass_bar_idx := b\<rparr>]\<rparr>)"
proof -
  from assms obtain d :: xdma_dev where "set_bar_details E port s = Inr (s\<lparr>pinfo := (pinfo s)[nat port := (pinfo s ! nat port)
    \<lparr>pi_config_bar_idx := config_bar_idx d, pi_user_bar_idx := user_bar_idx d, pi_bypass_bar_idx := bypass_bar_idx d\<rparr>]\<rparr>)"
    by (auto simp: port_ready_def set_bar_details_def rte_pmd_xdma_get_bar_details_def eth_data_def upd_port_eq nat_less_iff)
  then show ?thesis by blast
qed

lemma fp_ops_config_ready:
  assumes "port_ready E port (sys s)"
  shows "\<exists>f ed. fp_ops_config E port s = Inr (s\<lparr>sys := (sys s)\<lparr>fp_ops := f\<rparr>\<rparr>) \<and> length f = length (fp_ops (sys s)) \<and>
    eth_devs (mem (sys s)) (port_dev E port) = Some ed \<and>
    fp_rx_pkt_burst (f ! nat port) = rx_pkt_burst ed \<and> fp_tx_pkt_burst (f ! nat port) = tx_pkt_burst ed"
  using assms
  by (auto simp: port_ready_def fp_ops_config_def rte_pmd_xdma_dev_fp_ops_config_def eth_data_def nat_less_iff)

text \<open>The part of \<open>port_init\<close> after the BARs: configuration, queues, start, fast-path table.\<close>

lemma port_setup_ready:
  assumes "setup_succeeds E port nq nd" and "port_ready E port (sys s)" and "port < int (length (pinfo s))"
  shows "\<exists>y f ed. andThen (call_or_exit (eth_dev_configure E (of_int port) (of_int nq) (of_int nq) Conf_zero) s) (\<lambda>s.
     andThen (upd_port port (\<lambda>p. p\<lparr>num_queues := of_int nq, st_queues := of_int stq,
                buff_size := of_int bsize, nb_descs := of_int nd\<rparr>) s) (\<lambda>s.
     andThen (for_loop 0 (nat nq) (queue_pair_setup E port nd mp) s) (\<lambda>s.
     andThen (call_or_exit (eth_dev_start E (of_int port)) s) (\<lambda>s.
     andThen (fp_ops_config E port s) (\<lambda>s. Inr (0 :: int, s))))))
    = Inr (0, s\<lparr>sys := y\<lparr>fp_ops := f\<rparr>, pinfo := (pinfo s)[nat port := (pinfo s ! nat port)
        \<lparr>num_queues := of_int nq, st_queues := of_int stq, buff_size := of_int bsize, nb_descs := of_int nd\<rparr>]\<rparr>) \<and>
    eth_devs (mem y) (port_dev E port) = Some ed \<and>
    fp_rx_pkt_burst (f ! nat port) = rx_pkt_burst ed \<and> fp_tx_pkt_burst (f ! nat port) = tx_pkt_burst ed"
proof -
  have pos: "0 \<le> port" using assms(2) by (simp add: port_ready_def)
  have cfg: "succeeds E port (eth_dev_configure E (of_int port) (of_int nq) (of_int nq) Conf_zero)"
    and start: "succeeds E port (eth_dev_start E (of_int port))"
    using assms(1) by (simp_all add: setup_succeeds_def)
  obtain y1 where s1: "call_or_exit (eth_dev_configure E (of_int port) (of_int nq) (of_int nq) Conf_zero) s
      = Inr (s\<lparr>sys := y1\<rparr>)" "port_ready E port y1"
    using call_or_exit_ready [OF cfg assms(2)] by blast
  define s2 where "s2 = s\<lparr>sys := y1, pinfo := (pinfo s)[nat port := (pinfo s ! nat port)
      \<lparr>num_queues := of_int nq, st_queues := of_int stq, buff_size := of_int bsize, nb_descs := of_int nd\<rparr>]\<rparr>"
  have s2: "upd_port port (\<lambda>p. p\<lparr>num_queues := of_int nq, st_queues := of_int stq, buff_size := of_int bsize,
      nb_descs := of_int nd\<rparr>) (s\<lparr>sys := y1\<rparr>) = Inr s2"
    using pos assms(3) by (simp add: upd_port_eq s2_def)
  obtain y3 where s3: "for_loop 0 (nat nq) (queue_pair_setup E port nd mp) s2 = Inr (s2\<lparr>sys := y3\<rparr>)" "port_ready E port y3"
    using queue_pairs_ready [OF assms(1), of 0 "nat nq" s2 mp] s1(2) by (auto simp: s2_def)
  obtain y4 where s4: "call_or_exit (eth_dev_start E (of_int port)) (s2\<lparr>sys := y3\<rparr>) = Inr (s2\<lparr>sys := y4\<rparr>)" "port_ready E port y4"
    using call_or_exit_ready [OF start, of "s2\<lparr>sys := y3\<rparr>"] s3(2) by auto
  obtain f ed where s5: "fp_ops_config E port (s2\<lparr>sys := y4\<rparr>) = Inr (s2\<lparr>sys := y4\<lparr>fp_ops := f\<rparr>\<rparr>)"
    "eth_devs (mem y4) (port_dev E port) = Some ed" "fp_rx_pkt_burst (f ! nat port) = rx_pkt_burst ed"
    "fp_tx_pkt_burst (f ! nat port) = tx_pkt_burst ed"
    using fp_ops_config_ready [of E port "s2\<lparr>sys := y4\<rparr>"] s4(2) by auto
  have "s2\<lparr>sys := y4\<lparr>fp_ops := f\<rparr>\<rparr> = s\<lparr>sys := y4\<lparr>fp_ops := f\<rparr>, pinfo := pinfo s2\<rparr>" by (simp add: s2_def)
  with s1(1) s2 s3(1) s4(1) s5 show ?thesis
    by (intro exI [of _ y4] exI [of _ f] exI [of _ ed]) (simp add: s2_def)
qed

section \<open>Properties\<close>

text \<open>
  C12. Closing a running port the way the applications do stops every engine before the memory
  of the queues goes: one control register write per queue, transmit queues first, then the
  blocks of all queues are released and the queue arrays cleared, and the port is marked as
  having no queues.  (Closing it through the driver alone leaves the engines running.)
\<close>

theorem port_close_stops_first:
  assumes "ethdev E" and "port_up E port ed dat tq rq a s"
  shows "\<exists>s' dat'. port_close E port s = Inr s' \<and>
    mmio (mem (sys s')) = mmio (mem (sys s)) @ map (\<lambda>p. (ctrl_addr H2C_CHANNEL_CTRL a (mem (sys s)) p, stop_ctrl)) tq
                                             @ map (\<lambda>p. (ctrl_addr C2H_CHANNEL_CTRL a (mem (sys s)) p, stop_ctrl)) rq \<and>
    blocks (mem (sys s')) = blocks (mem (sys s)) |` (- set (all_blocks (mem (sys s)) (rq @ tq))) \<and>
    eth_devs (mem (sys s')) (port_dev E port) = Some (ed\<lparr>data := Some dat'\<rparr>) \<and> \<not> dev_started dat' \<and>
    nb_rx_queues dat' = 0 \<and> nb_tx_queues dat' = 0 \<and> rx_queues dat' = None \<and> tx_queues dat' = None \<and>
    pinfo s' = (pinfo s)[nat port := (pinfo s ! nat port)\<lparr>num_queues := 0\<rparr>]"
  using ethdev.port_close_eq [OF assms] unfolding port_down_def by blast

text \<open>
  C27. A reset never brings the port back: since the driver's table has no \<open>dev_reset\<close>, DPDK
  refuses the reset, and the call returns -1 with the port closed, its queues released, its
  lock free and no attempt to initialise it; the init function is never called.
\<close>

theorem port_reset_gives_up:
  assumes "ethdev E" and "port_up E port ed dat tq rq a s" and "\<not> port_update_lock (pinfo s ! nat port)"
  shows "\<exists>s'. port_reset init E port nq stq nd bsize s = Inr (- 1, s') \<and>
    blocks (mem (sys s')) = blocks (mem (sys s)) |` (- set (all_blocks (mem (sys s)) (rq @ tq))) \<and>
    (\<exists>dat'. eth_devs (mem (sys s')) (port_dev E port) = Some (ed\<lparr>data := Some dat'\<rparr>) \<and>
      nb_rx_queues dat' = 0 \<and> nb_tx_queues dat' = 0) \<and>
    pinfo s' = (pinfo s)[nat port := (pinfo s ! nat port)\<lparr>num_queues := 0\<rparr>]"
  using ethdev.port_reset_eq [OF assms, of init nq stq nd bsize] unfolding port_down_def by blast


end
