(* ===== verification/Witnesses_App.thy ===== *)
theory Witnesses_App
  imports Witnesses_Device Typing App_Count App_Inter App_Ports_Correct
begin

text \<open>
  The properties of the driver's memory, of the port management, of the forwarders, of the
  handshake and of the traffic generator, applied to the devices of \<open>Examples\<close>.
\<close>

section \<open>Memory\<close>

definition ex_kv :: kvargs where
  "ex_kv = \<lparr>kv_parse = (\<lambda>_. None), kv_count = (\<lambda>_ _. 0), kv_process = (\<lambda>_ _ h d. h ''1'' d)\<rparr>"

lemma ex_kv_keeps: "kv_keeps ex_kv"
  by (simp add: kv_keeps_def ex_kv_def)

lemma ex_typed: "well_typed (ex_world (ex_engine d))"
  using ex_ring_props(1)
  by (simp add: well_typed_def ex_world_def empty_world_def ex_dev_def dev_shape_def engine_shape_def)
     (simp add: ex_engine_def)


theorem xmit_prepare_is_reference_witness:
  "\<exists>c. xmit_prepare 0x300 ex_pkts 2 (ex_world (ex_engine H2C))
     = Inr (c, prepared 0x300 (ex_engine H2C) ex_ring (taken (ex_world (ex_engine H2C)) (ex_engine H2C) ex_pkts 2)
         (ex_world (ex_engine H2C)))"
  using xmit_prepare_is_reference [OF ex_tx_request] by blast

section \<open>Ports\<close>

text \<open>One port, on the device of \<open>Examples\<close>, bound to the driver and started.\<close>

definition ex_started :: rte_eth_dev_data where "ex_started = ex_data\<lparr>dev_started := True\<rparr>"

definition ex_bound :: rte_eth_dev where
  "ex_bound = ex_eth\<lparr>data := Some ex_started, dev_ops := Some xdma_eth_dev_ops, tx_pkt_burst := Some Fn_xdma_xmit_pkts,
     rx_pkt_burst := Some Fn_xdma_recv_pkts\<rparr>"

definition ex_mem :: world where
  "ex_mem = (ex_world (ex_engine H2C))\<lparr>eth_devs := [0x400 \<mapsto> ex_bound]\<rparr>"

definition ex_info :: port_info where
  "ex_info = \<lparr>pi_config_bar_idx = 1, pi_user_bar_idx = 0, pi_bypass_bar_idx = - 1, num_queues = 1, nb_descs = 32,
     st_queues = 1, buff_size = 1024, port_update_lock = False, mem_pool = ''mbuf_pool_0''\<rparr>"

definition ex_fp :: eth_fp_ops where
  "ex_fp = \<lparr>fp_rx_pkt_burst = None, fp_tx_pkt_burst = None, fp_rx_queue_count = 0, fp_rx_descriptor_status = 0,
     fp_tx_descriptor_status = 0, fp_rxq_data = None, fp_txq_data = None\<rparr>"

definition ex_app :: "(string \<times> u64) list app" where
  "ex_app = \<lparr>sys = \<lparr>mem = ex_mem, fp_ops = [ex_fp], rest = [(''mbuf_pool_0'', 0x9000)]\<rparr>, pinfo = [ex_info]\<rparr>"

abbreviation ex_layer :: "(string \<times> u64) list dpdk" where
  "ex_layer \<equiv> driver_layer (\<lambda>_. 0x400) 1 0x9000"

lemma ex_mem_same:
  "engine_live q a ex_mem = engine_live q a (ex_world (ex_engine H2C))"
  "queue_owned c ex_mem = queue_owned c (ex_world (ex_engine H2C))"
  "all_blocks ex_mem = all_blocks (ex_world (ex_engine H2C))"
  by (simp_all add: fun_eq_iff ex_mem_def engine_live_def engine_at_def queue_owned_def queue_blocks_def
      all_blocks_def bar_mapped_def bar_base_def hw_access_of_def)

lemma ex_port_up: "port_up ex_layer 0 ex_bound ex_started [0x300] [] 0xA0000000 ex_app"
proof -
  have "engine_live 0x300 0xA0000000 ex_mem"
    unfolding ex_mem_same unfolding engine_live_def using ex_idle_engine [of H2C] by blast
  moreover have "queues_ok ex_started [0x300] []" by (simp add: queues_ok_def ex_started_def ex_data_def)
  ultimately show ?thesis
    using ex_owned ex_blocks
    by (simp add: port_up_def ex_app_def driver_layer_def ex_mem_same)
       (simp add: ex_mem_def ex_bound_def ex_eth_def ex_started_def)
qed

theorem port_close_stops_first_witness:
  "\<exists>s'. port_close ex_layer 0 ex_app = Inr s' \<and> length (mmio (mem (sys s'))) = 1 \<and> blocks (mem (sys s')) 0x300 = None"
proof -
  have "0x300 \<in> set (all_blocks (mem (sys ex_app)) ([] @ [0x300]))"
    by (simp add: all_blocks_def queue_blocks_def ex_app_def ex_mem_def ex_world_def)
  moreover have "mmio (mem (sys ex_app)) = []" by (simp add: ex_app_def ex_mem_def ex_world_def empty_world_def)
  ultimately show ?thesis
    using port_close_stops_first [OF layer.ethdev_axioms ex_port_up] by fastforce
qed

theorem port_reset_gives_up_witness:
  "\<exists>s'. port_reset port_init ex_layer 0 1 1 32 1024 ex_app = Inr (- 1, s') \<and> num_queues (pinfo s' ! 0) = 0"
proof -
  have "\<not> port_update_lock (pinfo ex_app ! nat 0)" by (simp add: ex_app_def ex_info_def)
  then show ?thesis
    using port_reset_gives_up [OF layer.ethdev_axioms ex_port_up, of port_init 1 1 32 1024] by (auto simp: ex_app_def)
qed

lemma ex_port_ready: "port_ready ex_layer 0 (sys ex_app)"
proof -
  have "bar_mapped config_bar_idx 0x100 0xA0000000 ex_mem"
    by (simp add: bar_mapped_def bar_base_def ex_mem_def ex_world_def ex_dev_def)
  moreover have "eth_devs ex_mem 0x400 = Some ex_bound" "data ex_bound = Some ex_started"
    "device ex_bound = Some ex_res" "dev_private ex_started = 0x100" "xdevs ex_mem 0x100 = Some ex_dev"
    by (simp_all add: ex_mem_def ex_bound_def ex_eth_def ex_started_def ex_data_def ex_world_def)
  ultimately show ?thesis
    unfolding port_ready_def by (simp add: driver_layer_def ex_app_def) blast
qed

lemma ex_setup_succeeds: "setup_succeeds ex_layer 0 1 32"
proof -
  have "succeeds ex_layer 0 (eth_dev_configure ex_layer (of_int 0) (of_int 1) (of_int 1) Conf_zero)"
    unfolding succeeds_def port_ready_def
    by (auto simp: driver_layer_def xdma_dev_configure_def eth_data_def bar_mapped_def bar_base_def)
  moreover have "succeeds ex_layer 0 (eth_dev_start ex_layer (of_int 0))"
    unfolding succeeds_def port_ready_def
    by (auto simp: driver_layer_def layer_start_def Let_def xdma_dev_start_def eth_data_def set_eth_data_def
        user_interrupts_enable_def channel_interrupts_enable_def bar_mapped_def bar_base_def)
  ultimately show ?thesis
    by (auto simp: setup_succeeds_def) (auto simp: succeeds_def driver_layer_def port_ready_def)
qed


section \<open>Forwarding\<close>

definition ex_args :: thread_args where
  "ex_args = \<lparr>src_port_id = 0, src_queue_id = 0, dst_port_id = 1, dst_queue_id = 0, arg_pkts = replicate 32 0x5000\<rparr>"

lemma ex_tx_idle: "tx_idle 0x300 0xA0000000 (\<lambda>a. a) (ex_world (ex_engine H2C))"
  unfolding tx_idle_def using ex_idle_engine [of H2C] ex_ring_props(2,4,5)
  by (intro exI [of _ "ex_engine H2C"] exI [of _ ex_ring]) simp



text \<open>Three packets a burst: the eleventh round reads past the end of the array.\<close>

theorem count_forward_steady_witness:
  "count_fpga_to_fpga (steady_io 3 (\<lambda>_. replicate 3 0x5000) [0x5000 \<mapsto> ex_mbuf 0x6000] (\<lambda>_. 0)) ex_args (\<lambda>_. False) []
     = Some (Inl OutOfBounds)"
proof -
  have "\<not> (3 :: nat) dvd 32" by presburger
  moreover have "passes [0x5000 \<mapsto> ex_mbuf 0x6000] (\<lambda>_. 0) 0x5000" by (simp add: passes_def)
  ultimately show ?thesis
    using count_forward_steady [of 3 ex_args "[0x5000 \<mapsto> ex_mbuf 0x6000]" "\<lambda>_. 0" "\<lambda>_. replicate 3 0x5000" 0 "\<lambda>_. False"]
    by (simp add: ex_args_def)
qed

section \<open>The console\<close>


section \<open>The handshake\<close>

theorem handshake_safe_witness: "\<exists>s. sync_reach s \<and> spc s = S_Run \<and> ready_count s = 2"
proof -
  obtain s where "sync_run (length (both_forwarders @ [None]) + 0) s" "spc s = S_Run"
    using good_schedule schedule_run [OF _ sync_run.start] by blast
  then have "sync_reach s" "spc s = S_Run" using sync_run_reach by auto
  with handshake_safe [OF this] show ?thesis by blast
qed


section \<open>The traffic generator\<close>

definition ex_latpkg :: latpkg where
  "ex_latpkg = \<lparr>reg_soft_clear = 4, reg_mode = [8], reg_interval = [12], reg_explambda = [16], reg_packetnum = [20],
     reg_seed = [24], reg_start = [28], reg_stop = [32], reg_done = [36], reg_recvcount = [40], reg_rx_done = [44],
     reg_accum_hi = [[48]], reg_accum_lo = [[52]]\<rparr>"

theorem switch_start_runs_generator_witness:
  "\<exists>w'. switch_start (\<lambda>i _. of_nat i) (\<lambda>_. False) (\<lambda>_. 0x400) ex_latpkg (ex_world (ex_engine H2C))
     = Some (Inr (Some (2, [addr_join 3 4]), w'))"
proof -
  let ?w = "ex_world (ex_engine H2C)"
  have gen: "generator_at (\<lambda>_. 0x400) 0xB0000000 ?w"
    by (simp add: generator_at_def eth_data_def bar_mapped_def bar_base_def ex_world_def ex_eth_def ex_data_def ex_dev_def)
  have ok: "generator_ok ex_latpkg" by (simp add: generator_ok_def ex_latpkg_def)
  have odd1: "(of_nat 1 :: u32) AND 1 \<noteq> 0" "(of_nat 0 :: u32) AND 1 = 0" by simp_all
  show ?thesis
    using switch_start_runs_generator [OF gen ok, of "\<lambda>i. (of_nat i :: u32) AND 1 \<noteq> 0" "\<lambda>i _. of_nat i" _ "\<lambda>_. False",
      THEN conjunct1, rule_format, of _ 1] odd1
    by (simp add: ex_latpkg_def)
qed

end
