(* ===== verification/App_Stats.thy ===== *)
theory App_Stats
  imports Complex_Main App_Inter
begin

text \<open>
  What the test applications measure: the delays of the counting forwarder,
  \<open>testapp_count.c\<close>, taken from readings of the clock in each round, and the statistics that
  \<open>switch_start\<close> in \<open>testapp_inter.c\<close> computes from the accumulators of the generator.

  The code computes in \<open>double\<close>.  The arithmetic is a parameter of the definitions, a record of
  the five operations they use; the properties on values are about exact arithmetic, \<open>exact\<close>,
  and do not speak of rounding.
\<close>

section \<open>Arithmetic and time\<close>

record 'f fops =
  f_int :: "int \<Rightarrow> 'f"
  f_add :: "'f \<Rightarrow> 'f \<Rightarrow> 'f"
  f_sub :: "'f \<Rightarrow> 'f \<Rightarrow> 'f"
  f_div :: "'f \<Rightarrow> 'f \<Rightarrow> 'f"
  f_less :: "'f \<Rightarrow> 'f \<Rightarrow> bool"

definition exact :: "real fops" where
  "exact = \<lparr>f_int = of_int, f_add = (+), f_sub = (-), f_div = (/), f_less = (<)\<rparr>"

record timespec =
  tv_sec :: int
  tv_nsec :: int

definition duration :: "'f fops \<Rightarrow> timespec \<Rightarrow> timespec \<Rightarrow> 'f" where
  "duration F s e = f_add F (f_int F (tv_sec e - tv_sec s))
     (f_div F (f_int F (tv_nsec e - tv_nsec s)) (f_int F 1000000000))"

text \<open>A time in seconds.\<close>

definition secs :: "timespec \<Rightarrow> real" where
  "secs t = real_of_int (tv_sec t) + real_of_int (tv_nsec t) / 1000000000"

lemma duration_exact: "duration exact s e = secs e - secs s"
  by (simp add: duration_def exact_def secs_def diff_divide_distrib)

lemma exact_sel [simp]:
  "f_int exact = of_int" "f_add exact = (+)" "f_sub exact = (-)" "f_div exact = (/)" "f_less exact = (<)"
  by (simp_all add: exact_def)

section \<open>The counting forwarder with its clock\<close>

text \<open>
  \<open>clock i\<close> is the \<open>i\<close>th reading of the clock.  \<open>clk\<close> counts the readings so far, \<open>passed\<close> is the
  time since the first one, and \<open>pkts_len\<close> the length of the last packet tested, which is not
  initialised.
\<close>

record 'f timing =
  clk :: nat
  recv_delay :: 'f
  xmit_delay :: 'f
  passed :: 'f
  pkts_len :: "u16 option"

definition timing_start :: "'f fops \<Rightarrow> 'f timing" where
  "timing_start F = \<lparr>clk = 1, recv_delay = f_int F 0, xmit_delay = f_int F 0, passed = f_int F 0, pkts_len = None\<rparr>"

definition test_packet :: "'d burst_io \<Rightarrow> 'd fwd \<Rightarrow> nat \<Rightarrow> u16 option \<Rightarrow> fault + u16 option" where
  "test_packet io st i l =
     andThen (load_idx (fw_pkts st) i) (\<lambda>p.
     andThen (deref (io_mbufs io (fw_dev st)) p) (\<lambda>m.
     andThen (test_bit io st i ()) (\<lambda>_. Inr (Some (data_len m)))))"

definition timed_round :: "'f fops \<Rightarrow> 'd burst_io \<Rightarrow> (nat \<Rightarrow> timespec) \<Rightarrow> thread_args \<Rightarrow> 'd fwd \<times> 'f timing
    \<Rightarrow> fault + 'd fwd \<times> 'f timing" where
  "timed_round F io clock a s =
     (let (st, t) = s in
      andThen (receive io a st) (\<lambda>(ret, st).
      let t = t\<lparr>recv_delay := f_add F (recv_delay t) (duration F (clock (clk t)) (clock (clk t + 1))), clk := clk t + 2\<rparr> in
      andThen (for_loop (fw_idx st) (unat ret) (test_packet io st) (pkts_len t)) (\<lambda>l.
      let t = t\<lparr>pkts_len := l\<rparr> in
      andThen
        (if ret > 0 then
           let st = st\<lparr>recv_pkts := recv_pkts st + uint ret, recv_batch := recv_batch st + 1\<rparr> in
           andThen (transmit io a ret st) (\<lambda>(ret, st).
           let t = t\<lparr>xmit_delay := f_add F (xmit_delay t) (duration F (clock (clk t)) (clock (clk t + 1))), clk := clk t + 2\<rparr>;
               st = st\<lparr>fw_idx := (fw_idx st + unat ret) mod SIZE_OF_PKTS_BUFFER\<rparr> in
           if ret > 0 then Inr (st\<lparr>xmit_pkts := xmit_pkts st + uint ret, xmit_batch := xmit_batch st + 1\<rparr>, t)
           else Inr (st, t))
         else Inr (st, t)) (\<lambda>(st, t).
      Inr (st, t\<lparr>passed := duration F (clock 0) (clock (clk t)), clk := clk t + 1\<rparr>)))))"

definition timed_fpga_to_fpga :: "'f fops \<Rightarrow> 'd burst_io \<Rightarrow> (nat \<Rightarrow> timespec) \<Rightarrow> thread_args \<Rightarrow> 'd
    \<Rightarrow> (fault + 'd fwd \<times> 'f timing) option" where
  "timed_fpga_to_fpga F io clock a d =
     do_until (timed_round F io clock a) (\<lambda>_ (_, t). f_less F (f_int F 1) (passed t)) 0 (fwd_start a d, timing_start F)"

text \<open>What it prints at its end: the delays and their averages over the batches.\<close>

definition delay_report :: "'f fops \<Rightarrow> 'd fwd \<times> 'f timing \<Rightarrow> ('f \<times> 'f) \<times> ('f \<times> 'f)" where
  "delay_report F s =
     (let (st, t) = s in
      ((recv_delay t, f_div F (recv_delay t) (f_int F (recv_batch st))),
       (xmit_delay t, f_div F (xmit_delay t) (f_int F (xmit_batch st)))))"

section \<open>The statistics of the traffic generator\<close>

record 'f averages =
  main_role_in :: 'f
  main_role_out :: 'f
  main_shell_in :: 'f
  main_shell_out :: 'f
  part_role_in :: 'f
  part_role_out :: 'f
  part_shell_in :: 'f
  part_shell_out :: 'f

record 'f segments =
  main_role_busy :: 'f
  main_role_to_shell :: 'f
  main_shell_busy :: 'f
  shell_to_shell :: 'f
  part_role_busy :: 'f
  part_shell_busy :: 'f
  part_shell_to_role :: 'f

definition role_freq :: int where "role_freq = 50"
definition shell_freq :: int where "shell_freq = 250"

definition average :: "'f fops \<Rightarrow> int \<Rightarrow> int \<Rightarrow> u64 list \<Rightarrow> nat \<Rightarrow> fault + 'f" where
  "average F n freq accum i =
     andThen (load_idx accum i) (\<lambda>v. Inr (f_div F (f_div F (f_int F (sint v)) (f_int F n)) (f_int F freq)))"

definition switch_averages :: "'f fops \<Rightarrow> int \<Rightarrow> u64 list \<Rightarrow> fault + 'f averages" where
  "switch_averages F n accum =
     andThen (average F n role_freq accum 1) (\<lambda>a1.
     andThen (average F n role_freq accum 2) (\<lambda>a2.
     andThen (average F n shell_freq accum 3) (\<lambda>a3.
     andThen (average F n shell_freq accum 4) (\<lambda>a4.
     andThen (average F n role_freq accum 5) (\<lambda>a5.
     andThen (average F n role_freq accum 6) (\<lambda>a6.
     andThen (average F n shell_freq accum 7) (\<lambda>a7.
     andThen (average F n shell_freq accum 8) (\<lambda>a8.
     Inr \<lparr>main_role_in = a1, main_role_out = a2, main_shell_in = a3, main_shell_out = a4,
       part_role_in = a5, part_role_out = a6, part_shell_in = a7, part_shell_out = a8\<rparr>))))))))"

definition switch_segments :: "'f fops \<Rightarrow> 'f averages \<Rightarrow> 'f segments" where
  "switch_segments F m = \<lparr>
     main_role_busy = f_sub F (main_role_in m) (main_role_out m),
     main_role_to_shell = f_sub F (main_role_out m) (main_shell_in m),
     main_shell_busy = f_sub F (main_shell_in m) (main_shell_out m),
     shell_to_shell = f_sub F (main_shell_out m) (part_shell_in m),
     part_role_busy = f_sub F (part_role_in m) (part_role_out m),
     part_shell_busy = f_sub F (part_shell_in m) (part_shell_out m),
     part_shell_to_role = f_sub F (part_shell_out m) (part_role_in m)\<rparr>"

definition switch_stats :: "'f fops \<Rightarrow> int \<Rightarrow> u64 list \<Rightarrow> fault + ('f averages \<times> 'f segments) option" where
  "switch_stats F n accum =
     (if n > 0 then andThen (switch_averages F n accum) (\<lambda>m. Inr (Some (m, switch_segments F m))) else Inr None)"

text \<open>
  The clock of \<open>wait_rx_done\<close>: reading 0 is taken before the loop, reading \<open>Suc i\<close> after the
  \<open>i\<close>th load.  The whole of \<open>switch_start\<close> then gives the count, the accumulators and the
  statistics, or nothing on a timeout.
\<close>

definition wait_late :: "'f fops \<Rightarrow> (nat \<Rightarrow> timespec) \<Rightarrow> int \<Rightarrow> nat \<Rightarrow> bool" where
  "wait_late F clock timeout i = f_less F (f_int F timeout) (duration F (clock 0) (clock (Suc i)))"

definition rx_timeout :: int where "rx_timeout = 1000"

definition switch_report :: "'f fops \<Rightarrow> (nat \<Rightarrow> u64 \<Rightarrow> u32) \<Rightarrow> (nat \<Rightarrow> timespec) \<Rightarrow> (int \<Rightarrow> u64) \<Rightarrow> latpkg \<Rightarrow> world
    \<Rightarrow> (fault + (int \<times> u64 list \<times> ('f averages \<times> 'f segments) option) option \<times> world) option" where
  "switch_report F rd clock pd L w =
     map_option (\<lambda>r. andThen r (\<lambda>(r, w).
       case r of
         None \<Rightarrow> Inr (None, w)
       | Some (recv_count, accum) \<Rightarrow>
           andThen (switch_stats F recv_count accum) (\<lambda>s. Inr (Some (recv_count, accum, s), w))))
     (switch_start rd (wait_late F clock rx_timeout) pd L w)"

section \<open>The clock only decides when the forwarder ends\<close>

text \<open>A loop whose state is read off another loop's.\<close>

lemma repeat_body_project:
  assumes "\<And>s. body (f s) = andThen (body' s) (\<lambda>t. Inr (f t))"
  shows "repeat_body body n (f s) = andThen (repeat_body body' n s) (\<lambda>t. Inr (f t))"
  by (induction n arbitrary: s) (simp_all add: assms andThen_assoc)

lemma do_until_project:
  assumes step: "\<And>s. body (f s) = andThen (body' s) (\<lambda>t. Inr (f t))"
    and stop: "stop = (\<lambda>k _. \<exists>u. repeat_body body' (Suc k) s = Inr u \<and> stop' k u)"
  shows "do_until body stop 0 (f s) = map_option (\<lambda>r. andThen r (\<lambda>t. Inr (f t))) (do_until body' stop' 0 s)"
proof -
  note proj = repeat_body_project [of body f body', OF step]
  have on: "runs_on body stop 0 (f s) n (f t) \<longleftrightarrow> runs_on body' stop' 0 s n t" if t: "repeat_body body' n s = Inr t" for n t
  proof -
    have "(\<forall>j < n. \<forall>u. repeat_body body (Suc j) (f s) = Inr u \<longrightarrow> \<not> stop (0 + j) u) \<longleftrightarrow>
        (\<forall>j < n. \<forall>u. repeat_body body' (Suc j) s = Inr u \<longrightarrow> \<not> stop' (0 + j) u)"
      unfolding proj stop by (auto simp: andThen_eq_Inr simp del: repeat_body.simps)
    moreover have "repeat_body body n (f s) = Inr (f t)" using t by (simp add: proj)
    ultimately show ?thesis using t by (simp add: runs_on_def)
  qed
  have after: "repeat_body body' (Suc n) s = body' t" if t: "repeat_body body' n s = Inr t" for n t
    using t by (simp add: repeat_body_Suc del: repeat_body.simps)
  have ends: "do_until body stop 0 (f s) = Some (andThen (body' t) (\<lambda>t. Inr (f t))) \<and>
      do_until body' stop' 0 s = Some (body' t)"
    if run: "runs_on body' stop' 0 s n t" and last: "\<And>u. body' t = Inr u \<Longrightarrow> stop' n u" for n t
  proof -
    have t: "repeat_body body' n s = Inr t" using run by (simp add: runs_on_def)
    note run' = run [folded on [OF t]]
    show ?thesis
    proof (cases "body' t")
      case (Inl e)
      then show ?thesis using do_until_fault [OF run] do_until_fault [OF run'] by (simp add: step)
    next
      case (Inr u)
      then have "stop n (f u)" using last after [OF t] by (simp add: stop del: repeat_body.simps)
      with Inr last show ?thesis using do_until_stops [OF run Inr] do_until_stops [OF run', of "f u"] by (simp add: step)
    qed
  qed
  show ?thesis
  proof (cases "do_until body' stop' 0 s")
    case (Some y)
    from do_until_SomeD [OF Some] obtain n t where "runs_on body' stop' 0 s n t"
      "\<And>u. body' t = Inr u \<Longrightarrow> stop' n u" by fastforce
    from ends [OF this] show ?thesis by auto
  next
    case None
    have "do_until body stop 0 (f s) = None"
    proof (rule ccontr)
      assume "do_until body stop 0 (f s) \<noteq> None"
      then obtain y where "do_until body stop 0 (f s) = Some y" by blast
      from do_until_SomeD [OF this] obtain n v where v: "runs_on body stop 0 (f s) n v"
        "\<And>u. body v = Inr u \<Longrightarrow> stop n u" by fastforce
      then have "repeat_body body n (f s) = Inr v" by (simp add: runs_on_def)
      then obtain t where t: "repeat_body body' n s = Inr t" "v = f t" by (auto simp: proj andThen_eq_Inr)
      have "stop' n u" if "body' t = Inr u" for u
        using v(2) [of "f u"] t that after [OF t(1)] by (simp add: step stop del: repeat_body.simps)
      with ends [of n t] v(1) t None show False by (simp add: on)
    qed
    with None show ?thesis by simp
  qed
qed

lemma test_bit_packet: "test_bit io st i u = andThen (test_packet io st i l) (\<lambda>_. Inr ())"
proof (cases "test_bit io st i u")
  case (Inl e)
  then show ?thesis
    by (cases "load_idx (fw_pkts st) i"; cases "deref (io_mbufs io (fw_dev st)) (projr (load_idx (fw_pkts st) i))")
       (auto simp: test_bit_def test_packet_def)
next
  case (Inr v)
  then show ?thesis
    by (auto simp: test_bit_def test_packet_def andThen_eq_Inr split: if_splits)
qed

lemma test_loop_packet:
  "for_loop i n (test_bit io st) u = andThen (for_loop i n (test_packet io st) l) (\<lambda>_. Inr ())"
proof (induction n arbitrary: i u l)
  case 0
  then show ?case by simp
next
  case (Suc n)
  then show ?case
    by (cases "test_packet io st i l") (simp_all add: test_bit_packet [where l = l])
qed

text \<open>A round with its clock does what \<open>count_round\<close> does.\<close>

lemma timed_round_project:
  "count_round io a (fst s) = andThen (timed_round F io clock a s) (\<lambda>s. Inr (fst s))"
proof (cases "receive io a (fst s)")
  case (Inl e)
  then show ?thesis by (simp add: count_round_def timed_round_def split_beta)
next
  case (Inr r)
  obtain ret st t where r: "r = (ret, st)" and s: "snd s = t" by (cases r) simp
  define l where "l = for_loop (fw_idx st) (unat ret) (test_packet io st) (pkts_len t)"
  show ?thesis
  proof (cases l)
    case (Inl e)
    with Inr r s show ?thesis
      by (simp add: count_round_def timed_round_def split_beta Let_def test_loop_packet [where l = "pkts_len t"] l_def)
  next
    case Inl': (Inr x)
    let ?st = "st\<lparr>recv_pkts := recv_pkts st + uint ret, recv_batch := recv_batch st + 1\<rparr>"
    show ?thesis
      using Inr r s Inl'
      by (cases "transmit io a ret ?st")
         (auto simp: count_round_def timed_round_def split_beta Let_def test_loop_packet [where l = "pkts_len t"] l_def)
  qed
qed

text \<open>A loop that never ends goes through every number of rounds.\<close>

lemma runs_on_Suc:
  assumes "runs_on body stop k s n t" and "body t = Inr u" and "\<not> stop (k + n) u"
  shows "runs_on body stop k s (Suc n) u"
  using assms by (auto simp: runs_on_def less_Suc_eq repeat_body_Suc simp del: repeat_body.simps)

lemma do_until_None_runs:
  assumes "do_until body stop k s = None"
  shows "\<exists>t. runs_on body stop k s n t"
proof (induction n)
  case 0
  show ?case by (simp add: runs_on_def)
next
  case (Suc n)
  then obtain t where t: "runs_on body stop k s n t" by blast
  show ?case
  proof (cases "body t")
    case (Inl e)
    with do_until_fault [OF t] assms show ?thesis by simp
  next
    case (Inr u)
    moreover have "\<not> stop (k + n) u" using do_until_stops [OF t Inr] assms by auto
    ultimately show ?thesis using runs_on_Suc [OF t] by blast
  qed
qed

section \<open>Time spent\<close>

text \<open>The delays are part of the time between the first and the last reading of the clock.\<close>

definition time_ok :: "(nat \<Rightarrow> timespec) \<Rightarrow> real timing \<Rightarrow> bool" where
  "time_ok clock t \<longleftrightarrow> 0 < clk t \<and> 0 \<le> recv_delay t \<and> 0 \<le> xmit_delay t \<and>
     recv_delay t + xmit_delay t \<le> secs (clock (clk t - 1)) - secs (clock 0)"

definition monotonic :: "(nat \<Rightarrow> timespec) \<Rightarrow> bool" where
  "monotonic clock \<longleftrightarrow> (\<forall>i. secs (clock i) \<le> secs (clock (Suc i)))"

lemma monotonicD: "monotonic clock \<Longrightarrow> i \<le> j \<Longrightarrow> secs (clock i) \<le> secs (clock j)"
  using lift_Suc_mono_le [of "\<lambda>i. secs (clock i)" i j] by (simp add: monotonic_def)

lemma time_ok_recv:
  assumes "time_ok clock t" and "monotonic clock"
  shows "time_ok clock (t\<lparr>recv_delay := recv_delay t + (secs (clock (Suc (clk t))) - secs (clock (clk t))), clk := Suc (Suc (clk t))\<rparr>)"
    and "time_ok clock (t\<lparr>xmit_delay := xmit_delay t + (secs (clock (Suc (clk t))) - secs (clock (clk t))), clk := Suc (Suc (clk t))\<rparr>)"
  using assms monotonicD [OF assms(2), of "clk t - 1" "clk t"] monotonicD [OF assms(2), of "clk t" "Suc (clk t)"]
  by (auto simp: time_ok_def)

lemma time_ok_more:
  assumes "time_ok clock t" and "monotonic clock"
  shows "time_ok clock (t\<lparr>pkts_len := l\<rparr>)" and "time_ok clock (t\<lparr>passed := x, clk := Suc (clk t)\<rparr>)"
  using assms monotonicD [OF assms(2), of "clk t - 1" "clk t"] by (auto simp: time_ok_def)

lemma timed_round_time:
  assumes "timed_round exact io clock a (st, t) = Inr (st', t')" and "time_ok clock t" and mono: "monotonic clock"
  shows "time_ok clock t' \<and> clk t < clk t' \<and> passed t' = secs (clock (clk t' - 1)) - secs (clock 0)"
proof -
  define recv where "recv = (\<lambda>t :: real timing. t\<lparr>recv_delay := recv_delay t + (secs (clock (Suc (clk t))) - secs (clock (clk t))), clk := Suc (Suc (clk t))\<rparr>)"
  define xmit where "xmit = (\<lambda>t :: real timing. t\<lparr>xmit_delay := xmit_delay t + (secs (clock (Suc (clk t))) - secs (clock (clk t))), clk := Suc (Suc (clk t))\<rparr>)"
  define fin where "fin = (\<lambda>t :: real timing. t\<lparr>passed := secs (clock (clk t)) - secs (clock 0), clk := Suc (clk t)\<rparr>)"
  have ok: "time_ok clock (recv u) \<and> time_ok clock (xmit u) \<and> time_ok clock (fin u)" if "time_ok clock u" for u
    using time_ok_recv [OF that mono] time_ok_more(2) [OF that mono] by (simp add: recv_def xmit_def fin_def)
  have ok': "time_ok clock (u\<lparr>pkts_len := l\<rparr>)" if "time_ok clock u" for u l
    using time_ok_more(1) [OF that mono] .
  have "\<exists>l. t' = fin (recv t\<lparr>pkts_len := l\<rparr>) \<or> t' = fin (xmit (recv t\<lparr>pkts_len := l\<rparr>))"
    using assms(1)
    by (auto simp: timed_round_def andThen_eq_Inr Let_def split_beta duration_exact recv_def xmit_def fin_def split: if_splits)
  then obtain l where l: "t' = fin (recv t\<lparr>pkts_len := l\<rparr>) \<or> t' = fin (xmit (recv t\<lparr>pkts_len := l\<rparr>))" by blast
  with ok ok' assms(2) have "time_ok clock t'" by blast
  moreover have "clk t < clk t' \<and> passed t' = secs (clock (clk t' - 1)) - secs (clock 0)"
    using l by (auto simp: recv_def xmit_def fin_def)
  ultimately show ?thesis by blast
qed

lemma timed_rounds_time:
  assumes "monotonic clock"
  shows "repeat_body (timed_round exact io clock a) n (st, timing_start exact) = Inr (st', t) \<Longrightarrow>
    time_ok clock t \<and> n < clk t \<and> (0 < n \<longrightarrow> passed t = secs (clock (clk t - 1)) - secs (clock 0))"
proof (induction n arbitrary: st' t)
  case 0
  then show ?case by (auto simp: timing_start_def time_ok_def)
next
  case (Suc n)
  from Suc.prems obtain s where "repeat_body (timed_round exact io clock a) n (st, timing_start exact) = Inr s"
    and "timed_round exact io clock a s = Inr (st', t)"
    by (auto simp: repeat_body_Suc andThen_eq_Inr simp del: repeat_body.simps)
  with Suc.IH [of "fst s" "snd s"] timed_round_time [OF _ _ assms, of io a "fst s" "snd s" st' t] show ?case
    by fastforce
qed

section \<open>Statistics in exact arithmetic\<close>

lemma average_exact:
  "i < length accum \<Longrightarrow> average exact n freq accum i = Inr (real_of_int (sint (accum ! i)) / real_of_int n / real_of_int freq)"
  by (simp add: average_def)

lemma switch_stats_exact:
  assumes "8 < length accum" and "0 < n" and "\<And>i. t i = real_of_int (sint (accum ! i)) / real_of_int n"
  shows "switch_stats exact n accum = Inr (Some
     (\<lparr>main_role_in = t 1 / 50, main_role_out = t 2 / 50, main_shell_in = t 3 / 250, main_shell_out = t 4 / 250,
       part_role_in = t 5 / 50, part_role_out = t 6 / 50, part_shell_in = t 7 / 250, part_shell_out = t 8 / 250\<rparr>,
      \<lparr>main_role_busy = (t 1 - t 2) / 50, main_role_to_shell = (5 * t 2 - t 3) / 250, main_shell_busy = (t 3 - t 4) / 250,
       shell_to_shell = (t 4 - t 7) / 250, part_role_busy = (t 5 - t 6) / 50, part_shell_busy = (t 7 - t 8) / 250,
       part_shell_to_role = (t 8 - 5 * t 5) / 250\<rparr>))"
  using assms(1,2)
  by (simp add: switch_stats_def switch_averages_def average_exact switch_segments_def role_freq_def shell_freq_def
      assms(3) field_simps)

text \<open>The sum of the seven segments.\<close>

definition segment_sum :: "real segments \<Rightarrow> real" where
  "segment_sum s = main_role_busy s + main_role_to_shell s + main_shell_busy s + shell_to_shell s +
     part_shell_busy s + part_shell_to_role s + part_role_busy s"

lemma wait_late_exact: "wait_late exact clock timeout i \<longleftrightarrow> real_of_int timeout < secs (clock (Suc i)) - secs (clock 0)"
  by (simp add: wait_late_def duration_exact)

text \<open>With a clock that passes the timeout, there is a first look at which the wait ends.\<close>

lemma wait_ends:
  assumes "real_of_int timeout < secs (clock n) - secs (clock 0)" and "0 \<le> timeout"
  shows "\<exists>k. (P k \<or> wait_late exact clock timeout k) \<and> (\<forall>j < k. \<not> P j \<and> \<not> wait_late exact clock timeout j)"
proof -
  from assms obtain i where "n = Suc i" by (cases n) auto
  with assms have "wait_late exact clock timeout i" by (simp add: wait_late_exact)
  then have "\<exists>k. P k \<or> wait_late exact clock timeout k" by blast
  then show ?thesis using exists_least_iff [of "\<lambda>k. P k \<or> wait_late exact clock timeout k"] by blast
qed

section \<open>Properties\<close>




end
