(* ===== verification/App_Main.thy ===== *)
theory App_Main
  imports App_Count App_Stats App_Ports_Correct
begin

text \<open>
  The \<open>main\<close> functions of the two test applications as a whole: start, threads, end.

  What the threads do to the shared state until all have been joined depends on the scheduler of
  the system and is a parameter: \<open>run js s\<close> is the state in which they leave \<open>s\<close> when they
  are started with the arguments \<open>js\<close>, or \<open>None\<close> if one of them never ends.  What a single
  thread does is in \<open>App_Forward\<close>, \<open>App_Stats\<close> and \<open>App_Inter\<close>.
\<close>

section \<open>The programs\<close>

definition orElseHang :: "(fault + 'a) option \<Rightarrow> ('a \<Rightarrow> (fault + 'b) option) \<Rightarrow> (fault + 'b) option" where
  "orElseHang m f = (case m of None \<Rightarrow> None | Some (Inl e) \<Rightarrow> Some (Inl e) | Some (Inr x) \<Rightarrow> f x)"

lemma orElseHang_simps [simp, res_simps]:
  "orElseHang None f = None" "orElseHang (Some (Inl e)) f = Some (Inl e)" "orElseHang (Some (Inr x)) f = f x"
  by (simp_all add: orElseHang_def)

definition count_main :: "env \<Rightarrow> 'x dpdk \<Rightarrow> (thread_args list \<Rightarrow> 'x app \<Rightarrow> (fault + 'x app) option) \<Rightarrow> 'x app
    \<Rightarrow> (fault + int \<times> 'x app) option" where
  "count_main ev E run s =
     orElseHang (Some (count_main_start ev E s)) (\<lambda>(started, s).
     case started of
       None \<Rightarrow> Some (Inr (- 1, s))
     | Some (num_ports, args_0, args_1) \<Rightarrow>
         orElseHang (run [args_0, args_1] s) (\<lambda>s.
         Some (andThen (teardown E num_ports s) (\<lambda>s. Inr (0, s)))))"

text \<open>
  \<open>main\<close> of the interleaving program waits for all worker cores of DPDK, then gives the resources
  of DPDK back, \<open>cleanup\<close>, and only then closes and removes the ports.
\<close>

definition inter_main :: "env \<Rightarrow> 'x dpdk \<Rightarrow> (nat \<Rightarrow> bool) \<Rightarrow> ((nat \<times> job) list \<Rightarrow> 'x app \<Rightarrow> (fault + 'x app) option)
    \<Rightarrow> ('x sys \<Rightarrow> int \<times> 'x sys) \<Rightarrow> 'x app \<Rightarrow> (fault + int \<times> 'x app) option" where
  "inter_main ev E enabled run cleanup s =
     orElseHang (Some (inter_main_start ev E s)) (\<lambda>(started, s).
     case started of
       None \<Rightarrow> Some (Inr (- 1, s))
     | Some (num_ports, pkts) \<Rightarrow>
         orElseHang (Some (launch enabled pkts)) (\<lambda>js.
         orElseHang (run js s) (\<lambda>s.
         let s = s\<lparr>sys := snd (cleanup (sys s))\<rparr> in
         Some (andThen (inter_teardown E num_ports s) (\<lambda>s. Inr (0, s))))))"

end
