(* ===== verification/Witnesses_Stats.thy ===== *)
theory Witnesses_Stats
  imports Witnesses_App App_Main
begin

text \<open>
  The properties of the measurements, applied to a clock that ticks once a second, a device on
  which nothing arrives, and a generator with nine accumulators.
\<close>

definition ticking :: "nat \<Rightarrow> timespec" where "ticking i = \<lparr>tv_sec = int i, tv_nsec = 0\<rparr>"

definition silent_io :: "unit burst_io" where
  "silent_io = \<lparr>rx_burst = (\<lambda>_ _ ps _ d. Inr (0, ps, d)), tx_burst = (\<lambda>_ _ _ n d. Inr (n, d)),
     io_mbufs = (\<lambda>_. Map.empty), io_byte = (\<lambda>_ _. 0)\<rparr>"

lemma secs_ticking: "secs (ticking i) = real i"
  by (simp add: secs_def ticking_def)


definition ex_latpkg_9 :: latpkg where
  "ex_latpkg_9 = ex_latpkg\<lparr>reg_accum_hi := [[48, 56, 64, 72, 80, 88, 96, 104, 112]]\<rparr>"


end
