(* ===== verification/App_Relay.thy ===== *)
theory App_Relay
  imports App_Count Isolation Rx_Correct
begin

text \<open>
  The forwarders of the test applications over the driver on both sides: bursts are received
  on one engine and sent on another, through the driver's own functions.

  The driver does not write to the caller's array.  It fills in the buffers that were posted, in
  place, so that the packets of a call stand in the array at the slots that were completed since the call
  before, and not at its front.
\<close>

section \<open>Two engines\<close>

text \<open>
  The device behind the bursts: the number of receive bursts, the buffers handed to the
  sending engine so far, with what they held, and the driver's memory.  In burst \<open>k\<close> the hardware
  reports the counts \<open>hr k\<close> and the stream words \<open>swb k\<close>, and then the count \<open>ht k\<close>.
\<close>

record relay =
  bursts_in :: nat
  handed :: "(u64 \<times> rte_mbuf) list"
  relay_mem :: world

definition relay_io :: "(nat \<Rightarrow> nat \<Rightarrow> u32) \<Rightarrow> (nat \<Rightarrow> nat \<Rightarrow> u32 \<times> u32) \<Rightarrow> (nat \<Rightarrow> nat \<Rightarrow> u32) \<Rightarrow> u64 \<Rightarrow> u64
    \<Rightarrow> (u64 \<Rightarrow> u8) \<Rightarrow> relay burst_io" where
  "relay_io hr swb ht q p mbyte = \<lparr>
     rx_burst = (\<lambda>_ _ ps n d.
       andThen (xdma_recv_pkts (hr (bursts_in d)) (swb (bursts_in d)) q ps n (relay_mem d)) (\<lambda>(r, ps, w).
       Inr (r, ps, d\<lparr>bursts_in := Suc (bursts_in d), relay_mem := w\<rparr>))),
     tx_burst = (\<lambda>_ _ ps n d.
       andThen (xdma_xmit_pkts (ht (bursts_in d - 1)) p ps n (relay_mem d)) (\<lambda>(r, w).
       Inr (r, d\<lparr>handed := handed d @ map (\<lambda>mb. (mb, the (mbufs (relay_mem d) mb))) (take (unat r) ps),
                 relay_mem := w\<rparr>))),
     io_mbufs = (\<lambda>d. mbufs (relay_mem d)), io_byte = (\<lambda>_. mbyte)\<rparr>"

text \<open>A buffer as it comes from its pool: a packet of one segment.\<close>

definition single_seg :: "(u64 \<rightharpoonup> rte_mbuf) \<Rightarrow> u64 \<Rightarrow> bool" where
  "single_seg m mb \<longleftrightarrow> (\<exists>x. m mb = Some x \<and> nb_segs x = 1 \<and> mb_next x = 0)"

text \<open>
  The receive queue \<open>R\<close> has delivered the first \<open>u\<close> of its 32 slots, or is idle with \<open>u\<close> being
  0; the transmit queue \<open>T\<close> is idle; they share nothing.
\<close>

definition relay_at :: "queue \<Rightarrow> queue \<Rightarrow> u64 \<Rightarrow> u64 \<Rightarrow> (u64 \<Rightarrow> u64) \<Rightarrow> u64 list \<Rightarrow> u32 \<Rightarrow> nat \<Rightarrow> world \<Rightarrow> bool" where
  "relay_at R T a b v pkts port u w \<longleftrightarrow>
     q_mbufs R = set pkts \<and> q_mbufs T = {} \<and> dir (q_engine R) = C2H \<and> dir (q_engine T) = H2C \<and> apart w R T \<and>
     (\<exists>e r. rx_ready (q_addr R) a e r pkts w \<and> same_geometry (q_engine R) e \<and> port_id e = port \<and>
        (if running e then desc_used e = of_nat u else u = 0 \<and> desc_used e = 0)) \<and>
     (\<exists>e. engines w (q_addr T) = Some e \<and> same_geometry (q_engine T) e) \<and> tx_idle (q_addr T) b v w \<and>
     length pkts = 32 \<and> (\<forall>mb \<in> set pkts. single_seg (mbufs w) mb)"

section \<open>What an operation on one queue leaves of the other\<close>

lemma single_seg_pkt_ok: "mb \<noteq> 0 \<Longrightarrow> single_seg m mb \<Longrightarrow> pkt_ok m mb"
  by (auto simp: single_seg_def pkt_ok_def)

lemma packet_of_single [simp]: "nb_segs (packet_of n port x) = 1" "mb_next (packet_of n port x) = 0"
  by (simp_all add: packet_of_def)

lemma table_directed_init: "hw_access_of h w = Inr xdma_hw_access_init \<Longrightarrow> table_directed h w"
  by (simp add: table_directed_def xdma_hw_access_init_def)

lemma engine_view:
  assumes "engine_at (q_addr Q) a e r w" and "same_geometry (q_engine Q) e" and "closed_mbufs (q_mbufs Q) (mbufs w)"
  shows "same_view Q w w"
  using assms table_directed_init same_geometryD [OF assms(2)] by (auto simp: same_view_def engine_at_def)

lemma engine_at_view:
  assumes "same_view Q w' w" and "engine_at (q_addr Q) a e r w"
  shows "engine_at (q_addr Q) a e r w'"
proof -
  have e: "same_geometry (q_engine Q) e" "engines w' (q_addr Q) = Some e"
    using assms by (auto simp: same_view_def engine_at_def)
  moreover have "rings w' (desc_ring e) = rings w (desc_ring e)" "words w' (poll_mode_addr_virt e) = words w (poll_mode_addr_virt e)"
    using assms(1) same_geometryD [OF e(1)] wb_word [OF e(1)] by (auto simp: same_view_def)
  moreover have "xdevs w' = xdevs w" "hw_tables w' = hw_tables w" using assms(1) by (simp_all add: same_view_def)
  ultimately show ?thesis
    using assms(2) by (simp add: engine_at_def bar_mapped_def bar_base_def hw_access_of_def)
qed

lemma rx_ready_view:
  assumes "same_view Q w' w" and "rx_ready (q_addr Q) a e r pkts w" and "dir (q_engine Q) = C2H" and "q_mbufs Q = set pkts"
  shows "rx_ready (q_addr Q) a e r pkts w'"
proof -
  have e: "same_geometry (q_engine Q) e" using assms(1,2) by (auto simp: same_view_def rx_ready_def engine_at_def)
  then have "stream_wb_addr e \<in> queue_words Q" "stream_wb_addr e + 4 \<in> queue_words Q"
    using stream_words [OF e] assms(3) by auto
  then have "stream_mapped e w'" "mbufs_ok (mbufs w') pkts"
    using assms(1,2,4) by (auto simp: same_view_def rx_ready_def stream_mapped_def mbufs_ok_def)
  with assms engine_at_view [OF assms(1)] show ?thesis by (simp add: rx_ready_def)
qed

lemma tx_idle_view: "same_view Q w' w \<Longrightarrow> tx_idle (q_addr Q) a v w \<Longrightarrow> tx_idle (q_addr Q) a v w'"
  using engine_at_view unfolding tx_idle_def by blast

lemma relay_views:
  assumes "relay_at R T a b v pkts port u w"
  shows "same_view R w w" and "same_view T w w"
proof -
  note at = assms [unfolded relay_at_def]
  have "closed_mbufs (q_mbufs R) (mbufs w)" using at by (auto simp: closed_mbufs_def single_seg_def)
  then show "same_view R w w" using at engine_view unfolding rx_ready_def by blast
  obtain e r where "engine_at (q_addr T) b e r w" using at by (auto simp: tx_idle_def)
  moreover have "same_geometry (q_engine T) e" using at calculation by (auto simp: engine_at_def)
  moreover have "closed_mbufs (q_mbufs T) (mbufs w)" using at by (simp add: closed_mbufs_def)
  ultimately show "same_view T w w" by (rule engine_view)
qed

lemma apart_sym: "apart w P Q \<Longrightarrow> apart w Q P"
  by (auto simp: apart_def)

lemma outside_apart: "outside_same P w w' \<Longrightarrow> apart w' R T = apart w R T"
  by (rule apart_cong) (simp add: outside_same_def)

section \<open>Receiving\<close>

text \<open>The first call on an idle engine posts the array and goes on as a call on the running engine.\<close>

lemma recv_starts:
  assumes "rx_ready p a e r pkts w" and "\<not> running e" and "desc_used e = 0" and "length pkts = 32"
  shows "\<exists>w1 r1. xdma_recv_pkts hw swb p pkts 32 w = xdma_recv_pkts hw swb p pkts 32 w1 \<and>
    rx_ready p a (e\<lparr>status := 0, desc_used := 0, running := True\<rparr>) r1 pkts w1 \<and> mbufs w1 = mbufs w"
proof -
  have n: "(32 :: nat) = min (unat (32 :: u16)) 32" "(32 :: nat) \<le> length pkts" using assms(4) by simp_all
  let ?e = "e\<lparr>status := 0, desc_used := 0, running := True\<rparr>"
  obtain w1 r1 where w1: "xdma_recv_pkts hw swb p pkts 32 w = rx_tail hw swb (xdev e) p pkts 32 w1"
    "rx_ready p a ?e r1 pkts w1" "mbufs w1 = mbufs w"
    using recv_idle_eq [OF assms(1-3) n, of hw swb] by auto
  then have p: "p \<noteq> 0" "engines w1 p = Some ?e" by (simp_all add: rx_ready_def engine_at_def)
  have "e\<lparr>desc_used := 0, running := True, status := 0\<rparr> = ?e" by simp
  then have "w1\<lparr>engines := (engines w1)(p \<mapsto> e\<lparr>desc_used := 0, running := True, status := 0\<rparr>)\<rparr> = w1"
    using p(2) by (simp add: map_upd_triv)
  then have "xdma_recv_pkts hw swb p pkts 32 w1 = rx_tail hw swb (xdev e) p pkts 32 w1"
    using p by (simp add: xdma_recv_pkts_def Let_def)
  with w1 show ?thesis by metis
qed

lemma recv_from:
  assumes "rx_ready p a e r pkts w" and "if running e then desc_used e = of_nat u else u = 0 \<and> desc_used e = 0"
    and "length pkts = 32" and "u < c" and "c < 32"
    and poll: "rx_poll hw (of_nat u) (Suc RX_RETRY) 0 = Some t" "hw (2 * t) = of_nat c"
  shows "\<exists>w' e' r'. xdma_recv_pkts hw swb p pkts 32 w = Inr (of_nat (c - u), pkts, w') \<and>
    (\<forall>i. u \<le> i \<and> i < c \<longrightarrow> mbufs w' (pkts ! i) = Some (packet_of (snd (swb i)) (port_id e) (the (mbufs w (pkts ! i))))) \<and>
    (\<forall>mb. mb \<notin> (!) pkts ` {u..<c} \<longrightarrow> mbufs w' mb = mbufs w mb) \<and>
    rx_ready p a e' r' pkts w' \<and> port_id e' = port_id e \<and> running e' \<and> desc_used e' = of_nat c"
proof -
  obtain w1 e1 r1 where w1: "xdma_recv_pkts hw swb p pkts 32 w = xdma_recv_pkts hw swb p pkts 32 w1"
    "rx_ready p a e1 r1 pkts w1" "mbufs w1 = mbufs w" "running e1" "desc_used e1 = of_nat u" "port_id e1 = port_id e"
  proof (cases "running e")
    case True
    with assms(1,2) show ?thesis by (intro that [of w e r]) simp_all
  next
    case False
    with assms(2) have "desc_used e = 0" "u = 0" by simp_all
    with recv_starts [OF assms(1) False _ assms(3), of hw swb] that show ?thesis by fastforce
  qed
  have small: "unat (of_nat u :: u32) = u" "unat (of_nat c :: u32) = c"
    using assms(4,5) by (simp_all add: unsigned_of_nat take_bit_nat_eq_self)
  have c: "desc_used e1 \<le> (of_nat c :: u32)" "(of_nat c :: u32) \<le> 32" "unat (of_nat c :: u32) < length pkts"
    "(of_nat c :: u32) \<noteq> ucast (32 :: u16)"
    using assms(3-5) w1(5) small by (auto simp: word_le_nat_alt word_unat_eq_iff)
  from recv_some [OF w1(2,4), unfolded w1(5), OF poll(1) poll(2) [symmetric], of swb 32] c obtain n w' e' r' where
    res: "xdma_recv_pkts hw swb p pkts 32 w1 = Inr (n, pkts, w')" "unat n = c - u"
    "\<forall>i. u \<le> i \<and> i < c \<longrightarrow> mbufs w' (pkts ! i) = Some (packet_of (snd (swb i)) (port_id e1) (the (mbufs w1 (pkts ! i))))"
    "\<forall>mb. mb \<notin> (!) pkts ` {u..<c} \<longrightarrow> mbufs w' mb = mbufs w1 mb"
    "rx_ready p a e' r' pkts w'" "port_id e' = port_id e1" "running e'" "desc_used e' = of_nat c"
    unfolding w1(5) small by auto
  have "n = of_nat (c - u)" using res(2) by (metis of_nat_unat ucast_id)
  with res w1 show ?thesis by (intro exI [of _ w'] exI [of _ e'] exI [of _ r']) simp
qed

lemma relay_receive:
  assumes at: "relay_at R T a b v pkts port u w" and "u < c" and "c < 32"
    and poll: "rx_poll hw (of_nat u) (Suc RX_RETRY) 0 = Some t" "hw (2 * t) = of_nat c"
  shows "\<exists>w'. xdma_recv_pkts hw swb (q_addr R) pkts 32 w = Inr (of_nat (c - u), pkts, w') \<and>
    relay_at R T a b v pkts port c w' \<and>
    (\<forall>i < 32. mbufs w' (pkts ! i) = (if u \<le> i \<and> i < c
       then Some (packet_of (snd (swb i)) port (the (mbufs w (pkts ! i)))) else mbufs w (pkts ! i)))"
proof -
  note at' = at [unfolded relay_at_def]
  then obtain e r where e: "rx_ready (q_addr R) a e r pkts w" "port_id e = port"
    "if running e then desc_used e = of_nat u else u = 0 \<and> desc_used e = 0" by blast
  have len: "length pkts = 32" and dist: "distinct pkts" using at' e(1) by (auto simp: rx_ready_def mbufs_ok_def)
  from recv_from [OF e(1,3) len assms(2,3) poll, of swb] obtain w' e' r' where
    w': "xdma_recv_pkts hw swb (q_addr R) pkts 32 w = Inr (of_nat (c - u), pkts, w')"
    "\<forall>i. u \<le> i \<and> i < c \<longrightarrow> mbufs w' (pkts ! i) = Some (packet_of (snd (swb i)) port (the (mbufs w (pkts ! i))))"
    "\<forall>mb. mb \<notin> (!) pkts ` {u..<c} \<longrightarrow> mbufs w' mb = mbufs w mb"
    and e': "rx_ready (q_addr R) a e' r' pkts w'" "port_id e' = port" "running e'" "desc_used e' = of_nat c"
    unfolding e(2) by blast
  have "burst_fits R (Receive hw swb pkts 32)" "do_burst (q_addr R) (Receive hw swb pkts 32) w = Inr (of_nat (c - u), pkts, w')"
    using at' w'(1) by simp_all
  from do_burst_step [OF relay_views(1) [OF at] this] have t: "outside_same R w w'" "same_view R w' w'"
    by (auto simp: tracks_def dest: same_view_self)
  then have geo: "same_geometry (q_engine R) e'" using e'(1) by (auto simp: same_view_def rx_ready_def engine_at_def)
  have T: "same_view T w' w" using same_view_other [OF t(1) _ relay_views(2) [OF at]] at' by blast
  have mb: "mbufs w' (pkts ! i) = (if u \<le> i \<and> i < c
       then Some (packet_of (snd (swb i)) port (the (mbufs w (pkts ! i)))) else mbufs w (pkts ! i))" if "i < 32" for i
  proof (cases "u \<le> i \<and> i < c")
    case True
    then show ?thesis using w'(2) by simp
  next
    case False
    then have "pkts ! i \<notin> (!) pkts ` {u..<c}"
      using that assms(3) dist len by (auto simp: nth_eq_iff_index_eq)
    then show ?thesis using w'(3) False by auto
  qed
  have "single_seg (mbufs w') (pkts ! i)" if "i < 32" for i
    using mb [OF that] at' that len nth_mem [of i pkts] by (auto simp: single_seg_def)
  then have "\<forall>mb \<in> set pkts. single_seg (mbufs w') mb" using len by (auto simp: in_set_conv_nth)
  moreover have "\<exists>e. engines w' (q_addr T) = Some e \<and> same_geometry (q_engine T) e" using T by (auto simp: same_view_def)
  ultimately have "relay_at R T a b v pkts port c w'"
    using at' e' geo tx_idle_view [OF T] outside_apart [OF t(1)] unfolding relay_at_def by auto
  with w'(1) mb show ?thesis by blast
qed

section \<open>Sending\<close>

lemma relay_transmit:
  assumes at: "relay_at R T a b v pkts port u w" and n: "i + n \<le> 32" and hw: "hw k AND 0xFFFFFF = of_nat n"
  shows "\<exists>w'. xdma_xmit_pkts hw (q_addr T) (drop i pkts) (of_nat n) w = Inr (of_nat n, w') \<and>
    relay_at R T a b v pkts port u w' \<and> mbufs w' = mbufs w"
proof -
  note at' = at [unfolded relay_at_def]
  obtain e r where e: "rx_ready (q_addr R) a e r pkts w" using at' by blast
  have "\<forall>mb \<in> set (drop i pkts). pkt_ok (mbufs w) mb"
    using at' e by (auto simp: rx_ready_def mbufs_ok_def intro!: single_seg_pkt_ok dest: in_set_dropD)
  moreover have small: "unat (of_nat n :: u16) = n" using n by (simp add: unsigned_of_nat take_bit_nat_eq_self)
  then have "unat (of_nat n :: u16) \<le> length (drop i pkts)" using at' n by simp
  moreover have "hw k AND 0xFFFFFF = ucast (of_nat n :: u16)"
    using hw small by (simp add: word_unat_eq_iff unsigned_ucast_eq unsigned_of_nat take_bit_nat_eq_self)
  ultimately obtain w' where w': "xdma_xmit_pkts hw (q_addr T) (drop i pkts) (of_nat n) w = Inr (of_nat n, w')"
    "tx_idle (q_addr T) b v w'" "mbufs w' = mbufs w"
    using tx_idle_xmit [of "q_addr T" b v w "drop i pkts"] at' by blast
  let ?T = "T\<lparr>q_mbufs := UNIV\<rparr>"
  have "same_view ?T w w" using relay_views(2) [OF at] by (simp add: same_view_def closed_mbufs_def queue_words_def)
  moreover have "burst_fits ?T (Send hw (drop i pkts) (of_nat n))" using at' by simp
  ultimately have "outside_same ?T w w'" "same_view ?T w' w'"
    using do_burst_step [of ?T w w "Send hw (drop i pkts) (of_nat n)"] w'(1) by (auto simp: tracks_def dest: same_view_self)
  then have t: "outside_same T w w'" "\<exists>e. engines w' (q_addr T) = Some e \<and> same_geometry (q_engine T) e"
    using w'(3) by (auto simp: outside_same_def same_view_def queue_words_def)
  have R: "same_view R w' w" using same_view_other [OF t(1) apart_sym relay_views(1) [OF at]] at' by blast
  moreover have "apart w' R T = apart w R T" by (rule outside_apart [OF t(1)])
  ultimately have "relay_at R T a b v pkts port u w'"
    using at' w'(2,3) t(2) rx_ready_view [OF R] unfolding relay_at_def by metis
  with w' show ?thesis by blast
qed

section \<open>Rounds of a forwarder\<close>

text \<open>
  What the hardware reports during \<open>m\<close> rounds: in round \<open>k\<close> the receiving engine is seen to move
  from \<open>c k\<close> completed slots to \<open>c (k + 1)\<close>, the stream words of these slots give the lengths \<open>L\<close>, and
  the sending engine at some time reports the number of packets handed to it.
\<close>

definition counts_ok :: "(nat \<Rightarrow> nat \<Rightarrow> u32) \<Rightarrow> (nat \<Rightarrow> nat \<Rightarrow> u32 \<times> u32) \<Rightarrow> (nat \<Rightarrow> nat \<Rightarrow> u32) \<Rightarrow> (nat \<Rightarrow> nat)
    \<Rightarrow> (nat \<Rightarrow> u32) \<Rightarrow> nat \<Rightarrow> bool" where
  "counts_ok hr swb ht c L m \<longleftrightarrow> c 0 = 0 \<and> c m < 32 \<and>
     (\<forall>k < m. c k < c (Suc k) \<and>
        (\<exists>t. rx_poll (hr k) (of_nat (c k)) (Suc RX_RETRY) 0 = Some t \<and> hr k (2 * t) = of_nat (c (Suc k))) \<and>
        (\<exists>j. ht k j AND 0xFFFFFF = of_nat (c (Suc k) - c k)) \<and>
        (\<forall>i. c k \<le> i \<and> i < c (Suc k) \<longrightarrow> snd (swb k i) = L i))"

lemma counts_mono:
  assumes "counts_ok hr swb ht c L m" and "k \<le> m"
  shows "c k \<le> c m"
  using assms(2)
proof (induction rule: inc_induct)
  case (step n)
  then have "c n < c (Suc n)" using assms(1) by (simp add: counts_ok_def)
  with step show ?case by simp
qed simp

lemma counts_less: "counts_ok hr swb ht c L (Suc m) \<Longrightarrow> counts_ok hr swb ht c L m"
  using counts_mono [of hr swb ht c L "Suc m" m] by (simp add: counts_ok_def)

text \<open>The packet that was received in slot \<open>i\<close>: the buffer and its contents.\<close>

definition delivered :: "u64 list \<Rightarrow> u32 \<Rightarrow> (u64 \<rightharpoonup> rte_mbuf) \<Rightarrow> (nat \<Rightarrow> u32) \<Rightarrow> nat \<Rightarrow> u64 \<times> rte_mbuf" where
  "delivered pkts port m L i = (pkts ! i, packet_of (L i) port (the (m (pkts ! i))))"

definition relay_state :: "queue \<Rightarrow> queue \<Rightarrow> u64 \<Rightarrow> u64 \<Rightarrow> (u64 \<Rightarrow> u64) \<Rightarrow> u64 list \<Rightarrow> u32 \<Rightarrow> (u64 \<rightharpoonup> rte_mbuf)
    \<Rightarrow> (nat \<Rightarrow> u32) \<Rightarrow> nat \<Rightarrow> relay fwd \<Rightarrow> bool" where
  "relay_state R T a b v pkts port m0 L u st \<longleftrightarrow>
     relay_at R T a b v pkts port u (relay_mem (fw_dev st)) \<and> fw_pkts st = pkts \<and>
     (\<forall>i < 32. mbufs (relay_mem (fw_dev st)) (pkts ! i) =
        (if i < u then Some (packet_of (L i) port (the (m0 (pkts ! i)))) else m0 (pkts ! i)))"

lemma relay_state_cong:
  "fw_dev st' = fw_dev st \<Longrightarrow> fw_pkts st' = fw_pkts st \<Longrightarrow>
   relay_state R T a b v pkts port m0 L u st' = relay_state R T a b v pkts port m0 L u st"
  by (simp add: relay_state_def)

lemma relay_receive_round:
  assumes st: "relay_state R T a b v pkts port m0 L (c k) st" and ok: "counts_ok hr swb ht c L m" and k: "k < m"
    and "bursts_in (fw_dev st) = k"
  shows "\<exists>d. receive (relay_io hr swb ht (q_addr R) (q_addr T) mbyte) ta st = Inr (of_nat (c (Suc k) - c k), st\<lparr>fw_dev := d\<rparr>) \<and>
    relay_state R T a b v pkts port m0 L (c (Suc k)) (st\<lparr>fw_dev := d\<rparr>) \<and>
    bursts_in d = Suc k \<and> handed d = handed (fw_dev st)"
proof -
  let ?w = "relay_mem (fw_dev st)"
  have c: "c k < c (Suc k)" "c (Suc k) < 32" "\<forall>i. c k \<le> i \<and> i < c (Suc k) \<longrightarrow> snd (swb k i) = L i"
    using ok k counts_mono [OF ok, of "Suc k"] by (simp_all add: counts_ok_def)
  obtain t where t: "rx_poll (hr k) (of_nat (c k)) (Suc RX_RETRY) 0 = Some t" "hr k (2 * t) = of_nat (c (Suc k))"
    using ok k unfolding counts_ok_def by blast
  note st' = st [unfolded relay_state_def]
  then obtain w' where w': "xdma_recv_pkts (hr k) (swb k) (q_addr R) pkts 32 ?w = Inr (of_nat (c (Suc k) - c k), pkts, w')"
    "relay_at R T a b v pkts port (c (Suc k)) w'"
    "\<forall>i < 32. mbufs w' (pkts ! i) = (if c k \<le> i \<and> i < c (Suc k)
       then Some (packet_of (snd (swb k i)) port (the (mbufs ?w (pkts ! i)))) else mbufs ?w (pkts ! i))"
    using relay_receive [OF _ c(1,2) t, of R T a b v pkts port ?w "swb k"] by blast
  let ?d = "(fw_dev st)\<lparr>bursts_in := Suc k, relay_mem := w'\<rparr>"
  have "mbufs w' (pkts ! i) = (if i < c (Suc k) then Some (packet_of (L i) port (the (m0 (pkts ! i)))) else m0 (pkts ! i))"
    if "i < 32" for i
    using w'(3) st' that c(1,3) by auto
  then have "relay_state R T a b v pkts port m0 L (c (Suc k)) (st\<lparr>fw_dev := ?d\<rparr>)"
    using w'(2) st' by (simp add: relay_state_def)
  moreover have "receive (relay_io hr swb ht (q_addr R) (q_addr T) mbyte) ta st = Inr (of_nat (c (Suc k) - c k), st\<lparr>fw_dev := ?d\<rparr>)"
    using w'(1) st' assms(4) by (simp add: receive_def relay_io_def SIZE_OF_PKTS_BUFFER_def)
  ultimately show ?thesis by (intro exI [of _ ?d]) simp
qed

lemma relay_transmit_round:
  assumes st: "relay_state R T a b v pkts port m0 L u st" and n: "fw_idx st + n \<le> u" and u: "u < 32"
    and hw: "ht k j AND 0xFFFFFF = of_nat n" and "bursts_in (fw_dev st) = Suc k"
  shows "\<exists>d. transmit (relay_io hr swb ht (q_addr R) (q_addr T) mbyte) ta (of_nat n) st = Inr (of_nat n, st\<lparr>fw_dev := d\<rparr>) \<and>
    relay_state R T a b v pkts port m0 L u (st\<lparr>fw_dev := d\<rparr>) \<and> bursts_in d = Suc k \<and>
    handed d = handed (fw_dev st) @ map (delivered pkts port m0 L) [fw_idx st..<fw_idx st + n]"
proof -
  let ?w = "relay_mem (fw_dev st)" and ?i = "fw_idx st"
  note st' = st [unfolded relay_state_def]
  have len: "length pkts = 32" using st' by (simp add: relay_at_def)
  obtain w' where w': "xdma_xmit_pkts (ht k) (q_addr T) (drop ?i pkts) (of_nat n) ?w = Inr (of_nat n, w')"
    "relay_at R T a b v pkts port u w'" "mbufs w' = mbufs ?w"
    using relay_transmit [of R T a b v pkts port u ?w ?i n "ht k" j] st' n u hw by auto
  have small: "unat (of_nat n :: u16) = n" using n u by (simp add: unsigned_of_nat take_bit_nat_eq_self)
  have "map (\<lambda>mb. (mb, the (mbufs ?w mb))) (take n (drop ?i pkts)) = map (delivered pkts port m0 L) [?i..<?i + n]"
    using n u len st' by (intro nth_equalityI) (auto simp: delivered_def)
  then show ?thesis
    using w' st' small assms(5)
    by (intro exI [of _ "(fw_dev st)\<lparr>handed := handed (fw_dev st) @ map (delivered pkts port m0 L) [?i..<?i + n], relay_mem := w'\<rparr>"])
       (simp add: transmit_def relay_io_def relay_state_def del: map_append)
qed

lemma relay_passes:
  assumes "relay_state R T a b v pkts port m0 L u st" and "\<forall>mb \<in> set pkts. passes m0 mbyte mb"
  shows "\<forall>mb \<in> set (fw_pkts st). passes (mbufs (relay_mem (fw_dev st))) mbyte mb"
proof
  note st = assms(1) [unfolded relay_state_def]
  fix mb assume "mb \<in> set (fw_pkts st)"
  then obtain i where i: "mb = pkts ! i" "i < 32" "mb \<in> set pkts" using st by (auto simp: in_set_conv_nth relay_at_def)
  with assms(2) have "passes m0 mbyte mb" by simp
  then show "passes (mbufs (relay_mem (fw_dev st))) mbyte mb"
    using st i by (cases "i < u") (auto simp: passes_def packet_of_def)
qed

definition relay_start :: "world \<Rightarrow> relay" where
  "relay_start w = \<lparr>bursts_in = 0, handed = [], relay_mem = w\<rparr>"

lemma relay_state_start:
  "relay_at R T a b v (arg_pkts ta) port 0 w \<Longrightarrow>
   relay_state R T a b v (arg_pkts ta) port (mbufs w) L 0 (fwd_start ta (relay_start w))"
  by (simp add: relay_state_def fwd_start_def relay_start_def)

lemma of_nat_u16: "n < 32 \<Longrightarrow> unat (of_nat n :: u16) = n \<and> uint (of_nat n :: u16) = int n \<and> ((of_nat n :: u16) > 0 \<longleftrightarrow> 0 < n)"
  by (simp add: unsigned_of_nat take_bit_nat_eq_self word_greater_zero_iff word_unat_eq_iff uint_nat)

lemma count_relay_round:
  assumes st: "relay_state R T a b v pkts port m0 L (c k) st" and ok: "counts_ok hr swb ht c L m" and k: "k < m"
    and pass: "\<forall>mb \<in> set pkts. passes m0 mbyte mb"
    and loc: "bursts_in (fw_dev st) = k" "fw_idx st = c k"
  shows "\<exists>d. count_round (relay_io hr swb ht (q_addr R) (q_addr T) mbyte) ta st = Inr (st\<lparr>fw_dev := d,
      fw_idx := c (Suc k), recv_pkts := recv_pkts st + int (c (Suc k) - c k), recv_batch := recv_batch st + 1,
      xmit_pkts := xmit_pkts st + int (c (Suc k) - c k), xmit_batch := xmit_batch st + 1\<rparr>) \<and>
    relay_state R T a b v pkts port m0 L (c (Suc k)) (st\<lparr>fw_dev := d\<rparr>) \<and> bursts_in d = Suc k \<and>
    handed d = handed (fw_dev st) @ map (delivered pkts port m0 L) [c k..<c (Suc k)]"
proof -
  let ?io = "relay_io hr swb ht (q_addr R) (q_addr T) mbyte" and ?n = "c (Suc k) - c k"
  have c: "c k < c (Suc k)" "c (Suc k) < 32" using ok k counts_mono [OF ok, of "Suc k"] by (simp_all add: counts_ok_def)
  obtain j where j: "ht k j AND 0xFFFFFF = of_nat ?n" using ok k unfolding counts_ok_def by blast
  have n: "unat (of_nat ?n :: u16) = ?n" "uint (of_nat ?n :: u16) = int ?n" "(of_nat ?n :: u16) > 0"
    using of_nat_u16 [of ?n] c by simp_all
  from relay_receive_round [OF st ok k loc(1), of mbyte ta] obtain d where
    d: "receive ?io ta st = Inr (of_nat ?n, st\<lparr>fw_dev := d\<rparr>)"
    "relay_state R T a b v pkts port m0 L (c (Suc k)) (st\<lparr>fw_dev := d\<rparr>)" "bursts_in d = Suc k"
    "handed d = handed (fw_dev st)" by blast
  have "\<forall>mb \<in> set (fw_pkts (st\<lparr>fw_dev := d\<rparr>)). passes (io_mbufs ?io (fw_dev (st\<lparr>fw_dev := d\<rparr>)))
      (io_byte ?io (fw_dev (st\<lparr>fw_dev := d\<rparr>))) mb"
    using relay_passes [OF d(2) pass] by (simp add: relay_io_def)
  moreover have "length (fw_pkts st) = 32" using st by (simp add: relay_state_def relay_at_def)
  ultimately have test: "for_loop (c k) ?n (test_bit ?io (st\<lparr>fw_dev := d\<rparr>)) () = Inr ()"
    using c by (intro test_loop(1)) simp_all
  let ?st = "st\<lparr>fw_dev := d, recv_pkts := recv_pkts st + int ?n, recv_batch := recv_batch st + 1\<rparr>"
  have mid: "relay_state R T a b v pkts port m0 L (c (Suc k)) ?st"
    using d(2) relay_state_cong [of ?st "st\<lparr>fw_dev := d\<rparr>"] by simp
  obtain d' where d': "transmit ?io ta (of_nat ?n) ?st = Inr (of_nat ?n, ?st\<lparr>fw_dev := d'\<rparr>)"
    "relay_state R T a b v pkts port m0 L (c (Suc k)) (?st\<lparr>fw_dev := d'\<rparr>)" "bursts_in d' = Suc k"
    "handed d' = handed (fw_dev st) @ map (delivered pkts port m0 L) [c k..<c (Suc k)]"
    using relay_transmit_round [where ht = ht and k = k and j = j and n = ?n and hr = hr and swb = swb and mbyte = mbyte
        and ta = ta, OF mid _ c(2) j] c(1) loc(2) d(3,4) by auto
  have idx: "(c k + ?n) mod 32 = c (Suc k)" using c by simp
  have "relay_state R T a b v pkts port m0 L (c (Suc k)) (st\<lparr>fw_dev := d'\<rparr>)"
    using d'(2) relay_state_cong [of "st\<lparr>fw_dev := d'\<rparr>" "?st\<lparr>fw_dev := d'\<rparr>"] by simp
  with d d' test n idx show ?thesis
    by (intro exI [of _ d']) (simp add: count_round_def loc Let_def SIZE_OF_PKTS_BUFFER_def)
qed

lemma inter_relay_round:
  assumes st: "relay_state R T a b v pkts port m0 L (c k) st" and ok: "counts_ok hr swb ht c L m" and k: "k < m"
    and loc: "bursts_in (fw_dev st) = k" "fw_idx st = 0"
  shows "\<exists>d. inter_round (relay_io hr swb ht (q_addr R) (q_addr T) mbyte) ta st = Inr (st\<lparr>fw_dev := d,
      recv_pkts := recv_pkts st + int (c (Suc k) - c k), recv_batch := recv_batch st + 1,
      xmit_pkts := xmit_pkts st + int (c (Suc k) - c k), xmit_batch := xmit_batch st + 1\<rparr>) \<and>
    relay_state R T a b v pkts port m0 L (c (Suc k)) (st\<lparr>fw_dev := d\<rparr>) \<and> bursts_in d = Suc k \<and>
    handed d = handed (fw_dev st) @ map (delivered pkts port m0 L) [0..<c (Suc k) - c k]"
proof -
  let ?io = "relay_io hr swb ht (q_addr R) (q_addr T) mbyte" and ?n = "c (Suc k) - c k"
  have c: "c k < c (Suc k)" "c (Suc k) < 32" using ok k counts_mono [OF ok, of "Suc k"] by (simp_all add: counts_ok_def)
  obtain j where j: "ht k j AND 0xFFFFFF = of_nat ?n" using ok k unfolding counts_ok_def by blast
  have n: "uint (of_nat ?n :: u16) = int ?n" "(of_nat ?n :: u16) > 0" using of_nat_u16 [of ?n] c by simp_all
  from relay_receive_round [OF st ok k loc(1), of mbyte ta] obtain d where
    d: "receive ?io ta st = Inr (of_nat ?n, st\<lparr>fw_dev := d\<rparr>)"
    "relay_state R T a b v pkts port m0 L (c (Suc k)) (st\<lparr>fw_dev := d\<rparr>)" "bursts_in d = Suc k"
    "handed d = handed (fw_dev st)" by blast
  let ?st = "st\<lparr>fw_dev := d, recv_pkts := recv_pkts st + int ?n, recv_batch := recv_batch st + 1\<rparr>"
  have mid: "relay_state R T a b v pkts port m0 L (c (Suc k)) ?st"
    using d(2) relay_state_cong [of ?st "st\<lparr>fw_dev := d\<rparr>"] by simp
  obtain d' where d': "transmit ?io ta (of_nat ?n) ?st = Inr (of_nat ?n, ?st\<lparr>fw_dev := d'\<rparr>)"
    "relay_state R T a b v pkts port m0 L (c (Suc k)) (?st\<lparr>fw_dev := d'\<rparr>)" "bursts_in d' = Suc k"
    "handed d' = handed (fw_dev st) @ map (delivered pkts port m0 L) [0..<?n]"
    using relay_transmit_round [where ht = ht and k = k and j = j and n = ?n and hr = hr and swb = swb and mbyte = mbyte
        and ta = ta, OF mid _ c(2) j] c(1) loc(2) d(3,4) by auto
  have "relay_state R T a b v pkts port m0 L (c (Suc k)) (st\<lparr>fw_dev := d'\<rparr>)"
    using d'(2) relay_state_cong [of "st\<lparr>fw_dev := d'\<rparr>" "?st\<lparr>fw_dev := d'\<rparr>"] by simp
  with d d' n show ?thesis
    by (intro exI [of _ d']) (simp add: inter_round_def Let_def)
qed

section \<open>Properties\<close>


text \<open>
  C25. The interleaving forwarder over the driver on both sides counts correctly, but hands over the wrong
  buffers: in every round it sends as many buffers as the call has delivered from the front of its
  array, although the driver has put the new packets behind those of the earlier calls.  So packets
  are sent more than once, and others not at all.
\<close>

theorem inter_relays_front:
  assumes "relay_at R T a b v (arg_pkts ta) port 0 w" and "counts_ok hr swb ht c L m"
  shows "\<exists>st. repeat_body (inter_round (relay_io hr swb ht (q_addr R) (q_addr T) mbyte) ta) m (fwd_start ta (relay_start w)) = Inr st \<and>
    handed (fw_dev st) = concat (map (\<lambda>k. map (\<lambda>i. (arg_pkts ta ! i, packet_of (L i) port (the (mbufs w (arg_pkts ta ! i)))))
      [0..<c (Suc k) - c k]) [0..<m]) \<and>
    recv_pkts st = int (c m) \<and> xmit_pkts st = int (c m)"
proof -
  let ?body = "inter_round (relay_io hr swb ht (q_addr R) (q_addr T) mbyte) ta"
  let ?sent = "\<lambda>k. map (delivered (arg_pkts ta) port (mbufs w) L) [0..<c (Suc k) - c k]"
  have "\<exists>st. repeat_body ?body m (fwd_start ta (relay_start w)) = Inr st \<and>
      relay_state R T a b v (arg_pkts ta) port (mbufs w) L (c m) st \<and> bursts_in (fw_dev st) = m \<and> fw_idx st = 0 \<and>
      recv_pkts st = int (c m) \<and> xmit_pkts st = int (c m) \<and> handed (fw_dev st) = concat (map ?sent [0..<m])"
    using assms(2)
  proof (induction m)
    case 0
    then show ?case
      using relay_state_start [OF assms(1)] by (simp add: counts_ok_def) (simp add: fwd_start_def relay_start_def)
  next
    case (Suc m)
    then obtain st where st: "repeat_body ?body m (fwd_start ta (relay_start w)) = Inr st"
      "relay_state R T a b v (arg_pkts ta) port (mbufs w) L (c m) st" "bursts_in (fw_dev st) = m" "fw_idx st = 0"
      "recv_pkts st = int (c m)" "xmit_pkts st = int (c m)" "handed (fw_dev st) = concat (map ?sent [0..<m])"
      using counts_less [OF Suc.prems] by blast
    have c: "c m < c (Suc m)" using Suc.prems by (simp add: counts_ok_def)
    from inter_relay_round [OF st(2) Suc.prems lessI st(3,4), of mbyte ta] obtain d where
      d: "?body st = Inr (st\<lparr>fw_dev := d, recv_pkts := recv_pkts st + int (c (Suc m) - c m),
         recv_batch := recv_batch st + 1, xmit_pkts := xmit_pkts st + int (c (Suc m) - c m), xmit_batch := xmit_batch st + 1\<rparr>)"
      "relay_state R T a b v (arg_pkts ta) port (mbufs w) L (c (Suc m)) (st\<lparr>fw_dev := d\<rparr>)" "bursts_in d = Suc m"
      "handed d = handed (fw_dev st) @ ?sent m" by blast
    with st c show ?case
      by (simp add: repeat_body_Suc relay_state_def del: repeat_body.simps)
  qed
  then show ?thesis by (auto simp: delivered_def [abs_def])
qed

end
