(* ===== verification/Witnesses_Relay.thy ===== *)
theory Witnesses_Relay
  imports Witnesses_Isolation App_Relay
begin

text \<open>
  The forwarders between the two queues of \<open>Witnesses_Isolation\<close>, with an array of 32 buffers of
  which two are completed in a first and three in a second call.
\<close>

definition ex_bufs :: "u64 list" where "ex_bufs = map (\<lambda>i. 0x5000 + 0x100 * of_nat i) [0..<32]"

definition ex_relay_world :: world where
  "ex_relay_world = ex_two\<lparr>mbufs := (\<lambda>_. Some (ex_mbuf 0x6000))\<rparr>"

definition ex_relay_args :: thread_args where
  "ex_relay_args = \<lparr>src_port_id = 0, src_queue_id = 0, dst_port_id = 1, dst_queue_id = 0, arg_pkts = ex_bufs\<rparr>"

definition ex_counts :: "nat \<Rightarrow> nat" where "ex_counts k = (if k = 0 then 0 else if k = 1 then 2 else 5)"

definition ex_io :: "relay burst_io" where
  "ex_io = relay_io (\<lambda>k _. of_nat (ex_counts (Suc k))) (\<lambda>_ i. (0, of_nat (60 + i))) (\<lambda>_. of_nat) 0x380 0x300 (\<lambda>_. 0)"

abbreviation "ex_R \<equiv> ex_rxq\<lparr>q_mbufs := set ex_bufs\<rparr>"
abbreviation "ex_T \<equiv> ex_txq\<lparr>q_mbufs := {}\<rparr>"

lemma ex_bufs_distinct: "distinct ex_bufs" "0 \<notin> set ex_bufs" "length ex_bufs = 32"
proof -
  show "length ex_bufs = 32" by (simp add: ex_bufs_def)
  show "distinct ex_bufs" "0 \<notin> set ex_bufs" unfolding ex_bufs_def by code_simp+
qed

lemma ex_relay_sel [simp]: "mbufs ex_relay_world = (\<lambda>_. Some (ex_mbuf 0x6000))"
  "xdevs ex_relay_world = xdevs ex_two" "hw_tables ex_relay_world = hw_tables ex_two" "engines ex_relay_world = engines ex_two"
  "rings ex_relay_world = rings ex_two" "words ex_relay_world = words ex_two"
  by (simp_all add: ex_relay_world_def)

lemma ex_relay_engines:
  "engine_at 0x300 0xA0000000 (ex_engine H2C) ex_ring ex_relay_world" "engine_at 0x380 0xA0000000 ex_rx ex_ring ex_relay_world"
  using ex_two_engines by (simp_all add: engine_at_def bar_mapped_def bar_base_def hw_access_of_def)

lemma ex_relay_at: "relay_at ex_R ex_T 0xA0000000 0xA0000000 (\<lambda>a. a) ex_bufs 0 0 ex_relay_world"
proof -
  have apart: "apart ex_relay_world ex_R ex_T"
    using ex_apart(2) by (auto simp: apart_def queue_words_def ring_bytes_def queue_regs_def bar_base_def)
  have "rx_ready 0x380 0xA0000000 ex_rx ex_ring ex_bufs ex_relay_world"
    using ex_relay_engines(2) ex_bufs_distinct(1,2) by (auto simp: rx_ready_def stream_mapped_def mbufs_ok_def)
  moreover have "port_id ex_rx = 0" by (simp add: ex_rx_def ex_engine_def zero_engine_def)
  ultimately have rx: "\<exists>e r. rx_ready (q_addr ex_R) 0xA0000000 e r ex_bufs ex_relay_world \<and> same_geometry (q_engine ex_R) e \<and>
      port_id e = 0 \<and> (if running e then desc_used e = of_nat 0 else (0 :: nat) = 0 \<and> desc_used e = 0)"
    by (intro exI [of _ ex_rx] exI [of _ ex_ring]) (simp add: ex_rxq_def same_geometry_def)
  have tx: "tx_idle 0x300 0xA0000000 (\<lambda>a. a) ex_relay_world"
    using ex_relay_engines(1) ex_ring_props
    unfolding tx_idle_def by (intro exI [of _ "ex_engine H2C"] exI [of _ ex_ring]) simp
  have "\<forall>mb \<in> set ex_bufs. single_seg (mbufs ex_relay_world) mb" by (simp add: single_seg_def ex_mbuf_def)
  with apart rx tx ex_bufs_distinct(3) show ?thesis
    unfolding relay_at_def by (simp add: ex_rxq_def ex_txq_def same_geometry_def)
qed

lemma ex_counts_ok: "counts_ok (\<lambda>k _. of_nat (ex_counts (Suc k))) (\<lambda>_ i. (0, of_nat (60 + i))) (\<lambda>_. of_nat) ex_counts (\<lambda>i. of_nat (60 + i)) 2"
proof -
  have "rx_poll (\<lambda>_. x) y (Suc RX_RETRY) 0 = Some 0" if "x \<noteq> y" for x y
    using that by (simp add: rx_poll.simps)
  moreover have "(of_nat (ex_counts (Suc k)) :: u32) \<noteq> of_nat (ex_counts k)" if "k < 2" for k
    using that by (cases k) (simp_all add: ex_counts_def)
  ultimately have "rx_poll (\<lambda>_. of_nat (ex_counts (Suc k))) (of_nat (ex_counts k)) (Suc RX_RETRY) 0 = Some 0" if "k < 2" for k
    using that by blast
  moreover have "\<exists>j :: nat. of_nat j AND (0xFFFFFF :: u32) = of_nat (ex_counts (Suc k) - ex_counts k)" if "k < 2" for k
    using that by (intro exI [of _ "ex_counts (Suc k) - ex_counts k"]) (auto simp: ex_counts_def less_Suc_eq numeral_2_eq_2)
  ultimately show ?thesis by (auto simp: counts_ok_def) (auto simp: ex_counts_def)
qed


theorem inter_relays_front_witness:
  "\<exists>st. repeat_body (inter_round ex_io ex_relay_args) 2 (fwd_start ex_relay_args (relay_start ex_relay_world)) = Inr st \<and>
     map fst (handed (fw_dev st)) = [0x5000, 0x5100, 0x5000, 0x5100, 0x5200] \<and> recv_pkts st = 5"
proof -
  have args: "arg_pkts ex_relay_args = ex_bufs" "q_addr ex_R = 0x380" "q_addr ex_T = 0x300"
    by (simp_all add: ex_relay_args_def ex_rxq_def ex_txq_def)
  have bufs: "ex_bufs ! 0 = 0x5000" "ex_bufs ! Suc 0 = 0x5100" "ex_bufs ! 2 = 0x5200" by (simp_all add: ex_bufs_def)
  have c: "ex_counts 0 = 0" "ex_counts (Suc 0) = 2" "ex_counts (Suc (Suc 0)) = 5" "ex_counts 2 = 5"
    by (simp_all add: ex_counts_def)
  have u: "[0..<2] = [0, 1 :: nat]" "[0..<3] = [0, 1, 2 :: nat]" by (simp_all add: upt_rec)
  show ?thesis
    using inter_relays_front [where ta = ex_relay_args, OF _ ex_counts_ok, of ex_R ex_T "0xA0000000" "0xA0000000" "\<lambda>a. a" 0
        ex_relay_world "\<lambda>_. 0"] ex_relay_at
    by (auto simp: ex_io_def args u c bufs)
qed

end
