(* ===== verification/Spec2Isabelle.thy ===== *)
theory Spec2Isabelle
  imports Witnesses_Path Witnesses_Lifetime Witnesses_Stats Witnesses_Relay
begin

text \<open>
  A model of the XDMA poll mode driver for DPDK (\<open>src/drivers/net/xdma\<close>), of the two test
  applications that drive it (\<open>src/examples/xdma_testapp\<close>), and the theorems that make them
  correct.

  THE PROGRAM.  The driver lets a DPDK application send and receive packets through the DMA
  engines of a Xilinx XDMA core on a PCIe card.  A transmit or receive queue is one engine
  (\<open>struct xdma_engine\<close>) with a ring of 32 descriptors in a memzone and, behind it, the word
  into which the card writes the number of completed descriptors.  The components, bottom up:

  \<^item> register access and the BAR loader, \<open>xdma_platform.c\<close> (theory \<open>Platform\<close>);
  \<^item> the descriptor ring, the first functions of \<open>xdma_access_common.c\<close> and of \<open>xdma_rxtx.c\<close>
    (\<open>Desc_Ring\<close>);
  \<^item> starting and stopping an engine and the function table through which the packet paths
    reach it, \<open>xdma_access_common.c\<close> (\<open>Engine\<close>); the register structures of \<open>xdma.h\<close> as tables of
    fields, to which its writes are compared (\<open>Regs\<close>); queue setup (\<open>Engine_Setup\<close>);
  \<^item> sending and receiving bursts, \<open>xdma_rxtx.c\<close> (\<open>Tx\<close>, \<open>Rx\<close> hold the operations and their
    symbolic execution, \<open>Tx_Correct\<close>, \<open>Rx_Correct\<close> what they guarantee); several queues at a time
    (\<open>Isolation\<close>);
  \<^item> start, stop and close of a device with all its queues (\<open>Device\<close>);
  \<^item> probing: device arguments, BAR discovery, init and uninit, \<open>xdma_common.c\<close>,
    \<open>xdma_devops.c\<close>, \<open>xdma_ethdev.c\<close> (\<open>Probe\<close>, with the properties in \<open>Lifecycle\<close>); the whole life
    of a device, from probing to removal (\<open>Lifetime\<close>);
  \<^item> the application interface, \<open>rte_pmd_xdma.c\<close> (\<open>Pmd_Api\<close>), and the console over the user
    BAR, \<open>uart.c\<close> (\<open>Uart\<close>); \<open>Typing\<close> takes all of the driver's operations together;
  \<^item> the test applications \<open>testapp_count.c\<close> and \<open>testapp_inter.c\<close>: port management, which the
    two share (\<open>App_Ports\<close>, with its properties in \<open>App_Ports_Correct\<close>), the forwarding threads
    (\<open>App_Forward\<close>), the counting program (\<open>App_Count\<close>), the start-up handshake of the
    interleaving program (\<open>App_Sync\<close>), its traffic generator and the start of its threads
    (\<open>App_Inter\<close>), what both programs measure (\<open>App_Stats\<close>), their \<open>main\<close> functions (\<open>App_Main\<close>), and their
    forwarders over the driver on both sides (\<open>App_Relay\<close>).

  \<open>Prelude\<close> and \<open>Xdma_Types\<close> hold what they share.  \<open>Examples\<close> has a concrete device, queue
  and packets; the theories whose names begin with \<open>Witnesses\<close> apply each property to
  them.

  THE STATE.  \<open>world\<close> is the memory of the process, typed: one map from addresses to objects
  for each structure, the descriptor rings, the 32-bit words in DMA memory, the live heap
  blocks and memzones, and the trace \<open>mmio\<close> of writes to device memory.  Definitions have the
  names of the C functions.  A function returns \<open>Inr\<close> of its result and the new state, or
  \<open>Inl\<close> of a fault (NULL or dangling pointer, array access out of bounds, division by zero,
  endless loop, exit); error codes such as \<open>-EINVAL\<close> are ordinary results.  Integers keep
  their width where the code computes with them; BAR indices and queue numbers, which are only
  compared, are \<open>int\<close> or \<open>nat\<close>.  Registers are 32-bit offsets from the BAR; a channel has the two bits
  of its bit-field.

  The applications have a state of their own, \<open>app\<close>: the array \<open>pinfo\<close> of port records, and
  \<open>sys\<close>, which holds the driver's \<open>world\<close>, the fast-path table and a part \<open>rest\<close> of any type that
  only DPDK knows.  A forwarder works on a record \<open>fwd\<close> of its local variables and of the state
  of the device behind its bursts; the handshake is a step relation on counter, mutex and the
  program points of three threads, \<open>sync\<close>.

  THE ENVIRONMENT.  What is not in the repository is an argument: the record \<open>env\<close> has the
  addresses DPDK's allocator returns (0 for NULL), the address translation and the contents of
  fresh memory; \<open>kvargs\<close> is the argument parser; \<open>hw\<close>, \<open>swb\<close> and \<open>rd\<close> are the values that
  successive loads of the completion count, the stream write-back words and the device
  registers return; \<open>map_ok\<close> tells which \<open>mmap\<close> calls succeed; \<open>port_dev\<close> is the device
  table of DPDK.  Of the allocator the model uses the documented contract: \<open>rte_free\<close> and
  \<open>rte_memzone_free\<close> take a live block, which is gone afterwards, and a memzone name can be
  reserved once.

  For the applications DPDK is the record \<open>dpdk\<close>, one field per function they call; the burst
  functions are the record \<open>burst_io\<close>; \<open>clock i\<close> is the \<open>i\<close>th reading of the clock, or, where only
  the end of a loop depends on it, \<open>late\<close> a predicate on rounds; the operations on \<open>double\<close> are the
  record \<open>fops\<close>; what the threads of a program have done when all are joined is a function \<open>run\<close>; the
  register addresses of the traffic generator, defined in a header that is not in the repository,
  are the record \<open>latpkg\<close>.

  INTERFACES.  \<open>register_bus\<close> (\<open>Platform\<close>): a write to a mapped BAR appends to the trace and
  changes nothing else; both BARs provide it, and the engines program the card through it.
  \<open>slot_allocator\<close> (\<open>Desc_Ring\<close>): taking slots in turn; provided by \<open>get_desc\<close>.
  \<open>dma_engine\<close> (\<open>Engine\<close>): the contract of start and stop, over the invariant \<open>engine_at\<close>;
  provided by the transmit and by the receive functions, and used by the packet paths and
  by the device operations.  \<open>ethdev\<close> (\<open>App_Ports_Correct\<close>): what DPDK documents of stop, reset,
  removal and memory pools; its instance \<open>layer\<close> calls the driver through its table of
  operations.  \<open>tx_port\<close> (\<open>App_Forward\<close>): what a forwarder needs of a transmit burst; provided
  by \<open>xdma_xmit_pkts\<close> on an idle engine.

  WHAT IS SHOWN.  The invariant of a queue is \<open>engine_at p a e r w\<close>: the engine structure
  \<open>e\<close> at \<open>p\<close>, its ring \<open>r\<close> of \<open>desc_max\<close> descriptors, its completion word and its device are in
  place, and the configuration BAR is mapped at \<open>a\<close>.  Setup establishes it, every operation
  preserves it.  On top of it:
  the ring is a chain of linked descriptors that ends where the driver says (\<open>chain\<close>,
  \<open>linked\<close>); a burst is described by the ring exactly (\<open>xmit_prepare_describes_burst\<close>,
  \<open>recv_posts_burst\<close>); a call returns with the engine idle, or reports precisely when it does
  not return (\<open>xmit_returns_idle\<close>, \<open>xmit_hang_iff\<close>); received slots are delivered once and in
  order over any number of calls (\<open>rx_exactly_once\<close>); a transmit queue stays usable from its
  setup over any sequence of bursts (\<open>tx_queue_lifetime\<close> below); init and uninit are inverse
  on the heap and a failing init leaks nothing (\<open>Lifecycle\<close>); stop and close reach every queue
  (\<open>Device\<close>).  Whatever sequence of calls is made, every structure in memory keeps its shape
  (\<open>Typing\<close>); its proof is a small calculus: \<open>post Q m\<close> says that \<open>Q\<close> holds of the result of \<open>m\<close>,
  with one rule per operation.  The fill loops of the transmit path are equivalent to a
  declarative reference (\<open>xmit_prepare_is_reference\<close>).

  Queues that share a device, but no part of the memory, do not interfere (\<open>Isolation\<close>).  The
  proof compares two runs: \<open>tracks\<close> relates the memory of an interleaved run to that of a run of
  one queue's own bursts, every operation of both packet paths keeps it, and \<open>tandem\<close>, with one
  rule per operation, composes them.  So in any interleaving each queue sees what it sees alone
  (\<open>queues_do_not_interfere\<close>), and the interleaving returns exactly if each queue does
  (\<open>interleaving_returns_iff\<close>).  The hypothesis \<open>apart\<close> of these theorems is about the words a
  queue reads and writes; for receive queues it includes the stream write-back words, which the
  driver puts outside the queue's own zone.  \<open>Lifetime\<close> composes probing, configuration, queue
  setup, bursts, close and removal: \<open>ports_built\<close> says which heap blocks belong to which queue, and
  removal gives all of them back (\<open>device_lifetime_no_leak\<close>).  \<open>Regs\<close> shows that the register
  constants of \<open>xdma_regs.h\<close> address the fields of the structures in \<open>xdma.h\<close>
  (\<open>engine_writes_overlay_fields\<close>).

  \<open>App_Relay\<close> puts a forwarder between a receiving and a sending engine of the driver; \<open>relay_at\<close> is
  the invariant of the two.  The driver leaves received packets at the slots of the array where it was given
  the buffers; the counting forwarder looks for them there and sends each exactly once, with the length the
  card gave (\<open>count_relays_received\<close>), the interleaving one does not.

  Of the applications: bringing a port up configures it (\<open>port_init_configures\<close>), closing it
  stops the engines before their memory goes (\<open>port_close_stops_first\<close>), the forwarding loop over
  the driver ends exactly if the packet count meets its target (\<open>inter_forward_returns_iff\<close>),
  the switch never starts before both forwarders are ready (\<open>handshake_safe\<close>) and programs the
  generator as it should (\<open>switch_start_runs_generator\<close>).  Reading the clock does not change what the
  counting forwarder does (\<open>timed_forwarder_refines\<close>), it ends once its clock passes a second, with
  delays that fit into the time passed (\<open>count_clock_bounds\<close>), and the statistics of the switch
  add up (\<open>switch_report_segments\<close>); the values are those of exact arithmetic.

  Several theorems state where the code does not do what it means to: a burst that fills the
  ring never completes (\<open>xmit_full_ring_hangs\<close>), a receive burst shorter than the ring reports
  packets before there are any (\<open>recv_short_burst\<close>), a full receive array is read past its end
  (\<open>recv_prefetch_overrun\<close>), a receive queue gets stuck (\<open>recv_stuck\<close>), the stream write-back
  is outside the zone (\<open>rx_stream_wb_out_of_zone\<close> below), closing through the application
  interface leaves engines running (\<open>pmd_close_never_stops\<close>), a wake-up of the handshake can be
  lost (\<open>handshake_lost_wakeup\<close>), a busy engine makes the forwarder count packets for ever
  (\<open>inter_busy_never_returns\<close>), the interleaving forwarder sends some packets twice and others never
  (\<open>inter_relays_front\<close>), a reset of a port cannot succeed (\<open>port_reset_gives_up\<close>), and others
  next to the operation they concern.

  LOOPS.  Loops over rings, bursts, BARs and queues are structural recursion (\<open>for_loop\<close>, \<open>fun\<close>); the
  loop of the BAR loader has a measure.  Bounded waits carry the bound of the code as the
  recursion depth: 101 rounds in \<open>xdma_recv_pkts\<close> (\<open>RX_RETRY\<close>), 1001 in
  \<open>xdma_poll_rx_complete\<close> (\<open>POLL_RETRY\<close>), 1000 in \<open>uart_send\<close> (\<open>max_retry\<close>).  The waits
  without a bound, for transmit completion, of the console and for the generator, and the
  loops of the forwarders (\<open>do_until\<close> of \<open>Prelude\<close>) are partial functions into option: \<open>None\<close> is a
  call that never returns, and the theorems say when that happens.

  WHAT IS NOT MODELLED.  Memory barriers have no effect on the model, which runs in program
  order; of a prefetch it has the load of the pointer that is prefetched.  Log messages are left out, except the progress messages of the
  BAR loader, and so is what decides only about messages.  The rounding of \<open>double\<close> is not
  modelled: the definitions leave the arithmetic open, the properties take exact arithmetic.  Nor is
  the scheduling of the threads, apart from the handshake: each forwarder is a function of what its
  device does, and \<open>main\<close> takes the outcome of its threads from \<open>run\<close>.  The calls after
  \<open>rte_eal_cleanup\<close> are modelled as if DPDK were still there.  A burst is one step of the
  interleavings of \<open>Isolation\<close>.  The headers that only declare functions have no model.
\<close>

section \<open>From setup to any number of bursts\<close>

lemma built_ring_stopped: "j < 31 \<Longrightarrow> \<not> stopped (built_ring ev z ! j)"
  by (simp add: built_ring_def init_desc_spec)

text \<open>
  C1. From setup to any number of bursts: a transmit queue set up on a prepared device is an
  idle engine, and stays one, with its ring of 32 descriptors linked by the physical
  addresses of the memory it was given, over every sequence of bursts that return.
\<close>

theorem tx_queue_lifetime:
  assumes "setup_pre ev dev ''TxHwRn'' ch dat xd a w"
    and "unat ch < length (engine_h2c xd)" and "tx_queues dat = Some qs" and "unat ch < length qs"
    and "xdma_tx_engine_setup ev dev ch nb_desc w = Inr w'" and "tx_steps (alloc ev (allocs w)) w' w''"
  shows "tx_idle (alloc ev (allocs w)) a (virt2phy ev) w' \<and> tx_idle (alloc ev (allocs w)) a (virt2phy ev) w''"
proof -
  let ?z = "alloc ev (Suc (allocs w))"
  obtain e where e: "engine_at (alloc ev (allocs w)) a e (built_ring ev ?z) w'" "desc_ring e = ?z"
    "dir e = H2C" "\<not> running e" "desc_used e = 0" "desc_max e = 32"
    using tx_setup_engine [OF assms(1-4), of nb_desc] assms(5) by auto
  have "tx_idle (alloc ev (allocs w)) a (virt2phy ev) w'"
    using e built_ring_props [of ev ?z] built_ring_stopped [of _ ev ?z]
    unfolding tx_idle_def by (intro exI [of _ e] exI [of _ "built_ring ev ?z"]) simp
  then show ?thesis using tx_steps_idle [OF assms(6)] by blast
qed

text \<open>A burst of two packets on a freshly set up queue.\<close>

theorem tx_queue_lifetime_witness:
  "\<exists>w' w''. xdma_tx_engine_setup ex_env 0x400 0 64 (ex_world (ex_engine H2C)) = Inr w' \<and>
     xdma_xmit_pkts (\<lambda>k. of_nat k) 0x10000 ex_pkts 2
       (w'\<lparr>mbufs := mbufs (ex_world (ex_engine H2C))\<rparr>) = Inr (2, w'') \<and>
     tx_idle 0x10000 0xA0000000 (\<lambda>a. a) w''"
proof -
  let ?w = "ex_world (ex_engine H2C)"
  have al: "alloc ex_env (allocs ?w) = 0x10000" "virt2phy ex_env = (\<lambda>a. a)"
    by (simp_all add: ex_env_def ex_world_def empty_world_def)
  note pre = ex_setup_pre [of "''TxHwRn''" "ex_engine H2C"]
  obtain w' where w': "xdma_tx_engine_setup ex_env 0x400 0 64 ?w = Inr w'"
    using tx_setup_engine [OF pre ex_queues(1) ex_dat_sel(2), of 64] by auto
  have q: "unat (0 :: u16) < length [0x300 :: u64]" by simp
  note life = tx_queue_lifetime [OF pre ex_queues(1) ex_dat_sel(2) q w', unfolded al]
  let ?v = "w'\<lparr>mbufs := mbufs ?w\<rparr>"
  have steps: "tx_steps 0x10000 w' ?v" by (rule tx_steps.refill [OF tx_steps.none])
  have idle: "tx_idle 0x10000 0xA0000000 (\<lambda>a. a) ?v" using life [OF steps] by blast
  have ok: "\<forall>mb \<in> set ex_pkts. pkt_ok (mbufs ?v) mb" "unat (2 :: u16) \<le> length ex_pkts"
    using ex_segs by (simp_all add: ex_pkts_length)
  obtain w'' where w'': "xdma_xmit_pkts (\<lambda>k. of_nat k) 0x10000 ex_pkts 2 ?v = Inr (2, w'')"
    using tx_idle_xmit [OF idle ok, of "\<lambda>k. of_nat k" 2] by auto
  have "tx_idle 0x10000 0xA0000000 (\<lambda>a. a) w''"
    using life [OF tx_steps.burst [OF steps ok w'']] by blast
  with w' w'' show ?thesis by blast
qed

section \<open>The stream write-back of a receive queue\<close>

text \<open>
  C38. The stream write-back of a receive queue lies outside the memory of the queue: the
  descriptors tell the card to write, and the driver reads, 2080 bytes into a zone of 1036
  bytes, because the offset is computed with 64 bytes per descriptor instead of 32.
\<close>

theorem rx_stream_wb_out_of_zone:
  assumes "setup_pre ev dev ''RxHwRn'' ch dat xd a w"
    and "unat ch < length (engine_c2h xd)" and "rx_queues dat = Some qs" and "unat ch < length qs"
    and "alloc ev (Suc (Suc (allocs w))) \<noteq> alloc ev (Suc (allocs w))"
  shows "\<exists>w' e n k. xdma_rx_engine_setup ev dev ch nb_desc w = Inr w' \<and>
    engines w' (alloc ev (allocs w)) = Some e \<and> blocks w' (mz e) = Some n \<and> desc_ring e = mz e \<and>
    stream_wb_addr e = mz e + of_nat k \<and> n = 1036 \<and> k = 2080"
proof -
  obtain w' e where e: "xdma_rx_engine_setup ev dev ch nb_desc w = Inr w'"
    "engine_at (alloc ev (allocs w)) a e (built_ring ev (alloc ev (Suc (allocs w)))) w'"
    "desc_ring e = mz e" "mz e \<noteq> sw_ring e" "mz e = sw_ring e \<or> blocks w' (mz e) = Some 1036" "desc_max e = 32"
    using rx_setup_engine [OF assms(1-4), of nb_desc] assms(5) by auto
  have "stream_wb_addr e = mz e + of_nat 2080"
    by (simp add: stream_wb_addr_def e(3,6) XDMA_DESC_SIZE_def XDMA_POLL_MODE_WB_SIZE_def)
  with e show ?thesis by (auto simp: engine_at_def)
qed

theorem rx_stream_wb_out_of_zone_witness:
  "\<exists>w' e. xdma_rx_engine_setup ex_env 0x400 0 64 (ex_world (ex_engine H2C)) = Inr w' \<and>
     engines w' 0x10000 = Some e \<and> blocks w' (mz e) = Some 1036 \<and> stream_wb_addr e = mz e + 2080"
proof -
  let ?w = "ex_world (ex_engine H2C)"
  have al: "alloc ex_env (allocs ?w) = 0x10000"
    "alloc ex_env (Suc (Suc (allocs ?w))) \<noteq> alloc ex_env (Suc (allocs ?w))"
    by (simp_all add: ex_env_def ex_world_def empty_world_def)
  have q: "unat (0 :: u16) < length [0 :: u64]" by simp
  from rx_stream_wb_out_of_zone [OF ex_setup_pre [of "''RxHwRn''" "ex_engine H2C"] ex_queues(2) ex_dat_sel(3) q al(2), of 64]
  show ?thesis unfolding al(1) by auto
qed

end
